(* ===== verification/TSN_Prelude.thy ===== *)
theory TSN_Prelude
  imports
    Main
    "HOL-Library.Word"
    "HOL-Library.Sublist"
    "HOL-Library.Char_ord"
    "HOL-Library.List_Lexorder"
begin

text \<open>
  Shared vocabulary of the development: the machine types of the C++ sources, the named
  collections the component theories feed and use, and the generic lemmas on bytes, bit
  positions and lists that more than one component needs.

  Fixed-width unsigned integers of the sources (\<^verbatim>\<open>uint8_t\<close>, \<^verbatim>\<open>uint32_t\<close>,
  \<^verbatim>\<open>uint64_t\<close>) are words of that width. \<^verbatim>\<open>size_t\<close> values count bytes, bits or
  elements of objects that live in memory; they are natural numbers here.
\<close>

unbundle bit_operations_syntax

type_synonym u8 = "8 word"
type_synonym u16 = "16 word"
type_synonym u32 = "32 word"
type_synonym u64 = "64 word"
type_synonym bytes = "u8 list"

text \<open>
  How a C++ call can end when it does not only return: with a value, with an exception, or in
  undefined behaviour (an access the language gives no meaning to).
\<close>

datatype 'a run = Returns 'a | Throws | Undefined

fun run_bind :: "'a run \<Rightarrow> ('a \<Rightarrow> 'b run) \<Rightarrow> 'b run" where
  "run_bind (Returns x) f = f x"
| "run_bind Throws f = Throws"
| "run_bind Undefined f = Undefined"

text \<open>A range-based for loop whose body can throw.\<close>

fun run_fold :: "('a \<Rightarrow> 's \<Rightarrow> 's run) \<Rightarrow> 'a list \<Rightarrow> 's \<Rightarrow> 's run" where
  "run_fold f [] s = Returns s"
| "run_fold f (x # xs) s = run_bind (f x s) (run_fold f xs)"

lemma run_bind_Returns: "run_bind r f = Returns y \<longleftrightarrow> (\<exists>x. r = Returns x \<and> f x = Returns y)"
  by (cases r) simp_all

named_theorems db_simps "look-up after insertion in the name databases"
named_theorems codec_simps "bit-level packing and unpacking of fields"
named_theorems ctx_simps "size- and name-preservation of layer contexts"
named_theorems transport_simps "branches of the transport operations"

section \<open>Rounding bits up to bytes\<close>

definition ceil8 :: "nat \<Rightarrow> nat" where
  "ceil8 n = (n + 7) div 8"

lemma ceil8_0 [simp]: "ceil8 0 = 0"
  by (simp add: ceil8_def)

lemma ceil8_mult8 [simp]: "ceil8 (8 * n) = n"
  by (simp add: ceil8_def)

lemma ceil8_add_mult8 [simp]: "ceil8 (8 * n + k) = n + ceil8 k"
  by (simp add: ceil8_def)

lemma ceil8_mono: "m \<le> n \<Longrightarrow> ceil8 m \<le> ceil8 n"
  by (simp add: ceil8_def div_le_mono)

lemma le_ceil8: "n \<le> 8 * ceil8 n"
  unfolding ceil8_def by arith

lemma ceil8_Suc: "ceil8 (Suc n) = Suc (n div 8)"
  by (simp add: ceil8_def)

lemma ceil8_eq_0_iff [simp]: "ceil8 n = 0 \<longleftrightarrow> n = 0"
  unfolding ceil8_def by arith

section \<open>Values that fit a number of bits\<close>

lemma take_bit_eq_self_unat: "take_bit k (v :: 'a::len word) = v \<longleftrightarrow> unat v < 2 ^ k"
proof -
  have "take_bit k v = v \<longleftrightarrow> unat (take_bit k v) = unat v"
    by (metis word_unat_eq_iff)
  also have "\<dots> \<longleftrightarrow> take_bit k (unat v) = unat v"
    by (simp add: unsigned_take_bit_eq)
  also have "\<dots> \<longleftrightarrow> unat v < 2 ^ k"
    by (simp add: take_bit_nat_eq_self_iff)
  finally show ?thesis .
qed

lemma unat_less_pow64: "64 \<le> k \<Longrightarrow> unat (v :: u64) < 2 ^ k"
proof -
  assume "64 \<le> k"
  then have "(2 :: nat) ^ 64 \<le> 2 ^ k"
    by (intro power_increasing) simp_all
  moreover have "unat v < 2 ^ 64"
    using unsigned_less [of v] by simp
  ultimately show ?thesis
    by (rule less_le_trans [rotated])
qed

lemma le_all_ones_iff:
  assumes "k < 64"
  shows "v \<le> (push_bit k 1 - 1 :: u64) \<longleftrightarrow> unat v < 2 ^ k"
proof -
  have "push_bit k 1 - 1 = (mask k :: u64)"
    by (simp add: mask_eq_exp_minus_1 push_bit_eq_mult)
  then have "v \<le> (push_bit k 1 - 1 :: u64) \<longleftrightarrow> uint v \<le> mask k"
    using assms by (simp add: word_le_def uint_mask_eq)
  also have "\<dots> \<longleftrightarrow> int (unat v) < 2 ^ k"
    by (simp only: mask_eq_exp_minus_1 uint_nat zle_diff1_eq)
  also have "\<dots> \<longleftrightarrow> unat v < 2 ^ k"
    by (metis of_nat_less_iff of_nat_numeral of_nat_power)
  finally show ?thesis .
qed

lemma ucast_word_of_int:
  "LENGTH('b) \<le> LENGTH('a) \<Longrightarrow> ucast (word_of_int n :: 'a::len word) = (word_of_int n :: 'b::len word)"
  by (rule bit_word_eqI) (auto simp: bit_simps)

lemma unat_and_less: "unat v < n \<Longrightarrow> unat (v AND m) < n" for v m :: "'a::len word"
  using word_and_le2 [of v m] by (simp add: word_le_nat_alt)

text \<open>A counter below its limit can be incremented without wrapping.\<close>

lemma word_increment:
  fixes i count :: "'a :: len word"
  assumes "i < count"
  shows "unat (i + 1) = Suc (unat i)" and "i + 1 \<le> count"
proof -
  have "i + 1 \<noteq> 0" "i + 1 \<le> count"
    using assms inc_le [of i count] word_n1_ge [of count] by (auto simp: add_eq_0_iff2 not_less [symmetric])
  then show "unat (i + 1) = Suc (unat i)" "i + 1 \<le> count"
    by (simp_all add: unatSuc add.commute)
qed

end
