(* ===== verification/Cpp_Strings.thy ===== *)
theory Cpp_Strings
  imports TSN_Prelude
begin

text \<open>
  The operations of \<^verbatim>\<open>std::string\<close> the sources use, on \<^typ>\<open>string\<close> (a list of
  bytes): \<^verbatim>\<open>find\<close>, \<^verbatim>\<open>rfind\<close>, the \<^verbatim>\<open>rfind(p, 0) == 0\<close> prefix test,
  \<^verbatim>\<open>substr\<close>, and the derived \<^verbatim>\<open>short name\<close> of a qualified variable reference.
  \<open>None\<close> stands for \<^verbatim>\<open>npos\<close>.
\<close>

definition matches_at :: "string \<Rightarrow> string \<Rightarrow> nat \<Rightarrow> bool" where
  "matches_at s pat i \<longleftrightarrow> take (length pat) (drop i s) = pat"

definition str_find :: "string \<Rightarrow> string \<Rightarrow> nat \<Rightarrow> nat option" where
  "str_find s pat pos = List.find (matches_at s pat) [pos..<Suc (length s)]"

definition str_rfind :: "string \<Rightarrow> string \<Rightarrow> nat \<Rightarrow> nat option" where
  "str_rfind s pat pos = List.find (matches_at s pat) (rev [0..<Suc (min pos (length s))])"

definition str_rfind_all :: "string \<Rightarrow> string \<Rightarrow> nat option" where
  "str_rfind_all s pat = str_rfind s pat (length s)"

definition starts_with :: "string \<Rightarrow> string \<Rightarrow> bool" where
  "starts_with s p \<longleftrightarrow> str_rfind s p 0 = Some 0"

definition qual_sep :: string where
  "qual_sep = ''::''"

definition shortName :: "string \<Rightarrow> string" where
  "shortName ref = (case str_rfind_all ref qual_sep of
       Some pos \<Rightarrow> drop (pos + 2) ref
     | None \<Rightarrow> ref)"

section \<open>The prefix test\<close>

lemma starts_with_iff_prefix: "starts_with s p \<longleftrightarrow> prefix p s"
proof -
  have "starts_with s p \<longleftrightarrow> take (length p) s = p"
    by (simp add: starts_with_def str_rfind_def matches_at_def)
  also have "\<dots> \<longleftrightarrow> prefix p s"
    by (metis append_eq_conv_conj prefix_def take_is_prefix)
  finally show ?thesis .
qed

section \<open>The last occurrence and short names\<close>

lemma find_rev_upt_Some:
  assumes "List.find P (rev [0..<n]) = Some i"
  shows "P i \<and> i < n \<and> (\<forall>j. i < j \<and> j < n \<longrightarrow> \<not> P j)"
  using assms by (induction n) (auto split: if_splits simp: less_Suc_eq)

lemma find_rev_upt_None:
  "List.find P (rev [0..<n]) = None \<longleftrightarrow> (\<forall>j<n. \<not> P j)"
  by (auto simp: find_None_iff)

lemma str_rfind_all_Some:
  assumes "str_rfind_all s pat = Some i"
  shows "matches_at s pat i \<and> i \<le> length s \<and> (\<forall>j. i < j \<and> j \<le> length s \<longrightarrow> \<not> matches_at s pat j)"
  using find_rev_upt_Some [of "matches_at s pat" "Suc (length s)" i] assms
  by (auto simp: str_rfind_all_def str_rfind_def less_Suc_eq_le simp del: upt_Suc)

lemma str_rfind_all_None:
  "str_rfind_all s pat = None \<longleftrightarrow> (\<forall>j\<le>length s. \<not> matches_at s pat j)"
  using find_rev_upt_None [of "matches_at s pat" "Suc (length s)"]
  by (auto simp: str_rfind_all_def str_rfind_def less_Suc_eq_le simp del: upt_Suc)

lemma matches_at_shift:
  "length pre \<le> j \<Longrightarrow> matches_at (pre @ s) pat j \<longleftrightarrow> matches_at s pat (j - length pre)"
  by (simp add: matches_at_def)

lemma matches_at_sep_bound: "matches_at s qual_sep j \<Longrightarrow> j + 2 \<le> length s"
proof -
  assume "matches_at s qual_sep j"
  then have "take 2 (drop j s) = ''::''"
    by (simp add: matches_at_def qual_sep_def numeral_2_eq_2)
  then have "length (take 2 (drop j s)) = 2"
    by simp
  then show ?thesis
    by (simp add: min_def split: if_splits)
qed

definition has_sep :: "string \<Rightarrow> bool" where
  "has_sep s \<longleftrightarrow> str_find s qual_sep 0 \<noteq> None"

lemma has_sep_iff: "has_sep s \<longleftrightarrow> (\<exists>j\<le>length s. matches_at s qual_sep j)"
  by (auto simp: has_sep_def str_find_def find_Some_iff find_None_iff less_Suc_eq_le
      simp del: upt_Suc)

lemma shortName_unqualified: "\<not> has_sep s \<Longrightarrow> shortName s = s"
proof -
  assume "\<not> has_sep s"
  then have "str_rfind_all s qual_sep = None"
    by (simp add: str_rfind_all_None has_sep_iff)
  then show ?thesis
    by (simp add: shortName_def)
qed

text \<open>
  A reference \<^verbatim>\<open>svc::name\<close> has the short name \<^verbatim>\<open>name\<close> whenever \<^verbatim>\<open>name\<close>
  neither contains a separator nor starts with a colon.
\<close>

lemma matches_at_after_sep:
  assumes "\<not> has_sep nm" and "\<not> prefix '':'' nm"
    and "length svc < j" and "j \<le> length (svc @ qual_sep @ nm)"
  shows "\<not> matches_at (svc @ qual_sep @ nm) qual_sep j"
proof
  assume m: "matches_at (svc @ qual_sep @ nm) qual_sep j"
  define k where "k = j - length svc"
  have k: "0 < k" "k \<le> length nm + 2"
    using assms(3,4) by (auto simp: k_def qual_sep_def)
  have mk: "matches_at (qual_sep @ nm) qual_sep k"
    using m assms(3) by (simp add: matches_at_shift k_def)
  show False
  proof (cases "k = 1")
    case True
    with mk show False
      using assms(2) by (cases nm) (auto simp: matches_at_def qual_sep_def)
  next
    case False
    with k have "2 \<le> k" by simp
    then have "matches_at nm qual_sep (k - 2)"
      using mk matches_at_shift [of qual_sep k nm qual_sep] by (simp add: qual_sep_def numeral_2_eq_2)
    moreover have "k - 2 \<le> length nm"
      using k by simp
    ultimately show False
      using assms(1) by (auto simp: has_sep_iff)
  qed
qed

lemma shortName_qualified:
  assumes "\<not> has_sep nm" and "\<not> prefix '':'' nm"
  shows "shortName (svc @ qual_sep @ nm) = nm"
proof -
  let ?s = "svc @ qual_sep @ nm"
  have at: "matches_at ?s qual_sep (length svc)"
    by (simp add: matches_at_def)
  obtain i where i: "str_rfind_all ?s qual_sep = Some i"
    using at by (cases "str_rfind_all ?s qual_sep") (auto simp: str_rfind_all_None)
  note spec = str_rfind_all_Some [OF i]
  have "i \<le> length svc"
    using spec matches_at_after_sep [OF assms, of svc i] by (meson not_le)
  moreover have "\<not> i < length svc"
    using spec at by auto
  ultimately have "i = length svc" by simp
  with i show ?thesis
    by (simp add: shortName_def qual_sep_def)
qed

end
