(* ===== verification/Error_Codes.thy ===== *)
theory Error_Codes
  imports TSN_Prelude
begin

text \<open>
  The error objects of the sources. Every component has a class derived from
  \<^verbatim>\<open>tsn::Error\<close> (parser/inc/tsn/error.h) that carries an integer code and a vector of
  messages indexed by it. A code is a \<^verbatim>\<open>C\<close> enumerator without a type of its own, so codes
  of different classes can be mixed; they are integers here as they are there.
\<close>

text \<open>
  \<^verbatim>\<open>Error\<close> holds its messages by reference (error.h), and the reference is bound to a member of the
  derived object the constructor runs for. So the objects have addresses: \<open>vectors\<close> are the message
  vectors of the objects that are alive, and \<open>mErrorVector\<close> is the address of the object whose vector
  the reference is bound to.
\<close>

type_synonym vectors = "nat \<rightharpoonup> string list"

record Error =
  mErrorCode :: int
  mErrorVector :: nat
  mExtMsg :: string

text \<open>The constructor of a class with the messages \<open>vec\<close>, for an object at address \<open>a\<close>.\<close>

definition mk_error :: "nat \<Rightarrow> int \<Rightarrow> string list \<Rightarrow> vectors \<Rightarrow> Error \<times> vectors" where
  "mk_error a c vec live = (\<lparr>mErrorCode = c, mErrorVector = a, mExtMsg = []\<rparr>, live(a \<mapsto> vec))"

text \<open>
  The implicit copy constructor, from the object at \<open>b\<close> to a new one at \<open>a\<close>: the new object has its own copy
  of the vector, but its reference stays bound to the vector of the object the code was first reported in.
\<close>

definition copy_error :: "nat \<Rightarrow> nat \<Rightarrow> Error \<Rightarrow> vectors \<Rightarrow> Error \<times> vectors" where
  "copy_error a b e live = (e, live(a := live b))"

definition destroy_error :: "nat \<Rightarrow> vectors \<Rightarrow> vectors" where
  "destroy_error a live = live(a := None)"

definition getErrorCode :: "Error \<Rightarrow> int" where
  "getErrorCode e = mErrorCode e"

text \<open>
  \<^verbatim>\<open>assert(mErrorCode < mErrorVector.size())\<close>: the comparison converts the \<^verbatim>\<open>int\<close>
  code to the unsigned type of \<^verbatim>\<open>size()\<close>, so a negative code fails the assertion.
  \<open>None\<close> is the failed assertion (or, with assertions compiled out, undefined
  behaviour of the indexing in \<open>getErrorMsg\<close>), and also the undefined behaviour of reading a vector that is gone.
\<close>

definition code_in_range :: "vectors \<Rightarrow> Error \<Rightarrow> bool" where
  "code_in_range live e \<longleftrightarrow> (case live (mErrorVector e) of
     None \<Rightarrow> False
   | Some vec \<Rightarrow> 0 \<le> mErrorCode e \<and> mErrorCode e < int (length vec))"

definition setErrorCode :: "vectors \<Rightarrow> int \<Rightarrow> Error \<Rightarrow> Error option" where
  "setErrorCode live c e = (if code_in_range live e then Some (e\<lparr>mErrorCode := c\<rparr>) else None)"

definition getErrorMsg :: "vectors \<Rightarrow> Error \<Rightarrow> string option" where
  "getErrorMsg live e =
     (if code_in_range live e then Some (the (live (mErrorVector e)) ! nat (mErrorCode e)) else None)"

definition setmExtMsg :: "string \<Rightarrow> Error \<Rightarrow> Error" where
  "setmExtMsg msg e = e\<lparr>mExtMsg := msg\<rparr>"

definition getmExtMsg :: "Error \<Rightarrow> string" where
  "getmExtMsg e = mExtMsg e"

text \<open>
  The assignment operator every class defines copies the code alone: the target keeps its own message
  vector and its own additional message.
\<close>

definition assign_error :: "Error \<Rightarrow> Error \<Rightarrow> Error" where
  "assign_error this other = this\<lparr>mErrorCode := mErrorCode other\<rparr>"

section \<open>The enumerations\<close>

text \<open>\<^verbatim>\<open>DatabaseErr\<close> (parser/inc/tsn/database.h).\<close>

definition DB_SUCCESS :: int where "DB_SUCCESS = 0"
definition DBERR_UNKNOWN :: int where "DBERR_UNKNOWN = 1"
definition DBERR_INVALID_INPUT :: int where "DBERR_INVALID_INPUT = 2"
definition DBERR_UNEXPECTED :: int where "DBERR_UNEXPECTED = 3"
definition DBERR_ENTRY_ALREADY_EXISTS :: int where "DBERR_ENTRY_ALREADY_EXISTS = 4"
definition DBERR_ENTRY_NOTFOUND :: int where "DBERR_ENTRY_NOTFOUND = 5"

lemmas db_codes = DB_SUCCESS_def DBERR_UNKNOWN_def DBERR_INVALID_INPUT_def
  DBERR_UNEXPECTED_def DBERR_ENTRY_ALREADY_EXISTS_def DBERR_ENTRY_NOTFOUND_def

definition DatabaseErr_vector :: "string list" where
  "DatabaseErr_vector =
     [''DB:ERR: SUCCESS'',
      ''DB:ERR: UNKNOWN'',
      ''DB:ERR: INVALID_INPUT'',
      ''DB:ERR: UNEXPECTED'',
      ''DB:ERR: ALREADY EXISTS'',
      ''DB:ERR: ENTRY NOT FOUND'']"

text \<open>\<^verbatim>\<open>VarErr\<close> (parser/inc/tsn/var.h).\<close>

definition VAR_SUCCESS :: int where "VAR_SUCCESS = 0"
definition VAR_ERR_UNKNOWN :: int where "VAR_ERR_UNKNOWN = 1"
definition VAR_ERR_UNVALID_VAR :: int where "VAR_ERR_UNVALID_VAR = 2"

lemmas var_codes = VAR_SUCCESS_def VAR_ERR_UNKNOWN_def VAR_ERR_UNVALID_VAR_def

definition VarErr_vector :: "string list" where
  "VarErr_vector = [''VAR: ERR: SUCCESS'', ''VAR: ERR: UNKNOWN'', ''VAR: ERR: INVALID NAME'']"

text \<open>\<^verbatim>\<open>ProtocolErr\<close> (parser/inc/tsn/protocol.h).\<close>

definition PROTO_SUCCESS :: int where "PROTO_SUCCESS = 0"
definition PROTOERR_UNKNOWN :: int where "PROTOERR_UNKNOWN = 1"
definition PROTOERR_INVALID_FILE :: int where "PROTOERR_INVALID_FILE = 2"
definition PROTOERR_UNEXPECTED :: int where "PROTOERR_UNEXPECTED = 3"

lemmas proto_codes = PROTO_SUCCESS_def PROTOERR_UNKNOWN_def PROTOERR_INVALID_FILE_def
  PROTOERR_UNEXPECTED_def

definition ProtocolErr_vector :: "string list" where
  "ProtocolErr_vector =
     [''PPOTO:ERR: SUCCESS'',
      ''PROTO:ERR: UNKNOWN'',
      ''PROTO:ERR: INVALID FILE'',
      ''PROTO:ERR: UNEXPECTED'']"

text \<open>\<^verbatim>\<open>ProtocolParserErr\<close> (parser/inc/tsn/protocol_parser.h).\<close>

definition PROTOPARSER_SUCCESS :: int where "PROTOPARSER_SUCCESS = 0"
definition PROTOPARSERERR_UNKNOWN :: int where "PROTOPARSERERR_UNKNOWN = 1"
definition PROTOPARSERERR_INVALID_INPUT :: int where "PROTOPARSERERR_INVALID_INPUT = 2"
definition PROTOPARSERERR_UNEXPECTED :: int where "PROTOPARSERERR_UNEXPECTED = 3"
definition PROTOPARSERERR_UNDEFINED :: int where "PROTOPARSERERR_UNDEFINED = 4"
definition PROTOPARSERERR_EXISTS :: int where "PROTOPARSERERR_EXISTS = 5"

lemmas protoparser_codes = PROTOPARSER_SUCCESS_def PROTOPARSERERR_UNKNOWN_def
  PROTOPARSERERR_INVALID_INPUT_def PROTOPARSERERR_UNEXPECTED_def
  PROTOPARSERERR_UNDEFINED_def PROTOPARSERERR_EXISTS_def

text \<open>
  The message vector of \<^verbatim>\<open>ProtocolParserErr\<close>: two commas are missing between the last
  three literals, so the compiler concatenates them into one string.
\<close>

definition ProtocolParserErr_vector :: "string list" where
  "ProtocolParserErr_vector =
     [''PPASER:ERR: SUCCESS'', ''PPASER:ERR: UNKNOWN'', ''PPASER:ERR: INVALID INPUT'',
      ''PPASER:ERR: UNEXPECTED'' @ ''PPASER:ERR: UNDEFINED'' @ ''PPASER:ERR: EXISTS'']"

text \<open>\<^verbatim>\<open>StackBuilderErr\<close> (parser/inc/tsn/stack_builder.h).\<close>

definition STACK_SUCCESS :: int where "STACK_SUCCESS = 0"
definition STACK_ERR_UNKNOWN :: int where "STACK_ERR_UNKNOWN = 1"
definition STACK_ERR_INVALID_FILE :: int where "STACK_ERR_INVALID_FILE = 2"
definition STACK_ERR_MISSING_KEY :: int where "STACK_ERR_MISSING_KEY = 3"
definition STACK_ERR_UNKNOWN_SERVICE :: int where "STACK_ERR_UNKNOWN_SERVICE = 4"
definition STACK_ERR_UNKNOWN_LOGIC :: int where "STACK_ERR_UNKNOWN_LOGIC = 5"

lemmas stack_codes = STACK_SUCCESS_def STACK_ERR_UNKNOWN_def STACK_ERR_INVALID_FILE_def
  STACK_ERR_MISSING_KEY_def STACK_ERR_UNKNOWN_SERVICE_def STACK_ERR_UNKNOWN_LOGIC_def

definition StackBuilderErr_vector :: "string list" where
  "StackBuilderErr_vector =
     [''STACK:ERR: SUCCESS'',
      ''STACK:ERR: UNKNOWN'',
      ''STACK:ERR: INVALID FILE'',
      ''STACK:ERR: MISSING KEY'',
      ''STACK:ERR: UNKNOWN SERVICE'',
      ''STACK:ERR: UNKNOWN LOGIC'']"

text \<open>\<^verbatim>\<open>SenderErr\<close> and \<^verbatim>\<open>ReceiverErr\<close> (traffic-gen/inc/tsn).\<close>

definition SENDER_SUCCESS :: int where "SENDER_SUCCESS = 0"
definition SENDER_ERR_UNKNOWN :: int where "SENDER_ERR_UNKNOWN = 1"
definition SENDER_ERR_OPEN_FAILED :: int where "SENDER_ERR_OPEN_FAILED = 2"
definition SENDER_ERR_SEND_FAILED :: int where "SENDER_ERR_SEND_FAILED = 3"
definition SENDER_ERR_NOT_OPEN :: int where "SENDER_ERR_NOT_OPEN = 4"

lemmas sender_codes = SENDER_SUCCESS_def SENDER_ERR_UNKNOWN_def SENDER_ERR_OPEN_FAILED_def
  SENDER_ERR_SEND_FAILED_def SENDER_ERR_NOT_OPEN_def

definition SenderErr_vector :: "string list" where
  "SenderErr_vector =
     [''SENDER: SUCCESS'',
      ''SENDER: ERR: UNKNOWN'',
      ''SENDER: ERR: OPEN FAILED'',
      ''SENDER: ERR: SEND FAILED'',
      ''SENDER: ERR: NOT OPEN'']"

definition RECEIVER_SUCCESS :: int where "RECEIVER_SUCCESS = 0"
definition RECEIVER_ERR_UNKNOWN :: int where "RECEIVER_ERR_UNKNOWN = 1"
definition RECEIVER_ERR_OPEN_FAILED :: int where "RECEIVER_ERR_OPEN_FAILED = 2"
definition RECEIVER_ERR_RECV_FAILED :: int where "RECEIVER_ERR_RECV_FAILED = 3"
definition RECEIVER_ERR_NOT_OPEN :: int where "RECEIVER_ERR_NOT_OPEN = 4"
definition RECEIVER_ERR_EOF :: int where "RECEIVER_ERR_EOF = 5"

lemmas receiver_codes = RECEIVER_SUCCESS_def RECEIVER_ERR_UNKNOWN_def
  RECEIVER_ERR_OPEN_FAILED_def RECEIVER_ERR_RECV_FAILED_def RECEIVER_ERR_NOT_OPEN_def
  RECEIVER_ERR_EOF_def

definition ReceiverErr_vector :: "string list" where
  "ReceiverErr_vector =
     [''RECEIVER: SUCCESS'',
      ''RECEIVER: ERR: UNKNOWN'',
      ''RECEIVER: ERR: OPEN FAILED'',
      ''RECEIVER: ERR: RECV FAILED'',
      ''RECEIVER: ERR: NOT OPEN'',
      ''RECEIVER: ERR: EOF'']"

text \<open>\<^verbatim>\<open>TrafficGeneratorErr\<close> (traffic-gen/inc/tsn/traffic_generator.h).\<close>

definition TGEN_SUCCESS :: int where "TGEN_SUCCESS = 0"
definition TGEN_ERR_UNKNOWN :: int where "TGEN_ERR_UNKNOWN = 1"
definition TGEN_ERR_NOT_OPEN :: int where "TGEN_ERR_NOT_OPEN = 2"
definition TGEN_ERR_SEND_FAILED :: int where "TGEN_ERR_SEND_FAILED = 3"
definition TGEN_ERR_IFACE_NOT_FOUND :: int where "TGEN_ERR_IFACE_NOT_FOUND = 4"
definition TGEN_ERR_EMPTY_PACKET :: int where "TGEN_ERR_EMPTY_PACKET = 5"

lemmas tgen_codes = TGEN_SUCCESS_def TGEN_ERR_UNKNOWN_def TGEN_ERR_NOT_OPEN_def
  TGEN_ERR_SEND_FAILED_def TGEN_ERR_IFACE_NOT_FOUND_def TGEN_ERR_EMPTY_PACKET_def

definition TrafficGeneratorErr_vector :: "string list" where
  "TrafficGeneratorErr_vector =
     [''TGEN: SUCCESS'',
      ''TGEN: ERR: UNKNOWN'',
      ''TGEN: ERR: NOT OPEN'',
      ''TGEN: ERR: SEND FAILED'',
      ''TGEN: ERR: INTERFACE NOT FOUND'',
      ''TGEN: ERR: EMPTY PACKET'']"

section \<open>Facts about error objects\<close>

text \<open>An object has a message exactly as long as the object its reference is bound to is alive.\<close>

lemma getErrorMsg_live:
  "0 \<le> c \<Longrightarrow> c < int (length vec) \<Longrightarrow> live a = Some vec \<Longrightarrow>
     getErrorMsg live (fst (mk_error a c vec live0)) = Some (vec ! nat c)"
  by (simp add: getErrorMsg_def code_in_range_def mk_error_def)

lemma getErrorMsg_dangling: "live a = None \<Longrightarrow> getErrorMsg live (fst (mk_error a c vec live0)) = None"
  by (simp add: getErrorMsg_def code_in_range_def mk_error_def)

lemma fst_copy_error [simp]: "fst (copy_error a b e live) = e"
  by (simp add: copy_error_def)

text \<open>
  Every code of every class has a message, except the last two of \<^verbatim>\<open>ProtocolParserErr\<close>, whose
  look-up fails the assertion.
\<close>

lemma message_vectors:
  "length DatabaseErr_vector = nat DBERR_ENTRY_NOTFOUND + 1" "length ProtocolErr_vector = nat PROTOERR_UNEXPECTED + 1"
  "length StackBuilderErr_vector = nat STACK_ERR_UNKNOWN_LOGIC + 1" "length SenderErr_vector = nat SENDER_ERR_NOT_OPEN + 1"
  "length ReceiverErr_vector = nat RECEIVER_ERR_EOF + 1" "length TrafficGeneratorErr_vector = nat TGEN_ERR_EMPTY_PACKET + 1"
  "length ProtocolParserErr_vector = nat PROTOPARSERERR_UNEXPECTED + 1" "length VarErr_vector = nat VAR_ERR_UNVALID_VAR + 1"
  by (simp_all add: VarErr_vector_def var_codes DatabaseErr_vector_def ProtocolErr_vector_def StackBuilderErr_vector_def SenderErr_vector_def
      ReceiverErr_vector_def TrafficGeneratorErr_vector_def ProtocolParserErr_vector_def db_codes proto_codes stack_codes
      sender_codes receiver_codes tgen_codes protoparser_codes)

lemma ProtocolParserErr_messages:
  "getErrorMsg [a \<mapsto> ProtocolParserErr_vector] (fst (mk_error a PROTOPARSERERR_UNDEFINED vec live)) = None"
  "getErrorMsg [a \<mapsto> ProtocolParserErr_vector] (fst (mk_error a PROTOPARSERERR_EXISTS vec live)) = None"
  "getErrorMsg [a \<mapsto> ProtocolParserErr_vector] (fst (mk_error a PROTOPARSERERR_UNEXPECTED vec live))
     = Some ''PPASER:ERR: UNEXPECTEDPPASER:ERR: UNDEFINEDPPASER:ERR: EXISTS''"
  by (simp_all add: getErrorMsg_def code_in_range_def mk_error_def message_vectors protoparser_codes)
    (simp add: ProtocolParserErr_vector_def)

lemma assign_error_code:
  "getErrorCode (assign_error this other) = getErrorCode other" "getmExtMsg (assign_error this other) = getmExtMsg this"
  by (simp_all add: assign_error_def getErrorCode_def getmExtMsg_def)

lemma setErrorCode_bad_stored:
  "setErrorCode live c e = Some e' \<Longrightarrow> live (mErrorVector e) = Some vec \<Longrightarrow>
     code_in_range live e' \<longleftrightarrow> 0 \<le> c \<and> c < int (length vec)"
  by (auto simp: setErrorCode_def code_in_range_def split: if_splits)

end
