(* ===== verification/Name_Database.thy ===== *)
theory Name_Database
  imports Cpp_Strings Error_Codes
begin

text \<open>
  \<^verbatim>\<open>tsn::Database<T>\<close> (parser/inc/tsn/database.h and database.cpp): a
  \<^verbatim>\<open>std::map<std::string, T>\<close> that only grows, refuses empty names and refuses a name
  that is already present. The map is its sorted sequence of key/value pairs; keys are ordered
  as \<^verbatim>\<open>std::string\<close> compares them, by unsigned byte value.

  The locale \<open>name_store\<close> is the contract the parser, the stack builder and the
  generators rely on; \<open>Database\<close> is interpreted in it at the end.
\<close>

record 'a Database =
  internalMaps :: "(string \<times> 'a) list"

definition empty_db :: "'a Database" where
  "empty_db = \<lparr>internalMaps = []\<rparr>"

text \<open>\<^verbatim>\<open>std::map::emplace\<close>: inserts in key order, does nothing when the key exists.\<close>

fun map_emplace :: "string \<Rightarrow> 'a \<Rightarrow> (string \<times> 'a) list \<Rightarrow> (string \<times> 'a) list" where
  "map_emplace k v [] = [(k, v)]"
| "map_emplace k v ((k', v') # m) =
     (if k < k' then (k, v) # (k', v') # m
      else if k = k' then (k', v') # m
      else (k', v') # map_emplace k v m)"

definition checkIfValid :: "'a Database \<Rightarrow> string \<Rightarrow> int" where
  "checkIfValid db name = (if name = [] then DBERR_INVALID_INPUT else DB_SUCCESS)"

definition checkIfExists :: "'a Database \<Rightarrow> string \<Rightarrow> int" where
  "checkIfExists db name =
     (if map_of (internalMaps db) name \<noteq> None then DBERR_ENTRY_ALREADY_EXISTS else DB_SUCCESS)"

definition addUniqueElement :: "string \<Rightarrow> 'a \<Rightarrow> 'a Database \<Rightarrow> int \<times> 'a Database" where
  "addUniqueElement name obj db =
     (let err = checkIfValid db name in
      if err \<noteq> 0 then (err, db)
      else
        let err = checkIfExists db name in
        if err \<noteq> 0 then (err, db)
        else (DB_SUCCESS, db\<lparr>internalMaps := map_emplace name obj (internalMaps db)\<rparr>))"

definition getElement :: "'a Database \<Rightarrow> string \<Rightarrow> 'a option" where
  "getElement db name = map_of (internalMaps db) name"

definition db_size :: "'a Database \<Rightarrow> nat" where
  "db_size db = length (internalMaps db)"

text \<open>\<^verbatim>\<open>forEach\<close>: the callback mutates captured state, so it is a state transformer here.\<close>

fun forEach_loop :: "(string \<Rightarrow> 'a \<Rightarrow> 's \<Rightarrow> 's) \<Rightarrow> (string \<times> 'a) list \<Rightarrow> 's \<Rightarrow> 's" where
  "forEach_loop fn [] s = s"
| "forEach_loop fn ((k, v) # m) s = forEach_loop fn m (fn k v s)"

definition forEach :: "'a Database \<Rightarrow> (string \<Rightarrow> 'a \<Rightarrow> 's \<Rightarrow> 's) \<Rightarrow> 's \<Rightarrow> 's" where
  "forEach db fn s = forEach_loop fn (internalMaps db) s"

section \<open>The representation invariant\<close>

definition db_inv :: "'a Database \<Rightarrow> bool" where
  "db_inv db \<longleftrightarrow> sorted_wrt (<) (map fst (internalMaps db)) \<and> (\<forall>k\<in>set (map fst (internalMaps db)). k \<noteq> [])"

lemma map_emplace_keys: "set (map fst (map_emplace k v m)) = insert k (set (map fst m))"
  by (induction k v m rule: map_emplace.induct) auto

lemma map_emplace_sorted:
  "sorted_wrt (<) (map fst m) \<Longrightarrow> sorted_wrt (<) (map fst (map_emplace k v m))"
proof (induction k v m rule: map_emplace.induct)
  case (2 k v k' v' m)
  consider "k < k'" | "k = k'" | "k' < k" by fastforce
  then show ?case
  proof cases
    case 1
    then show ?thesis using "2.prems" by (auto intro: less_trans)
  next
    case 2
    then show ?thesis using "2.prems" by simp
  next
    case 3
    then have "sorted_wrt (<) (map fst (map_emplace k v m))"
      using "2.IH" "2.prems" by auto
    then show ?thesis
      using 3 "2.prems" map_emplace_keys [of k v m] by auto
  qed
qed simp

lemma map_of_map_emplace:
  "map_of m k = None \<Longrightarrow> map_of (map_emplace k v m) = (map_of m)(k \<mapsto> v)"
  by (induction k v m rule: map_emplace.induct) (auto simp: fun_eq_iff split: if_splits)

lemma length_map_emplace:
  "map_of m k = None \<Longrightarrow> length (map_emplace k v m) = Suc (length m)"
  by (induction k v m rule: map_emplace.induct) (auto split: if_splits)

lemma db_inv_empty [simp]: "db_inv empty_db"
  by (simp add: db_inv_def empty_db_def)

lemma addUniqueElement_cases:
  "addUniqueElement name obj db =
     (if name = [] then (DBERR_INVALID_INPUT, db)
      else if getElement db name \<noteq> None then (DBERR_ENTRY_ALREADY_EXISTS, db)
      else (DB_SUCCESS, db\<lparr>internalMaps := map_emplace name obj (internalMaps db)\<rparr>))"
  by (simp add: addUniqueElement_def checkIfValid_def checkIfExists_def getElement_def
      db_codes Let_def)

lemma addUniqueElement_inv:
  "db_inv db \<Longrightarrow> db_inv (snd (addUniqueElement name obj db))"
  by (simp add: addUniqueElement_cases db_inv_def map_emplace_sorted map_emplace_keys del: set_map)

lemma getElement_addUnique [db_simps]:
  "getElement (snd (addUniqueElement name obj db)) k =
     (if k = name \<and> name \<noteq> [] \<and> getElement db name = None then Some obj else getElement db k)"
  by (auto simp: addUniqueElement_cases getElement_def map_of_map_emplace)

lemma getElement_empty_db [simp, db_simps]: "getElement empty_db k = None"
  by (simp add: empty_db_def getElement_def)

lemma getElement_key_nonempty: "db_inv db \<Longrightarrow> getElement db k = Some v \<Longrightarrow> k \<noteq> []"
  using map_of_SomeD by (fastforce simp: db_inv_def getElement_def)

lemma db_inv_distinct: "db_inv db \<Longrightarrow> distinct (map fst (internalMaps db))"
  by (auto simp: db_inv_def strict_sorted_iff)

lemma getElement_iff_mem:
  "db_inv db \<Longrightarrow> getElement db k = Some v \<longleftrightarrow> (k, v) \<in> set (internalMaps db)"
  by (auto simp: getElement_def dest: map_of_SomeD db_inv_distinct intro: map_of_is_SomeI)

lemma forEach_loop_foldl:
  "forEach_loop fn m s = foldl (\<lambda>s (k, v). fn k v s) s m"
  by (induction fn m s rule: forEach_loop.induct) auto

lemma forEach_collect:
  "forEach db (\<lambda>k v acc. acc @ f k v) [] = concat (map (\<lambda>(k, v). f k v) (internalMaps db))"
proof -
  have "forEach_loop (\<lambda>k v acc. acc @ f k v) m acc
      = acc @ concat (map (\<lambda>(k, v). f k v) m)" for m acc
    by (induction m arbitrary: acc) auto
  then show ?thesis
    by (simp add: forEach_def)
qed

section \<open>The contract of a name database\<close>

locale name_store =
  fixes inv :: "'d \<Rightarrow> bool"
    and init :: 'd
    and add :: "string \<Rightarrow> 'a \<Rightarrow> 'd \<Rightarrow> int \<times> 'd"
    and get :: "'d \<Rightarrow> string \<Rightarrow> 'a option"
    and entries :: "'d \<Rightarrow> (string \<times> 'a) list"
  assumes inv_init: "inv init"
    and get_init: "get init k = None"
    and inv_add: "inv d \<Longrightarrow> inv (snd (add n x d))"
    and get_add: "inv d \<Longrightarrow> get (snd (add n x d)) k =
        (if k = n \<and> n \<noteq> [] \<and> get d n = None then Some x else get d k)"
    and add_code: "inv d \<Longrightarrow> fst (add n x d) =
        (if n = [] then DBERR_INVALID_INPUT
         else if get d n \<noteq> None then DBERR_ENTRY_ALREADY_EXISTS else DB_SUCCESS)"
    and entries_sorted: "inv d \<Longrightarrow> sorted_wrt (<) (map fst (entries d))"
    and entries_get: "inv d \<Longrightarrow> (k, v) \<in> set (entries d) \<longleftrightarrow> get d k = Some v"
begin

definition add_all :: "(string \<times> 'a) list \<Rightarrow> 'd \<Rightarrow> 'd" where
  "add_all xs d = foldl (\<lambda>d (n, x). snd (add n x d)) d xs"

lemma add_all_Nil: "add_all [] d = d"
  by (simp add: add_all_def)

lemma add_all_Cons: "add_all ((n, x) # xs) d = add_all xs (snd (add n x d))"
  by (simp add: add_all_def)

lemma inv_add_all: "inv d \<Longrightarrow> inv (add_all xs d)"
  by (induction xs arbitrary: d) (auto simp: add_all_Nil add_all_Cons inv_add)

text \<open>Loading a sequence of definitions keeps, for every name, the first one.\<close>

lemma get_add_all:
  "inv d \<Longrightarrow> get (add_all xs d) k =
     (case get d k of Some v \<Rightarrow> Some v
      | None \<Rightarrow> if k = [] then None else map_of xs k)"
proof (induction xs arbitrary: d)
  case Nil
  then show ?case by (simp add: add_all_Nil split: option.split)
next
  case (Cons p xs)
  obtain n x where p: "p = (n, x)" by (cases p)
  have "get (add_all (p # xs) d) k =
      (case get (snd (add n x d)) k of Some v \<Rightarrow> Some v
       | None \<Rightarrow> if k = [] then None else map_of xs k)"
    using Cons by (simp add: p add_all_Cons inv_add)
  then show ?case
    using Cons.prems by (auto simp: p get_add split: option.splits)
qed

lemma entries_unique:
  "inv d \<Longrightarrow> inv e \<Longrightarrow> (\<And>k. get d k = get e k) \<Longrightarrow> set (entries d) = set (entries e)"
  by (auto simp: entries_get)

end

interpretation db: name_store db_inv empty_db addUniqueElement getElement internalMaps
proof (unfold_locales, goal_cases)
  case (5 d n x)
  then show ?case by (simp add: addUniqueElement_cases)
next
  case (6 d)
  then show ?case by (simp add: db_inv_def)
next
  case (7 d k v)
  then show ?case by (simp add: getElement_iff_mem)
qed (simp_all add: addUniqueElement_inv db_simps)

section \<open>Properties\<close>

text \<open>C25: Loading any sequence of definitions into an empty database keeps the keys sorted, unique and
  non-empty, and for every name the first definition: a later one with the same name is refused,
  an empty name is never stored.\<close>

theorem database_first_definition_wins:
  "db_inv (db.add_all xs empty_db) \<and>
   getElement (db.add_all xs empty_db) k = (if k = [] then None else map_of xs k)"
  by (simp add: db.inv_add_all [OF db.inv_init] db.get_add_all [OF db.inv_init] db.get_init)

text \<open>What \<^verbatim>\<open>addUniqueElement\<close> returns and does: an empty name and a name already present are
  refused with their own code and leave the database unchanged, otherwise the database grows by
  exactly one entry, which the next look-up finds, and every other look-up is unchanged.\<close>

lemma addUniqueElement_contract:
  assumes "db_inv d"
  shows "(let (c, d') = addUniqueElement n x d in
      db_inv d' \<and>
      (if n = [] then c = DBERR_INVALID_INPUT \<and> d' = d
       else if getElement d n \<noteq> None then c = DBERR_ENTRY_ALREADY_EXISTS \<and> d' = d
       else c = DB_SUCCESS \<and> db_size d' = Suc (db_size d) \<and>
            getElement d' = (getElement d)(n \<mapsto> x)))"
proof -
  have "db_inv (snd (addUniqueElement n x d))"
    by (rule addUniqueElement_inv [OF assms])
  then show ?thesis
    using assms by (auto simp: addUniqueElement_cases Let_def db_size_def length_map_emplace getElement_def
        map_of_map_emplace fun_eq_iff)
qed

lemma addUniqueElement_contract_example:
  "db_inv (empty_db :: nat Database) \<and>
   getElement (snd (addUniqueElement ''a'' (7 :: nat) empty_db)) = Map.empty(''a'' \<mapsto> 7)"
  using addUniqueElement_contract [of "empty_db :: nat Database" "''a''" 7]
  by (auto simp: split_beta Let_def)

end
