(* ===== verification/Protocol_Model.thy ===== *)
theory Protocol_Model
  imports Name_Database
begin

text \<open>
  The data the parser produces and every other component reads: \<^verbatim>\<open>Var\<close>
  (parser/inc/tsn/var.h), \<^verbatim>\<open>ProtocolInterface\<close> (protocol_interface.h),
  \<^verbatim>\<open>ProtocolService\<close> (service.h) and \<^verbatim>\<open>Entity\<close> (entity.h). The members are
  \<^verbatim>\<open>const\<close> in the sources or only read after construction.
\<close>

record Range =
  range_min :: u64
  range_max :: u64

record Var =
  var_mName :: string
  mSize :: u32
  mExpectedValues :: "u64 list"
  mRange :: "Range option"
  mMask :: u64

text \<open>The code and the new value of the output parameter, which a nameless variable leaves alone.\<close>

definition getVarName :: "Var \<Rightarrow> string \<Rightarrow> int \<times> string" where
  "getVarName v name = (if length (var_mName v) = 0 then (VAR_ERR_UNVALID_VAR, name) else (VAR_SUCCESS, var_mName v))"

definition getSize :: "Var \<Rightarrow> u32" where
  "getSize v = mSize v"

definition getExpectedValues :: "Var \<Rightarrow> u64 list" where
  "getExpectedValues v = mExpectedValues v"

definition hasRange :: "Var \<Rightarrow> bool" where
  "hasRange v \<longleftrightarrow> mRange v \<noteq> None"

definition getRange :: "Var \<Rightarrow> Range" where
  "getRange v = the (mRange v)"

definition hasMask :: "Var \<Rightarrow> bool" where
  "hasMask v \<longleftrightarrow> mMask v \<noteq> 0"

definition getMask :: "Var \<Rightarrow> u64" where
  "getMask v = mMask v"

datatype IfDirections = IN | OUT

record ProtocolInterface =
  mInterfaceName :: string
  mDirection :: IfDirections
  mVarRefs :: "string list"

record ProtocolService =
  svc_mName :: string
  mLogicName :: string

definition hasLogic :: "ProtocolService \<Rightarrow> bool" where
  "hasLogic s \<longleftrightarrow> mLogicName s \<noteq> []"

record Entity =
  ent_mName :: string
  mInterfaces :: "string list"

definition addInterface :: "string \<Rightarrow> Entity \<Rightarrow> Entity" where
  "addInterface n e = e\<lparr>mInterfaces := mInterfaces e @ [n]\<rparr>"

lemmas var_defs = getSize_def getExpectedValues_def hasRange_def getRange_def
  hasMask_def getMask_def

section \<open>Which values a field constraint admits\<close>

text \<open>
  The abstract meaning of the constraints of a \<^verbatim>\<open>Var\<close>, in the priority order the
  documentation gives them: an exhaustive list, else an inclusive range, else the width and,
  when declared, the mask.
\<close>

definition admits :: "Var \<Rightarrow> u64 \<Rightarrow> bool" where
  "admits var v \<longleftrightarrow>
     (if mExpectedValues var \<noteq> [] then v \<in> set (mExpectedValues var)
      else case mRange var of
        Some r \<Rightarrow> min (range_min r) (range_max r) \<le> v \<and> v \<le> max (range_min r) (range_max r)
      | None \<Rightarrow> (mSize var = 0 \<longrightarrow> v = 0) \<and> unat v < 2 ^ unat (mSize var) \<and>
                (mMask var \<noteq> 0 \<longrightarrow> v AND NOT (mMask var) = 0))"

text \<open>
  A variable is consistent when every value its list or range admits fits its width. The
  parser does not enforce this.
\<close>

definition consistent_var :: "Var \<Rightarrow> bool" where
  "consistent_var var \<longleftrightarrow>
     (if mExpectedValues var \<noteq> [] then list_all (\<lambda>v. unat v < 2 ^ unat (mSize var)) (mExpectedValues var)
      else case mRange var of
        Some r \<Rightarrow> unat (max (range_min r) (range_max r)) < 2 ^ unat (mSize var)
      | None \<Rightarrow> True)"

lemma consistent_admits: "consistent_var var \<Longrightarrow> admits var v \<Longrightarrow> unat v < 2 ^ unat (mSize var)"
  unfolding consistent_var_def admits_def
  by (auto simp: list_all_iff word_le_nat_alt split: if_splits option.splits)

end
