(* ===== verification/Bit_Packing.thy ===== *)
theory Bit_Packing
  imports TSN_Prelude
begin

text \<open>
  \<^verbatim>\<open>PacketBuilder::appendBits\<close> (traffic-gen/src/packet_builder.cpp) and
  \<^verbatim>\<open>PacketDecoder::extractBits\<close> (packet_decoder.cpp): fields are packed most significant
  bit first into a growing byte buffer and read back the same way.

  The abstract specification is a stream of bits: \<open>msb_bits n v\<close> is what a field of
  \<open>n\<close> bits contributes, \<open>bits_upto buf n\<close> the first \<open>n\<close> bits of a
  buffer. \<open>appendBits\<close> refines appending to that stream, \<open>extractBits\<close> reading from
  it. The locale \<open>field_codec\<close> states the contract, and the round trip of whole field
  sequences is proved in it once.
\<close>

section \<open>The source functions\<close>

text \<open>
  The loop \<^verbatim>\<open>for (int i = static_cast<int>(numBits) - 1; i >= 0; --i)\<close>: the conversion
  to \<^verbatim>\<open>int\<close> is modular, so a width of \<open>2 ^ 31\<close> or more is negative and the body
  never runs. \<open>loopCount\<close> is the number of iterations. For a width of exactly
  \<open>2 ^ 31\<close> the subtraction overflows and C++ leaves the behaviour open; \<open>loopCount\<close> is 0 there, too, and what
  is proved without a bound on the width says nothing about the program at that one width.
\<close>

definition loopCount :: "u32 \<Rightarrow> nat" where
  "loopCount numBits = nat (sint numBits)"

text \<open>
  \<^verbatim>\<open>buf[byteIdx] |= ...\<close> is an unchecked write; it is in range whenever the offset is at
  most the number of bits of the buffer (lemma \<open>appendBits_in_range\<close>), which every
  caller guarantees by starting from an empty buffer at offset 0.
\<close>

fun appendBits_loop :: "nat \<Rightarrow> u64 \<Rightarrow> bytes \<Rightarrow> nat \<Rightarrow> bytes \<times> nat" where
  "appendBits_loop 0 value buf bitOffset = (buf, bitOffset)"
| "appendBits_loop (Suc i) value buf bitOffset =
     (let theBit = (if i < 64 then drop_bit i value AND 1 else 0);
          byteIdx = bitOffset div 8;
          bitInByte = 7 - bitOffset mod 8;
          buf' = (if byteIdx \<ge> length buf then buf @ [0] else buf)
      in appendBits_loop i value
           (buf'[byteIdx := buf' ! byteIdx OR push_bit bitInByte (ucast theBit)])
           (bitOffset + 1))"

definition appendBits :: "bytes \<Rightarrow> nat \<Rightarrow> u64 \<Rightarrow> u32 \<Rightarrow> bytes \<times> nat" where
  "appendBits buf bitOffset value numBits = appendBits_loop (loopCount numBits) value buf bitOffset"

fun extractBits_loop :: "nat \<Rightarrow> bytes \<Rightarrow> nat \<Rightarrow> u64 \<Rightarrow> u64 \<times> nat" where
  "extractBits_loop 0 buf bitOffset value = (value, bitOffset)"
| "extractBits_loop (Suc i) buf bitOffset value =
     (let byteIdx = bitOffset div 8;
          bitInByte = 7 - bitOffset mod 8;
          value' = (if byteIdx < length buf \<and> i < 64
                    then value OR push_bit i (ucast (drop_bit bitInByte (buf ! byteIdx) AND 1))
                    else value)
      in extractBits_loop i buf (bitOffset + 1) value')"

definition extractBits :: "bytes \<Rightarrow> nat \<Rightarrow> u32 \<Rightarrow> u64 \<times> nat" where
  "extractBits buf bitOffset numBits = extractBits_loop (loopCount numBits) buf bitOffset 0"

section \<open>The bit stream specification\<close>

definition msb_bits :: "nat \<Rightarrow> u64 \<Rightarrow> bool list" where
  "msb_bits n v = map (bit v) (rev [0..<n])"

definition buf_bit :: "bytes \<Rightarrow> nat \<Rightarrow> bool" where
  "buf_bit buf k \<longleftrightarrow> k div 8 < length buf \<and> bit (buf ! (k div 8)) (7 - k mod 8)"

definition bits_upto :: "bytes \<Rightarrow> nat \<Rightarrow> bool list" where
  "bits_upto buf n = map (buf_bit buf) [0..<n]"

definition packed :: "bytes \<Rightarrow> nat \<Rightarrow> bool" where
  "packed buf off \<longleftrightarrow> length buf = ceil8 off \<and> (\<forall>k\<ge>off. \<not> buf_bit buf k)"

lemma bit31_iff: "bit (n :: u32) 31 \<longleftrightarrow> 2 ^ 31 \<le> unat n"
proof -
  have "unat n < 2 ^ 32"
    using unsigned_less [of n] by simp
  then have "unat n div 2 ^ 31 < 2"
    by (simp add: div_less_iff_less_mult)
  then have "odd (unat n div 2 ^ 31) \<longleftrightarrow> 0 < unat n div 2 ^ 31"
    by (cases "unat n div 2 ^ 31") auto
  also have "\<dots> \<longleftrightarrow> 2 ^ 31 \<le> unat n"
    by (simp add: div_greater_zero_iff)
  finally have "bit (unat n) 31 \<longleftrightarrow> 2 ^ 31 \<le> unat n"
    by (simp only: bit_iff_odd)
  then show ?thesis
    by (simp add: bit_unsigned_iff)
qed

lemma loopCount_unat: "unat n < 2 ^ 31 \<Longrightarrow> loopCount n = unat n"
proof -
  assume less: "unat n < 2 ^ 31"
  then have "\<not> bit n 31"
    by (simp add: bit31_iff)
  moreover have "uint n < 2 ^ 31"
    using less by (metis of_nat_less_numeral_power_cancel_iff uint_nat)
  ultimately have "sint n = uint n"
    by (simp add: sint_uint signed_take_bit_eq_if_positive bit_uint_iff take_bit_int_eq_self_iff)
  then show ?thesis
    by (simp add: loopCount_def)
qed

lemma loopCount_large: "2 ^ 31 \<le> unat n \<Longrightarrow> loopCount n = 0"
proof -
  assume "2 ^ 31 \<le> unat n"
  then have "bit n 31"
    by (simp add: bit31_iff)
  then have "sint n < 0"
    by (simp add: sint_uint bit_uint_iff)
  then show ?thesis
    by (simp add: loopCount_def)
qed

lemma loopCount_0 [simp]: "loopCount 0 = 0"
  by (simp add: loopCount_def)

lemma loopCount_le: "loopCount n \<le> unat n"
  by (cases "unat n < 2 ^ 31") (simp_all add: loopCount_unat loopCount_large)

lemma length_msb_bits [simp]: "length (msb_bits n v) = n"
  by (simp add: msb_bits_def)

lemma msb_bits_Suc: "msb_bits (Suc n) v = bit v n # msb_bits n v"
  by (simp add: msb_bits_def)

lemma nth_msb_bits: "k < n \<Longrightarrow> msb_bits n v ! k = bit v (n - 1 - k)"
  by (simp add: msb_bits_def rev_nth)

lemma length_bits_upto [simp]: "length (bits_upto buf n) = n"
  by (simp add: bits_upto_def)

lemma nth_bits_upto [simp]: "k < n \<Longrightarrow> bits_upto buf n ! k = buf_bit buf k"
  by (simp add: bits_upto_def)

lemma bits_upto_Suc: "bits_upto buf (Suc n) = bits_upto buf n @ [buf_bit buf n]"
  by (simp add: bits_upto_def)

section \<open>One iteration of each loop\<close>

definition write_bit :: "bytes \<Rightarrow> nat \<Rightarrow> bool \<Rightarrow> bytes" where
  "write_bit buf off b =
     (let buf' = (if off div 8 \<ge> length buf then buf @ [0] else buf)
      in buf'[off div 8 := buf' ! (off div 8) OR push_bit (7 - off mod 8) (of_bool b)])"

lemma theBit_of_bool:
  "(if i < 64 then drop_bit i (v :: u64) AND 1 else 0) = of_bool (bit v i)"
proof (cases "i < 64")
  case True
  have "drop_bit i v AND 1 = of_bool (bit v i)"
    by (rule bit_word_eqI) (auto simp: bit_simps)
  with True show ?thesis by simp
next
  case False
  then have "\<not> bit v i"
    using bit_imp_le_length [of v i] by auto
  with False show ?thesis by simp
qed

lemma appendBits_loop_Suc:
  "appendBits_loop (Suc i) v buf off = appendBits_loop i v (write_bit buf off (bit v i)) (off + 1)"
proof -
  have "ucast (of_bool b :: u64) = (of_bool b :: u8)" for b
    by (cases b) simp_all
  then show ?thesis
    by (simp only: appendBits_loop.simps(2) theBit_of_bool write_bit_def Let_def)
qed

declare appendBits_loop.simps(2) [simp del]

lemma length_write_bit:
  "off \<le> 8 * length buf \<Longrightarrow> length (write_bit buf off b) = max (length buf) (Suc (off div 8))"
  by (auto simp: write_bit_def Let_def max_def)

lemma buf_bit_append_zero [simp]: "buf_bit (buf @ [0]) k \<longleftrightarrow> buf_bit buf k"
  by (auto simp: buf_bit_def nth_append less_Suc_eq)

lemma bit_position_inj:
  fixes k off :: nat
  assumes "k div 8 = off div 8"
  shows "7 - k mod 8 = 7 - off mod 8 \<longleftrightarrow> k = off"
proof -
  have "k mod 8 \<le> 7" "off mod 8 \<le> 7"
    by simp_all
  then have "7 - k mod 8 = 7 - off mod 8 \<longleftrightarrow> k mod 8 = off mod 8"
    by linarith
  also have "\<dots> \<longleftrightarrow> k = off"
    using assms by (metis div_mult_mod_eq)
  finally show ?thesis .
qed

lemma bit_push_of_bool:
  "j < 8 \<Longrightarrow> bit (push_bit m (of_bool b) :: u8) j \<longleftrightarrow> b \<and> j = m"
  by (auto simp: bit_push_bit_iff bit_1_iff)

lemma buf_bit_update:
  assumes "off div 8 < length buf"
  shows "buf_bit (buf[off div 8 := buf ! (off div 8) OR push_bit (7 - off mod 8) (of_bool b)]) k
      \<longleftrightarrow> (if k = off then buf_bit buf off \<or> b else buf_bit buf k)"
proof (cases "k div 8 = off div 8")
  case True
  then show ?thesis
    using assms bit_position_inj [OF True]
    by (auto simp: buf_bit_def bit_or_iff bit_push_of_bool)
next
  case False
  then show ?thesis
    using assms by (auto simp: buf_bit_def)
qed

lemma buf_bit_write_bit:
  assumes "off \<le> 8 * length buf"
  shows "buf_bit (write_bit buf off b) k
      \<longleftrightarrow> (if k = off then buf_bit buf off \<or> b else buf_bit buf k)"
proof -
  let ?buf = "if off div 8 \<ge> length buf then buf @ [0] else buf"
  have "off div 8 < length ?buf"
    using assms by auto
  from buf_bit_update [OF this] show ?thesis
    by (simp add: write_bit_def Let_def)
qed

lemma packed_write_bit:
  assumes "packed buf off"
  shows "packed (write_bit buf off b) (Suc off)"
    and "bits_upto (write_bit buf off b) (Suc off) = bits_upto buf off @ [b]"
proof -
  have len: "length buf = ceil8 off" and zero: "\<And>k. off \<le> k \<Longrightarrow> \<not> buf_bit buf k"
    using assms by (auto simp: packed_def)
  have le: "off \<le> 8 * length buf"
    by (simp add: len le_ceil8)
  have "length (write_bit buf off b) = ceil8 (Suc off)"
    using length_write_bit [OF le] ceil8_mono [of off "Suc off"] by (simp add: len ceil8_Suc)
  then show "packed (write_bit buf off b) (Suc off)"
    using zero by (simp add: packed_def buf_bit_write_bit [OF le])
  show "bits_upto (write_bit buf off b) (Suc off) = bits_upto buf off @ [b]"
    using zero by (auto simp: bits_upto_def buf_bit_write_bit [OF le])
qed

section \<open>appendBits refines appending to the bit stream\<close>

lemma appendBits_loop_refines:
  assumes "packed buf off"
  shows "snd (appendBits_loop n v buf off) = off + n \<and>
    packed (fst (appendBits_loop n v buf off)) (off + n) \<and>
    bits_upto (fst (appendBits_loop n v buf off)) (off + n) = bits_upto buf off @ msb_bits n v"
  using assms
proof (induction n arbitrary: buf off)
  case 0
  then show ?case by (simp add: msb_bits_def)
next
  case (Suc n)
  let ?buf = "write_bit buf off (bit v n)"
  have "packed ?buf (Suc off)" and "bits_upto ?buf (Suc off) = bits_upto buf off @ [bit v n]"
    using packed_write_bit [OF Suc.prems] by simp_all
  with Suc.IH [of ?buf "Suc off"] show ?case
    by (simp add: appendBits_loop_Suc msb_bits_Suc)
qed

text \<open>No iteration writes outside the buffer.\<close>

fun appendBits_writes_ok :: "nat \<Rightarrow> u64 \<Rightarrow> bytes \<Rightarrow> nat \<Rightarrow> bool" where
  "appendBits_writes_ok 0 v buf off \<longleftrightarrow> True"
| "appendBits_writes_ok (Suc i) v buf off \<longleftrightarrow>
     off div 8 < length (if off div 8 \<ge> length buf then buf @ [0] else buf) \<and>
     appendBits_writes_ok i v (write_bit buf off (bit v i)) (off + 1)"

lemma appendBits_in_range:
  "off \<le> 8 * length buf \<Longrightarrow> appendBits_writes_ok n v buf off"
proof (induction n v buf off rule: appendBits_writes_ok.induct)
  case (2 i v buf off)
  have "off + 1 \<le> 8 * Suc (off div 8)"
    by presburger
  also have "\<dots> \<le> 8 * length (write_bit buf off (bit v i))"
    by (simp only: length_write_bit [OF "2.prems"] mult_le_mono2 max.cobounded2)
  finally have "off + 1 \<le> 8 * length (write_bit buf off (bit v i))" .
  then show ?case
    using 2 by auto
qed simp

lemma packed_empty [simp]: "packed [] 0"
  by (simp add: packed_def buf_bit_def)

lemma packed_length: "packed buf off \<Longrightarrow> length buf = ceil8 off"
  by (simp add: packed_def)

section \<open>extractBits reads from the bit stream\<close>

lemma theBit_of_byte: "ucast (drop_bit j (b :: u8) AND 1) = (of_bool (bit b j) :: u64)"
  by (rule bit_word_eqI) (auto simp: bit_simps)

lemma extractBits_loop_Suc:
  "extractBits_loop (Suc i) buf off acc =
     extractBits_loop i buf (off + 1)
       (if i < 64 \<and> buf_bit buf off then acc OR push_bit i 1 else acc)"
  by (simp add: theBit_of_byte buf_bit_def Let_def)

declare extractBits_loop.simps(2) [simp del]

lemma snd_extractBits_loop [simp]: "snd (extractBits_loop n buf off acc) = off + n"
  by (induction n arbitrary: off acc) (simp_all add: extractBits_loop_Suc)

lemma bit_extractBits_loop:
  "i < 64 \<Longrightarrow> bit (fst (extractBits_loop n buf off acc)) i
     \<longleftrightarrow> bit acc i \<or> (i < n \<and> buf_bit buf (off + (n - 1 - i)))"
proof (induction n arbitrary: off acc)
  case (Suc n)
  have pos: "off + 1 + (n - 1 - i) = off + (Suc n - 1 - i)" if "i < n"
    using that by simp
  show ?case
  proof (cases "i = n")
    case True
    with Suc show ?thesis
      by (auto simp: extractBits_loop_Suc bit_simps)
  next
    case False
    with Suc pos show ?thesis
      by (auto simp: extractBits_loop_Suc bit_simps less_Suc_eq)
  qed
qed simp

lemma extractBits_loop_msb:
  assumes "\<And>k. k < n \<Longrightarrow> buf_bit buf (off + k) \<longleftrightarrow> msb_bits n v ! k"
  shows "fst (extractBits_loop n buf off 0) = take_bit n v"
proof (rule bit_word_eqI)
  fix i :: nat
  assume i: "i < LENGTH(64)"
  have "buf_bit buf (off + (n - 1 - i)) \<longleftrightarrow> bit v i" if "i < n"
    using assms [of "n - 1 - i"] that by (simp add: nth_msb_bits)
  then show "bit (fst (extractBits_loop n buf off 0)) i \<longleftrightarrow> bit (take_bit n v) i"
    using i by (auto simp: bit_extractBits_loop bit_take_bit_iff)
qed

lemma extractBits_loop_cong:
  assumes "\<And>k. k < n \<Longrightarrow> buf_bit buf (off + k) \<longleftrightarrow> buf_bit buf' (off' + k)"
  shows "fst (extractBits_loop n buf off 0) = fst (extractBits_loop n buf' off' 0)"
proof (rule bit_word_eqI)
  fix i :: nat
  assume "i < LENGTH(64)"
  then show "bit (fst (extractBits_loop n buf off 0)) i
      \<longleftrightarrow> bit (fst (extractBits_loop n buf' off' 0)) i"
    using assms [of "n - 1 - i"] by (auto simp: bit_extractBits_loop)
qed

lemma buf_bit_slice:
  "k < 8 * length b \<Longrightarrow> buf_bit (pre @ b @ post) (8 * length pre + k) \<longleftrightarrow> buf_bit b k"
  by (simp add: buf_bit_def nth_append)

lemma bytes_eqI:
  assumes "length b = length c" and "\<And>k. k < 8 * length b \<Longrightarrow> buf_bit b k = buf_bit c k"
  shows "b = c"
proof (rule nth_equalityI [OF assms(1)])
  fix i
  assume i: "i < length b"
  show "b ! i = c ! i"
  proof (rule bit_word_eqI)
    fix j :: nat
    assume j: "j < LENGTH(8)"
    have "buf_bit b (8 * i + (7 - j)) = buf_bit c (8 * i + (7 - j))"
      using i j by (intro assms(2)) simp
    then show "bit (b ! i) j = bit (c ! i) j"
      using i j assms(1) by (simp add: buf_bit_def)
  qed
qed

section \<open>The contract of a field codec\<close>

locale field_codec =
  fixes ok :: "'b \<Rightarrow> nat \<Rightarrow> bool"
    and put :: "'b \<Rightarrow> nat \<Rightarrow> u64 \<Rightarrow> u32 \<Rightarrow> 'b \<times> nat"
    and get :: "'b \<Rightarrow> nat \<Rightarrow> u32 \<Rightarrow> u64 \<times> nat"
    and width :: "u32 \<Rightarrow> nat"
  assumes put_ok: "ok b pos \<Longrightarrow> ok (fst (put b pos v n)) (pos + width n)"
    and put_pos: "ok b pos \<Longrightarrow> snd (put b pos v n) = pos + width n"
    and get_pos: "snd (get b pos n) = pos + width n"
    and get_put: "ok b pos \<Longrightarrow> fst (get (fst (put b pos v n)) pos n) = take_bit (width n) v"
    and get_frame: "ok b pos \<Longrightarrow> p + width m \<le> pos \<Longrightarrow>
        fst (get (fst (put b pos v n)) p m) = fst (get b p m)"
begin

primrec put_all :: "(u64 \<times> u32) list \<Rightarrow> 'b \<times> nat \<Rightarrow> 'b \<times> nat" where
  "put_all [] s = s"
| "put_all (f # fs) s = put_all fs (put (fst s) (snd s) (fst f) (snd f))"

primrec get_all :: "u32 list \<Rightarrow> 'b \<Rightarrow> nat \<Rightarrow> u64 list" where
  "get_all [] b pos = []"
| "get_all (n # ns) b pos = fst (get b pos n) # get_all ns b (snd (get b pos n))"

definition total_width :: "u32 list \<Rightarrow> nat" where
  "total_width ns = sum_list (map width ns)"

lemma total_width_simps:
  "total_width [] = 0" "total_width (n # ns) = width n + total_width ns"
  by (simp_all add: total_width_def)

lemma put_all_append: "put_all (fs @ gs) s = put_all gs (put_all fs s)"
  by (induction fs arbitrary: s) auto

lemma put_all_pos:
  "ok b pos \<Longrightarrow> snd (put_all fs (b, pos)) = pos + total_width (map snd fs) \<and>
     ok (fst (put_all fs (b, pos))) (pos + total_width (map snd fs))"
proof (induction fs arbitrary: b pos)
  case (Cons f fs)
  obtain b' where eq: "put b pos (fst f) (snd f) = (b', pos + width (snd f))"
    using put_pos [OF Cons.prems] by (metis prod.collapse)
  have "ok b' (pos + width (snd f))"
    using put_ok [OF Cons.prems, of "fst f" "snd f"] eq by simp
  from Cons.IH [OF this] show ?case
    by (simp add: eq total_width_simps add.assoc)
qed (simp add: total_width_simps)

lemma put_all_frame:
  "ok b pos \<Longrightarrow> p + width m \<le> pos \<Longrightarrow>
     fst (get (fst (put_all fs (b, pos))) p m) = fst (get b p m)"
proof (induction fs arbitrary: b pos)
  case (Cons f fs)
  obtain b' where eq: "put b pos (fst f) (snd f) = (b', pos + width (snd f))"
    using put_pos [OF Cons.prems(1)] by (metis prod.collapse)
  have "ok b' (pos + width (snd f))"
    using put_ok [OF Cons.prems(1), of "fst f" "snd f"] eq by simp
  then have "fst (get (fst (put_all fs (b', pos + width (snd f)))) p m) = fst (get b' p m)"
    using Cons.prems by (intro Cons.IH) auto
  then show ?case
    using get_frame [OF Cons.prems, of "fst f" "snd f"] eq by simp
qed simp

text \<open>Writing a sequence of fields and reading their widths back recovers every value.\<close>

lemma get_all_put_all:
  "ok b pos \<Longrightarrow> get_all (map snd fs) (fst (put_all fs (b, pos))) pos
     = map (\<lambda>(v, n). take_bit (width n) v) fs"
proof (induction fs arbitrary: b pos)
  case (Cons f fs)
  obtain b' where eq: "put b pos (fst f) (snd f) = (b', pos + width (snd f))"
    using put_pos [OF Cons.prems] by (metis prod.collapse)
  let ?r = "fst (put_all fs (b', pos + width (snd f)))"
  have ok': "ok b' (pos + width (snd f))"
    using put_ok [OF Cons.prems, of "fst f" "snd f"] eq by simp
  have "fst (get ?r pos (snd f)) = take_bit (width (snd f)) (fst f)"
    using put_all_frame [OF ok', of pos "snd f" fs] get_put [OF Cons.prems, of "fst f" "snd f"] eq
    by simp
  moreover have "get_all (map snd fs) ?r (pos + width (snd f))
      = map (\<lambda>(v, n). take_bit (width n) v) fs"
    by (rule Cons.IH [OF ok'])
  ultimately show ?case
    by (simp add: eq get_pos split: prod.split)
qed simp

end

locale framed_codec = field_codec ok put get width
  for ok :: "'e list \<Rightarrow> nat \<Rightarrow> bool" and put and get and width +
  assumes ok_length: "ok b pos \<Longrightarrow> length b = ceil8 pos"
    and get_slice: "pos + width n \<le> 8 * length b \<Longrightarrow>
        fst (get (pre @ b @ post) (8 * length pre + pos) n) = fst (get b pos n)"
begin

text \<open>The same fields, read inside a longer frame at the byte offset where they were placed.\<close>

lemma get_all_slice:
  "pos + total_width ns \<le> 8 * length b \<Longrightarrow>
     get_all ns (pre @ b @ post) (8 * length pre + pos) = get_all ns b pos"
proof (induction ns arbitrary: pos)
  case (Cons n ns)
  then have "get_all ns (pre @ b @ post) (8 * length pre + (pos + width n)) = get_all ns b (pos + width n)"
    by (intro Cons.IH) (simp add: total_width_simps)
  then show ?case
    using Cons.prems by (simp add: get_pos get_slice total_width_simps add.assoc)
qed simp

lemma get_all_put_all_framed:
  assumes "ok b 0" and "c = fst (put_all fs (b, 0))"
  shows "get_all (map snd fs) (pre @ c @ post) (8 * length pre)
     = map (\<lambda>(v, n). take_bit (width n) v) fs"
proof -
  have "length c = ceil8 (total_width (map snd fs))"
    using put_all_pos [OF assms(1), of fs] ok_length assms(2) by simp
  then have "0 + total_width (map snd fs) \<le> 8 * length c"
    by (simp add: le_ceil8)
  from get_all_slice [OF this] show ?thesis
    using get_all_put_all [OF assms(1)] assms(2) by simp
qed

end

lemma packed_bits_upto:
  "packed b off \<Longrightarrow> packed c (off + n) \<Longrightarrow> bits_upto c (off + n) = bits_upto b off @ xs \<Longrightarrow>
     (\<forall>k<off. buf_bit c k = buf_bit b k) \<and> (\<forall>k<length xs. buf_bit c (off + k) = xs ! k)"
proof -
  assume eq: "bits_upto c (off + n) = bits_upto b off @ xs"
  then have len: "n = length xs"
    by (metis add_left_cancel length_append length_bits_upto)
  have "buf_bit c k = (bits_upto b off @ xs) ! k" if "k < off + n" for k
    using that nth_bits_upto [of k "off + n" c] by (simp add: eq)
  then show ?thesis
    by (simp add: len nth_append)
qed

lemma appendBits_bits:
  assumes "packed b off"
  shows "k < off \<Longrightarrow> buf_bit (fst (appendBits b off v n)) k = buf_bit b k"
    and "k < loopCount n \<Longrightarrow> buf_bit (fst (appendBits b off v n)) (off + k) = msb_bits (loopCount n) v ! k"
  using packed_bits_upto [OF assms] appendBits_loop_refines [OF assms, of "loopCount n" v]
  by (auto simp: appendBits_def)

interpretation wire: framed_codec packed appendBits extractBits loopCount
proof (unfold_locales, goal_cases)
  case (4 b pos v n)
  then show ?case
    using appendBits_bits(2) by (simp add: extractBits_def extractBits_loop_msb)
next
  case (5 b pos p m v n)
  then show ?case
    using appendBits_bits(1) [OF 5(1)]
    by (auto simp: extractBits_def intro!: extractBits_loop_cong)
next
  case (7 pos n b pre post)
  then show ?case
    unfolding extractBits_def
    by (intro extractBits_loop_cong) (simp add: buf_bit_slice add.assoc)
qed (simp_all add: appendBits_def extractBits_def appendBits_loop_refines packed_length)

lemma msb_bits_extract:
  assumes "n \<le> 64" and "k < n"
  shows "msb_bits n (fst (extractBits_loop n buf off 0)) ! k = buf_bit buf (off + k)"
  using assms by (simp add: nth_msb_bits bit_extractBits_loop)

lemma put_get_all:
  "packed buf off \<Longrightarrow> \<forall>k<off. buf_bit buf k = buf_bit bs k \<Longrightarrow> list_all (\<lambda>n. loopCount n \<le> 64) ns \<Longrightarrow>
     \<forall>k<off + wire.total_width ns. buf_bit (fst (wire.put_all (zip (wire.get_all ns bs off) ns) (buf, off))) k = buf_bit bs k"
proof (induction ns arbitrary: buf off)
  case (Cons n ns)
  let ?v = "fst (extractBits bs off n)"
  obtain buf' where pos: "appendBits buf off ?v n = (buf', off + loopCount n)"
    using wire.put_pos [OF Cons.prems(1), of ?v n] by (metis prod.collapse)
  have "buf_bit buf' k = buf_bit bs k" if "k < off + loopCount n" for k
  proof (cases "k < off")
    case False
    then obtain j where "k = off + j" "j < loopCount n"
      using \<open>k < off + loopCount n\<close> by (metis add_diff_inverse_nat nat_add_left_cancel_less)
    then show ?thesis
      using appendBits_bits(2) [OF Cons.prems(1), of j n ?v] msb_bits_extract [of "loopCount n" j bs off] Cons.prems(3)
      by (simp add: extractBits_def pos [unfolded extractBits_def])
  next
    case True
    then show ?thesis
      using Cons.prems(2) appendBits_bits(1) [OF Cons.prems(1) True, of ?v n] by (simp add: pos)
  qed
  moreover have "packed buf' (off + loopCount n)"
    using wire.put_ok [OF Cons.prems(1), of ?v n] by (simp add: pos)
  ultimately show ?case
    using Cons.IH [of buf' "off + loopCount n"] Cons.prems(3) by (simp add: pos wire.get_pos wire.total_width_simps add.assoc)
qed (simp add: wire.total_width_simps)

text \<open>The other direction of the codec: repacking what was read from a packed buffer gives the buffer.\<close>

lemma put_get_exact:
  assumes "packed bs (wire.total_width ns)" and "list_all (\<lambda>n. loopCount n \<le> 64) ns"
  shows "fst (wire.put_all (zip (wire.get_all ns bs 0) ns) ([], 0)) = bs"
proof -
  let ?r = "fst (wire.put_all (zip (wire.get_all ns bs 0) ns) ([], 0))"
  have len: "length (wire.get_all ns b p) = length ns" for b p
    by (induction ns arbitrary: p) simp_all
  have r: "packed ?r (wire.total_width ns)"
    using wire.put_all_pos [OF packed_empty, of "zip (wire.get_all ns bs 0) ns"] by (simp add: len)
  have "buf_bit ?r k = buf_bit bs k" for k
    using put_get_all [OF packed_empty _ assms(2), of bs] r assms(1)
    by (cases "k < wire.total_width ns") (simp_all add: packed_def)
  then show ?thesis
    using packed_length [OF r] packed_length [OF assms(1)] by (intro bytes_eqI) simp_all
qed

section \<open>Properties\<close>

lemma packed_code [code]:
  "packed buf off \<longleftrightarrow> length buf = ceil8 off \<and> list_all (\<lambda>k. \<not> buf_bit buf k) [off..<8 * length buf]"
proof -
  have "\<not> buf_bit buf k" if "8 * length buf \<le> k" for k
    using that by (auto simp: buf_bit_def)
  then show ?thesis
    by (auto simp: packed_def list_all_iff)
qed

text \<open>C11: Appending a field to a packed buffer refines appending its bits, most significant first,
  to the bit stream: earlier bits stay, the position advances by the loop count, the padding
  after the stream stays zero. (Not for the one width \<open>2 ^ 31\<close>, where the loop bound of the source
  overflows.)\<close>

theorem appendBits_refines_stream:
  assumes "packed buf off"
  shows "snd (appendBits buf off v n) = off + loopCount n \<and>
    packed (fst (appendBits buf off v n)) (off + loopCount n) \<and>
    bits_upto (fst (appendBits buf off v n)) (off + loopCount n)
      = bits_upto buf off @ msb_bits (loopCount n) v"
  using appendBits_loop_refines [OF assms, of "loopCount n" v] by (simp add: appendBits_def)

theorem appendBits_refines_stream_witness:
  "packed [0xA0] 3 \<and> packed (fst (appendBits [0xA0] 3 0x1F3 9)) 12"
proof -
  have p: "packed [0xA0] 3"
    by code_simp
  have "loopCount 9 = 9"
    by code_simp
  then show ?thesis
    using appendBits_refines_stream [OF p, of "0x1F3" 9] p by simp
qed

text \<open>C12: Reading a field back at the place it was appended gives the value cut to the width, and
  later appends do not disturb it. (Not for the one width \<open>2 ^ 31\<close>, where the loop bound of the source
  overflows.)\<close>

theorem extractBits_after_appends:
  assumes "packed buf off"
  shows "extractBits (fst (wire.put_all fs (appendBits buf off v n))) off n
    = (take_bit (loopCount n) v, off + loopCount n)"
proof -
  obtain buf' where a: "appendBits buf off v n = (buf', off + loopCount n)"
    using appendBits_loop_refines [OF assms, of "loopCount n" v]
    by (cases "appendBits buf off v n") (simp add: appendBits_def)
  have ok: "packed buf' (off + loopCount n)"
    using wire.put_ok [OF assms, of v n] by (simp add: a)
  have "fst (extractBits (fst (wire.put_all fs (buf', off + loopCount n))) off n)
      = fst (extractBits buf' off n)"
    using wire.put_all_frame [OF ok, of off n fs] by simp
  also have "\<dots> = take_bit (loopCount n) v"
    using wire.get_put [OF assms, of v n] by (simp add: a)
  finally show ?thesis
    using wire.get_pos by (simp add: a prod_eq_iff)
qed

theorem extractBits_after_appends_witness:
  "packed [0xA0] 3 \<and>
   extractBits (fst (wire.put_all [(5, 4), (1, 7)] (appendBits [0xA0] 3 0x1F3 9))) 3 9 = (0x1F3, 12)"
proof -
  have p: "packed [0xA0] 3"
    by code_simp
  have "loopCount 9 = 9" "take_bit 9 (0x1F3 :: u64) = 0x1F3"
    by code_simp+
  then show ?thesis
    using extractBits_after_appends [OF p, of "[(5, 4), (1, 7)]" "0x1F3" 9] p by simp
qed

end
