(* ===== verification/Packet_Builder.thy ===== *)
theory Packet_Builder
  imports Protocol_Model Bit_Packing
begin

text \<open>
  \<^verbatim>\<open>PacketBuilder\<close> (traffic-gen/inc/tsn/packet_builder.h, src/packet_builder.cpp):
  choosing a value for every field of an interface within its constraints and packing the
  values.

  Random values come from \<^verbatim>\<open>std::uniform_int_distribution\<close> over a
  \<^verbatim>\<open>std::mt19937_64\<close>. The C++ standard leaves the distribution's algorithm open, so the
  model takes it as an argument \<open>dist\<close>: \<open>dist g lo hi\<close> is the number drawn and
  the generator state after the draw. What the standard promises of it is
  \<open>uniform_dist\<close>, a hypothesis of the theorems that need it.
\<close>

type_synonym 'g distribution = "'g \<Rightarrow> u64 \<Rightarrow> u64 \<Rightarrow> u64 \<times> 'g"
type_synonym overrides = "string \<rightharpoonup> u64"

record 'g PacketBuilder =
  mRng :: 'g

record BuiltPacket =
  bp_bytes :: bytes
  bp_fields :: "(string \<times> u64) list"

definition empty_packet :: BuiltPacket where
  "empty_packet = \<lparr>bp_bytes = [], bp_fields = []\<rparr>"

definition seed :: "(u64 \<Rightarrow> 'g) \<Rightarrow> u64 \<Rightarrow> 'g PacketBuilder \<Rightarrow> 'g PacketBuilder" where
  "seed seeded s b = b\<lparr>mRng := seeded s\<rparr>"

definition pickValue :: "'g distribution \<Rightarrow> Var \<Rightarrow> 'g \<Rightarrow> u64 \<times> 'g" where
  "pickValue dist var g =
     (let expected = getExpectedValues var in
      if expected \<noteq> [] then
        let (i, g') = dist g 0 (of_nat (length expected - 1)) in (expected ! unat i, g')
      else if hasRange var then
        let r = getRange var;
            lo = (if range_min r \<le> range_max r then range_min r else range_max r);
            hi = (if range_min r \<le> range_max r then range_max r else range_min r)
        in dist g lo hi
      else
        let size = getSize var in
        if size = 0 then (0, g)
        else
          let maxVal = (if size \<ge> 64 then - 1 else push_bit (unat size) 1 - 1);
              (value, g') = dist g 0 maxVal
          in (if hasMask var then value AND getMask var else value, g'))"

fun buildWithOverrides_loop ::
    "'g distribution \<Rightarrow> Var Database \<Rightarrow> overrides \<Rightarrow> string list \<Rightarrow> BuiltPacket \<Rightarrow> nat \<Rightarrow> 'g
      \<Rightarrow> BuiltPacket \<times> nat \<times> 'g" where
  "buildWithOverrides_loop dist varDb ovr [] result bitOffset g = (result, bitOffset, g)"
| "buildWithOverrides_loop dist varDb ovr (ref # refs) result bitOffset g =
     (case getElement varDb ref of
        None \<Rightarrow> buildWithOverrides_loop dist varDb ovr refs result bitOffset g
      | Some var \<Rightarrow>
          (let size = getSize var in
           if size = 0 then buildWithOverrides_loop dist varDb ovr refs result bitOffset g
           else
             let name = shortName ref;
                 (value, g') =
                   (if getExpectedValues var \<noteq> [] then pickValue dist var g
                    else case ovr name of
                        Some v \<Rightarrow> (if hasMask var then v AND getMask var else v, g)
                      | None \<Rightarrow> pickValue dist var g);
                 (buf, off') = appendBits (bp_bytes result) bitOffset value size
             in buildWithOverrides_loop dist varDb ovr refs
                  \<lparr>bp_bytes = buf, bp_fields = bp_fields result @ [(name, value)]\<rparr> off' g'))"

definition buildWithOverrides ::
    "'g distribution \<Rightarrow> 'g PacketBuilder \<Rightarrow> ProtocolInterface \<Rightarrow> Var Database \<Rightarrow> overrides
      \<Rightarrow> BuiltPacket \<times> 'g PacketBuilder" where
  "buildWithOverrides dist b iface varDb ovr =
     (let (result, _, g) = buildWithOverrides_loop dist varDb ovr (mVarRefs iface)
                             empty_packet 0 (mRng b)
      in (result, b\<lparr>mRng := g\<rparr>))"

fun buildWithFields_loop ::
    "'g distribution \<Rightarrow> Var Database \<Rightarrow> string list \<Rightarrow> BuiltPacket \<Rightarrow> nat \<Rightarrow> 'g
      \<Rightarrow> BuiltPacket \<times> nat \<times> 'g" where
  "buildWithFields_loop dist varDb [] result bitOffset g = (result, bitOffset, g)"
| "buildWithFields_loop dist varDb (ref # refs) result bitOffset g =
     (case getElement varDb ref of
        None \<Rightarrow> buildWithFields_loop dist varDb refs result bitOffset g
      | Some var \<Rightarrow>
          (let size = getSize var in
           if size = 0 then buildWithFields_loop dist varDb refs result bitOffset g
           else
             let (value, g') = pickValue dist var g;
                 (buf, off') = appendBits (bp_bytes result) bitOffset value size
             in buildWithFields_loop dist varDb refs
                  \<lparr>bp_bytes = buf, bp_fields = bp_fields result @ [(shortName ref, value)]\<rparr> off' g'))"

definition buildWithFields ::
    "'g distribution \<Rightarrow> 'g PacketBuilder \<Rightarrow> ProtocolInterface \<Rightarrow> Var Database
      \<Rightarrow> BuiltPacket \<times> 'g PacketBuilder" where
  "buildWithFields dist b iface varDb =
     (let (result, _, g) = buildWithFields_loop dist varDb (mVarRefs iface) empty_packet 0 (mRng b)
      in (result, b\<lparr>mRng := g\<rparr>))"

definition build ::
    "'g distribution \<Rightarrow> 'g PacketBuilder \<Rightarrow> ProtocolInterface \<Rightarrow> Var Database
      \<Rightarrow> bytes \<times> 'g PacketBuilder" where
  "build dist b iface varDb =
     (let (pkt, b') = buildWithFields dist b iface varDb in (bp_bytes pkt, b'))"

section \<open>What the standard promises of the distribution\<close>

definition uniform_dist :: "'g distribution \<Rightarrow> bool" where
  "uniform_dist dist \<longleftrightarrow>
     (\<forall>g lo hi. lo \<le> hi \<longrightarrow> lo \<le> fst (dist g lo hi) \<and> fst (dist g lo hi) \<le> hi)"

lemma uniform_distD:
  "uniform_dist dist \<Longrightarrow> lo \<le> hi \<Longrightarrow> dist g lo hi = (v, g') \<Longrightarrow> lo \<le> v \<and> v \<le> hi"
  unfolding uniform_dist_def by (metis fst_conv)

section \<open>The reference semantics of a build\<close>

text \<open>
  \<open>layout db refs\<close> is the sequence of named fields the interface really contributes:
  references that resolve to a variable of non-zero width.
\<close>

definition layout :: "Var Database \<Rightarrow> string list \<Rightarrow> (string \<times> Var) list" where
  "layout db refs = concat (map (\<lambda>ref. case getElement db ref of
       None \<Rightarrow> [] | Some var \<Rightarrow> if getSize var = 0 then [] else [(shortName ref, var)]) refs)"

definition field_sizes :: "(string \<times> Var) list \<Rightarrow> u32 list" where
  "field_sizes L = map (getSize \<circ> snd) L"

definition chooseValue ::
    "'g distribution \<Rightarrow> overrides \<Rightarrow> string \<times> Var \<Rightarrow> 'g \<Rightarrow> u64 \<times> 'g" where
  "chooseValue dist ovr f g =
     (if getExpectedValues (snd f) \<noteq> [] then pickValue dist (snd f) g
      else case ovr (fst f) of
          Some v \<Rightarrow> (if hasMask (snd f) then v AND getMask (snd f) else v, g)
        | None \<Rightarrow> pickValue dist (snd f) g)"

fun choose_all ::
    "'g distribution \<Rightarrow> overrides \<Rightarrow> (string \<times> Var) list \<Rightarrow> 'g \<Rightarrow> u64 list \<times> 'g" where
  "choose_all dist ovr [] g = ([], g)"
| "choose_all dist ovr (f # fs) g =
     (let (v, g1) = chooseValue dist ovr f g; (vs, g2) = choose_all dist ovr fs g1
      in (v # vs, g2))"

lemma layout_simps [simp]:
  "layout db [] = []"
  "layout db (ref # refs) = (case getElement db ref of
       None \<Rightarrow> layout db refs
     | Some var \<Rightarrow> if getSize var = 0 then layout db refs
                   else (shortName ref, var) # layout db refs)"
  by (auto simp: layout_def split: option.split)

lemma field_sizes_simps [simp]:
  "field_sizes [] = []" "field_sizes (f # L) = getSize (snd f) # field_sizes L"
  by (simp_all add: field_sizes_def)

lemma length_field_sizes [simp]: "length (field_sizes L) = length L"
  by (simp add: field_sizes_def)

lemma layout_mem:
  "f \<in> set (layout db refs) \<longleftrightarrow>
     (\<exists>ref\<in>set refs. fst f = shortName ref \<and> getElement db ref = Some (snd f) \<and> getSize (snd f) \<noteq> 0)"
  by (induction refs) (auto split: option.splits simp: prod_eq_iff)

lemma length_choose_all [simp]: "length (fst (choose_all dist ovr L g)) = length L"
  by (induction dist ovr L g rule: choose_all.induct) (auto split: prod.split)

lemma choose_all_length:
  "choose_all dist ovr L g = (vs, g') \<Longrightarrow> length vs = length L"
  by (metis fst_conv length_choose_all)

text \<open>The C++ loop computes the reference semantics.\<close>

lemma buildWithOverrides_loop_field:
  assumes "getElement db ref = Some var" and "getSize var \<noteq> 0"
    and "chooseValue dist ovr (shortName ref, var) g = (v, g1)"
    and "appendBits (bp_bytes result) off v (getSize var) = (buf, off')"
  shows "buildWithOverrides_loop dist db ovr (ref # refs) result off g =
    buildWithOverrides_loop dist db ovr refs
      \<lparr>bp_bytes = buf, bp_fields = bp_fields result @ [(shortName ref, v)]\<rparr> off' g1"
  using assms by (auto simp: chooseValue_def Let_def split: if_splits option.splits)

lemma buildWithOverrides_loop_eq:
  assumes "choose_all dist ovr (layout db refs) g = (vs, g')"
  shows "buildWithOverrides_loop dist db ovr refs result off g =
     (let s = wire.put_all (zip vs (field_sizes (layout db refs))) (bp_bytes result, off)
      in (\<lparr>bp_bytes = fst s,
           bp_fields = bp_fields result @ zip (map fst (layout db refs)) vs\<rparr>, snd s, g'))"
  using assms
proof (induction refs arbitrary: result off g vs g')
  case Nil
  then show ?case by (simp add: wire.put_all.simps)
next
  case (Cons ref refs)
  show ?case
  proof (cases "getElement db ref")
    case None
    with Cons show ?thesis by simp
  next
    case (Some var)
    show ?thesis
    proof (cases "getSize var = 0")
      case True
      with Some Cons show ?thesis by simp
    next
      case False
      obtain v g1 where v: "chooseValue dist ovr (shortName ref, var) g = (v, g1)"
        by fastforce
      obtain ws g2 where ws: "choose_all dist ovr (layout db refs) g1 = (ws, g2)"
        by fastforce
      have vs: "vs = v # ws" and g': "g' = g2"
        using Cons.prems Some False v ws by auto
      obtain buf off' where ap: "appendBits (bp_bytes result) off v (getSize var) = (buf, off')"
        by fastforce
      show ?thesis
        using Cons.IH [OF ws] buildWithOverrides_loop_field [OF Some False v ap] Some False ap
        by (simp add: vs g' wire.put_all.simps Let_def del: buildWithOverrides_loop.simps)
    qed
  qed
qed

lemma buildWithFields_loop_eq:
  "buildWithFields_loop dist db refs result off g =
     buildWithOverrides_loop dist db Map.empty refs result off g"
  by (induction dist db refs result off g rule: buildWithFields_loop.induct)
    (auto split: option.split prod.split simp: Let_def)

lemma buildWithFields_eq:
  "buildWithFields dist b iface db = buildWithOverrides dist b iface db Map.empty"
  by (simp add: buildWithFields_def buildWithOverrides_def buildWithFields_loop_eq)

lemma buildWithOverrides_eq:
  assumes "choose_all dist ovr (layout db (mVarRefs iface)) (mRng b) = (vs, g')"
  shows "buildWithOverrides dist b iface db ovr =
     (\<lparr>bp_bytes = fst (wire.put_all (zip vs (field_sizes (layout db (mVarRefs iface)))) ([], 0)),
       bp_fields = zip (map fst (layout db (mVarRefs iface))) vs\<rparr>, b\<lparr>mRng := g'\<rparr>)"
  using buildWithOverrides_loop_eq [OF assms]
  by (simp add: buildWithOverrides_def empty_packet_def Let_def)

section \<open>Generated values respect the constraints\<close>

lemma pick_expected:
  assumes "uniform_dist dist" and "xs \<noteq> []" and "dist g 0 (of_nat (length xs - 1)) = (i, g')"
  shows "xs ! unat i \<in> set xs"
proof -
  have "unat i \<le> unat (of_nat (length xs - 1) :: u64)"
    using uniform_distD [OF assms(1) _ assms(3)] by (simp add: word_le_nat_alt)
  also have "\<dots> \<le> length xs - 1"
    by (simp add: unat_of_nat)
  finally have "unat i < length xs"
    using assms(2) by (cases xs) auto
  then show ?thesis by simp
qed

lemma pick_unconstrained:
  assumes "uniform_dist dist"
    and "dist g 0 (if sz \<ge> 64 then - 1 else push_bit (unat sz) 1 - 1) = (v, g')"
  shows "unat v < 2 ^ unat (sz :: u32)"
proof (cases "sz \<ge> 64")
  case True
  then have "64 \<le> unat sz"
    by (simp add: word_le_nat_alt)
  then show ?thesis
    by (rule unat_less_pow64)
next
  case False
  then have "unat sz < 64"
    by (simp add: word_le_nat_alt not_le)
  moreover have "v \<le> push_bit (unat sz) 1 - 1"
    using uniform_distD [OF assms(1) _ assms(2)] False by simp
  ultimately show ?thesis
    using le_all_ones_iff [of "unat sz" v] by blast
qed

lemma pickValue_admits:
  assumes "uniform_dist dist" and "pickValue dist var g = (v, g')"
  shows "admits var v"
proof -
  consider (expected) "mExpectedValues var \<noteq> []"
    | (ranged) r where "mExpectedValues var = []" "mRange var = Some r"
    | (zero) "mExpectedValues var = []" "mRange var = None" "mSize var = 0"
    | (free) "mExpectedValues var = []" "mRange var = None" "mSize var \<noteq> 0"
    by fastforce
  then show ?thesis
  proof cases
    case expected
    then show ?thesis
      using assms(2) pick_expected [OF assms(1) expected]
      by (auto simp: pickValue_def admits_def var_defs Let_def split: prod.splits)
  next
    case ranged
    then have eq: "dist g (min (range_min r) (range_max r)) (max (range_min r) (range_max r)) = (v, g')"
      using assms(2) by (simp add: pickValue_def var_defs min_def max_def split: if_splits)
    have le: "min (range_min r) (range_max r) \<le> max (range_min r) (range_max r)"
      by (simp add: min.coboundedI1)
    show ?thesis
      using uniform_distD [OF assms(1) le eq] ranged by (simp add: admits_def)
  next
    case zero
    then show ?thesis
      using assms(2) by (simp add: pickValue_def admits_def var_defs)
  next
    case free
    obtain w where w: "dist g 0 (if mSize var \<ge> 64 then - 1 else push_bit (unat (mSize var)) 1 - 1) = (w, g')"
      and v: "v = (if mMask var \<noteq> 0 then w AND mMask var else w)"
      using assms(2) free by (auto simp: pickValue_def var_defs Let_def split: prod.splits if_splits)
    have "unat w < 2 ^ unat (mSize var)"
      by (rule pick_unconstrained [OF assms(1) w])
    then show ?thesis
      using free by (simp add: admits_def v unat_and_less and.assoc)
  qed
qed

text \<open>
  What the value of a field is, in a build with propagated values: constrained fields satisfy
  their constraint, the others take the propagated value under their mask.
\<close>

definition field_value_ok :: "overrides \<Rightarrow> string \<times> Var \<Rightarrow> u64 \<Rightarrow> bool" where
  "field_value_ok ovr f v \<longleftrightarrow>
     (if mExpectedValues (snd f) \<noteq> [] \<or> ovr (fst f) = None then admits (snd f) v
      else v = (if mMask (snd f) \<noteq> 0 then the (ovr (fst f)) AND mMask (snd f)
                else the (ovr (fst f))))"

lemma chooseValue_ok:
  "uniform_dist dist \<Longrightarrow> chooseValue dist ovr f g = (v, g') \<Longrightarrow> field_value_ok ovr f v"
  by (auto simp: chooseValue_def field_value_ok_def var_defs pickValue_admits
      split: if_splits option.splits)

lemma choose_all_ok:
  "uniform_dist dist \<Longrightarrow> choose_all dist ovr L g = (vs, g') \<Longrightarrow> list_all2 (field_value_ok ovr) L vs"
proof (induction L arbitrary: g vs)
  case (Cons f L)
  then show ?case
    by (auto split: prod.splits intro: chooseValue_ok)
qed simp

lemma buildWithOverrides_fields:
  assumes "uniform_dist dist"
  shows "\<exists>vs. bp_fields (fst (buildWithOverrides dist b iface db ovr))
              = zip (map fst (layout db (mVarRefs iface))) vs
           \<and> list_all2 (field_value_ok ovr) (layout db (mVarRefs iface)) vs"
proof -
  obtain vs g' where c: "choose_all dist ovr (layout db (mVarRefs iface)) (mRng b) = (vs, g')"
    by fastforce
  show ?thesis
    using buildWithOverrides_eq [OF c] choose_all_ok [OF assms c] by auto
qed

text \<open>
  What the documentation of \<^verbatim>\<open>buildWithOverrides\<close> promises of the value of a field: expected values always win; a propagated value
  replaces the value of a field without a constraint, under its mask; otherwise the value is drawn within the
  constraints. Of a field with a range the header says both that it is not overridden and that the override
  comes before the draw, so either is allowed here.
\<close>

definition promised_value :: "overrides \<Rightarrow> string \<times> Var \<Rightarrow> u64 \<Rightarrow> bool" where
  "promised_value ovr f v \<longleftrightarrow>
     (if mExpectedValues (snd f) \<noteq> [] then v \<in> set (mExpectedValues (snd f))
      else case ovr (fst f) of
          None \<Rightarrow> admits (snd f) v
        | Some u \<Rightarrow>
            let carried = (if mMask (snd f) \<noteq> 0 then u AND mMask (snd f) else u)
            in v = carried \<or> mRange (snd f) \<noteq> None \<and> admits (snd f) v)"

lemma field_value_promised: "field_value_ok ovr f v \<Longrightarrow> promised_value ovr f v"
  by (auto simp: field_value_ok_def promised_value_def admits_def split: option.splits if_splits)

lemma buildWithOverrides_promised:
  assumes "uniform_dist dist"
  shows "\<exists>vs. bp_fields (fst (buildWithOverrides dist b iface db ovr))
              = zip (map fst (layout db (mVarRefs iface))) vs
           \<and> list_all2 (promised_value ovr) (layout db (mVarRefs iface)) vs"
  using buildWithOverrides_fields [OF assms, of b iface db ovr] list_all2_mono [of "field_value_ok ovr"] field_value_promised
  by blast

section \<open>Properties\<close>

text \<open>The value drawn for a field satisfies the field's constraints: it is in the list of
  expected values, else within the range (even when the bounds are swapped), else it fits the
  width and stays inside the mask.\<close>

lemma pickValue_respects_constraints:
  assumes "uniform_dist dist"
  shows "admits var (fst (pickValue dist var g))"
  using pickValue_admits [OF assms, of var g] by (metis prod.collapse)

lemma pickValue_respects_constraints_example:
  "uniform_dist (\<lambda>g lo hi. (hi, g + 1 :: nat)) \<and>
   admits \<lparr>var_mName = ''v'', mSize = 8, mExpectedValues = [],
            mRange = Some \<lparr>range_min = 9, range_max = 4\<rparr>, mMask = 0\<rparr>
     (fst (pickValue (\<lambda>g lo hi. (hi, g + 1)) \<lparr>var_mName = ''v'', mSize = 8, mExpectedValues = [],
            mRange = Some \<lparr>range_min = 9, range_max = 4\<rparr>, mMask = 0\<rparr> (0 :: nat)))"
proof -
  have u: "uniform_dist (\<lambda>g lo hi. (hi, g + 1 :: nat))"
    by (simp add: uniform_dist_def)
  show ?thesis
    by (intro conjI u pickValue_respects_constraints [OF u])
qed

text \<open>C10: In a build with propagated values the field list names exactly the fields of the layout,
  in order; a field with expected values always keeps to them; a field without expected values and
  without a range takes the propagated value of its name, under its mask; and a field for which no value is propagated
  is drawn within its range, or else its width and mask.\<close>

theorem built_fields_respect_constraints:
  assumes "uniform_dist dist"
  shows "\<exists>vs. bp_fields (fst (buildWithOverrides dist b iface db ovr))
              = zip (map fst (layout db (mVarRefs iface))) vs
           \<and> list_all2 (promised_value ovr) (layout db (mVarRefs iface)) vs"
  by (rule buildWithOverrides_promised [OF assms])

definition ex_built_vars :: "Var Database" where
  "ex_built_vars = \<lparr>internalMaps =
     [(''s::a'', \<lparr>var_mName = ''s::a'', mSize = 8, mExpectedValues = [3, 5], mRange = None, mMask = 0\<rparr>),
      (''s::b'', \<lparr>var_mName = ''s::b'', mSize = 8, mExpectedValues = [], mRange = None, mMask = 0x0F\<rparr>),
      (''s::c'', \<lparr>var_mName = ''s::c'', mSize = 8, mExpectedValues = [], mRange = Some \<lparr>range_min = 4, range_max = 9\<rparr>, mMask = 0\<rparr>)]\<rparr>"

theorem built_fields_respect_constraints_witness:
  "\<exists>va vc. bp_fields (fst (buildWithOverrides (\<lambda>g lo hi. (hi, g + 1)) \<lparr>mRng = 0 :: nat\<rparr>
          \<lparr>mInterfaceName = ''s::e::i'', mDirection = OUT, mVarRefs = [''s::a'', ''s::b'', ''s::c'']\<rparr>
          ex_built_vars [''a'' \<mapsto> 7, ''b'' \<mapsto> 0xFF]))
        = [(''a'', va), (''b'', 0x0F), (''c'', vc)] \<and> va \<in> {3, 5} \<and> vc \<in> {4 .. 9}"
proof -
  let ?iface = "\<lparr>mInterfaceName = ''s::e::i'', mDirection = OUT, mVarRefs = [''s::a'', ''s::b'', ''s::c'']\<rparr>"
  have layout: "layout ex_built_vars (mVarRefs ?iface) =
      [(''a'', \<lparr>var_mName = ''s::a'', mSize = 8, mExpectedValues = [3, 5], mRange = None, mMask = 0\<rparr>),
       (''b'', \<lparr>var_mName = ''s::b'', mSize = 8, mExpectedValues = [], mRange = None, mMask = 0x0F\<rparr>),
       (''c'', \<lparr>var_mName = ''s::c'', mSize = 8, mExpectedValues = [], mRange = Some \<lparr>range_min = 4, range_max = 9\<rparr>, mMask = 0\<rparr>)]"
    by code_simp
  have "uniform_dist (\<lambda>g lo hi. (hi, g + 1 :: nat))"
    by (simp add: uniform_dist_def)
  from built_fields_respect_constraints [OF this, of "\<lparr>mRng = 0\<rparr>" ?iface ex_built_vars "[''a'' \<mapsto> 7, ''b'' \<mapsto> 0xFF]"]
  show ?thesis
    unfolding layout by (auto simp: list_all2_Cons1 promised_value_def admits_def)
qed

text \<open>A plain build is a build with no propagated value: same bytes, same fields, same state of
  the generator.\<close>

lemma buildWithFields_no_overrides:
  "buildWithFields dist b iface db = buildWithOverrides dist b iface db Map.empty \<and>
   fst (build dist b iface db) = bp_bytes (fst (buildWithOverrides dist b iface db Map.empty))"
  by (simp add: build_def buildWithFields_eq split_beta)

end
