(* ===== verification/Packet_Decoder.thy ===== *)
theory Packet_Decoder
  imports Packet_Builder
begin

text \<open>
  \<^verbatim>\<open>PacketDecoder\<close> (traffic-gen/inc/tsn/packet_decoder.h, src/packet_decoder.cpp): the
  byte length of a layer and the recovery of its field values from a frame, at a byte offset.
  The theorems relate it to \<^verbatim>\<open>PacketBuilder\<close>: decoding what was built recovers the
  fields and the slice, alone or inside a longer frame.
\<close>

fun layerBits_loop :: "Var Database \<Rightarrow> string list \<Rightarrow> nat \<Rightarrow> nat" where
  "layerBits_loop varDb [] totalBits = totalBits"
| "layerBits_loop varDb (ref # refs) totalBits =
     (case getElement varDb ref of
        None \<Rightarrow> layerBits_loop varDb refs totalBits
      | Some var \<Rightarrow> layerBits_loop varDb refs (totalBits + unat (getSize var)))"

definition layerBytes :: "ProtocolInterface \<Rightarrow> Var Database \<Rightarrow> nat" where
  "layerBytes iface varDb = (layerBits_loop varDb (mVarRefs iface) 0 + 7) div 8"

fun decode_loop :: "Var Database \<Rightarrow> bytes \<Rightarrow> string list \<Rightarrow> nat \<Rightarrow> (string \<times> u64) list \<Rightarrow> (string \<times> u64) list" where
  "decode_loop varDb bs [] bitOffset acc = acc"
| "decode_loop varDb bs (ref # refs) bitOffset acc =
     (case getElement varDb ref of
        None \<Rightarrow> decode_loop varDb bs refs bitOffset acc
      | Some var \<Rightarrow>
          (let size = getSize var in
           if size = 0 then decode_loop varDb bs refs bitOffset acc
           else
             let (value, off') = extractBits bs bitOffset size
             in decode_loop varDb bs refs off' (acc @ [(shortName ref, value)])))"

definition decode :: "ProtocolInterface \<Rightarrow> Var Database \<Rightarrow> bytes \<Rightarrow> nat \<Rightarrow> BuiltPacket" where
  "decode iface varDb bs byteOffset =
     (let decoded = decode_loop varDb bs (mVarRefs iface) (byteOffset * 8) [];
          layerLen = layerBytes iface varDb;
          e = min (byteOffset + layerLen) (length bs)
      in \<lparr>bp_bytes = (if byteOffset < e then take (e - byteOffset) (drop byteOffset bs) else []),
          bp_fields = decoded\<rparr>)"

section \<open>Sizes\<close>

definition layer_bits :: "(string \<times> Var) list \<Rightarrow> nat" where
  "layer_bits L = sum_list (map unat (field_sizes L))"

lemma layerBits_loop_eq: "layerBits_loop db refs n = n + layer_bits (layout db refs)"
  by (induction db refs n rule: layerBits_loop.induct)
    (auto simp: layer_bits_def split: option.split)

lemma layerBytes_eq: "layerBytes iface db = ceil8 (layer_bits (layout db (mVarRefs iface)))"
  by (simp add: layerBytes_def layerBits_loop_eq ceil8_def)

text \<open>Widths the packing loops treat as the header documents them: below \<open>2 ^ 31\<close>.\<close>

definition sane_widths :: "Var Database \<Rightarrow> bool" where
  "sane_widths db \<longleftrightarrow> list_all (\<lambda>e. getSize (snd e) < 0x80000000) (internalMaps db)"

lemma sane_widthsD: "sane_widths db \<Longrightarrow> getElement db k = Some var \<Longrightarrow> unat (getSize var) < 2 ^ 31"
  using map_of_SomeD [of "internalMaps db" k var]
  by (auto simp: sane_widths_def getElement_def list_all_iff word_less_nat_alt)

lemma total_width_le: "wire.total_width (field_sizes L) \<le> layer_bits L"
  by (induction L) (auto simp: wire.total_width_simps layer_bits_def intro: add_mono loopCount_le)

lemma total_width_sane:
  assumes "sane_widths db"
  shows "wire.total_width (field_sizes (layout db refs)) = layer_bits (layout db refs)"
  using assms
  by (induction refs)
    (auto simp: wire.total_width_simps layer_bits_def loopCount_unat dest: sane_widthsD split: option.split)

section \<open>Decoding in terms of the field codec\<close>

lemma decode_loop_eq:
  "decode_loop db bs refs off acc =
     acc @ zip (map fst (layout db refs)) (wire.get_all (field_sizes (layout db refs)) bs off)"
proof (induction refs arbitrary: off acc)
  case (Cons ref refs)
  then show ?case
    by (auto simp: wire.get_all.simps Let_def split: option.split prod.split)
qed (simp add: wire.get_all.simps)

definition truncate_field :: "string \<times> Var \<Rightarrow> u64 \<Rightarrow> u64" where
  "truncate_field f v = take_bit (loopCount (getSize (snd f))) v"

lemma map2_truncate:
  "length vs = length L \<Longrightarrow>
     map (\<lambda>(v, n). take_bit (loopCount n) v) (zip vs (field_sizes L)) = map2 truncate_field L vs"
  by (induction vs L rule: list_induct2) (auto simp: truncate_field_def)

lemma map_snd_zip_sizes:
  "length vs = length L \<Longrightarrow> map snd (zip vs (field_sizes L)) = field_sizes L"
  by simp

text \<open>
  The round trip: decoding what \<open>buildWithOverrides\<close> produced, at the place where it sits in
  a longer frame, gives back the same slice and every field with the value its width can carry.
\<close>

lemma built_length:
  assumes "choose_all dist ovr (layout db (mVarRefs iface)) (mRng b) = (vs, g')"
  shows "length (bp_bytes (fst (buildWithOverrides dist b iface db ovr)))
     = ceil8 (wire.total_width (field_sizes (layout db (mVarRefs iface))))"
proof -
  let ?L = "layout db (mVarRefs iface)"
  have "length vs = length ?L"
    by (rule choose_all_length [OF assms])
  then have "packed (fst (wire.put_all (zip vs (field_sizes ?L)) ([], 0)))
      (0 + wire.total_width (field_sizes ?L))"
    using wire.put_all_pos [of "[]" 0 "zip vs (field_sizes ?L)"] by simp
  then show ?thesis
    using buildWithOverrides_eq [OF assms] by (simp add: packed_length)
qed

lemma built_length_sane:
  assumes "sane_widths db"
  shows "length (bp_bytes (fst (buildWithOverrides dist b iface db ovr))) = layerBytes iface db"
proof -
  obtain vs g' where c: "choose_all dist ovr (layout db (mVarRefs iface)) (mRng b) = (vs, g')"
    by fastforce
  show ?thesis
    using built_length [OF c] assms by (simp add: total_width_sane layerBytes_eq)
qed

lemma built_length_le:
  "length (bp_bytes (fst (buildWithOverrides dist b iface db ovr))) \<le> layerBytes iface db"
proof -
  obtain vs g' where c: "choose_all dist ovr (layout db (mVarRefs iface)) (mRng b) = (vs, g')"
    by fastforce
  show ?thesis
    using built_length [OF c] ceil8_mono [OF total_width_le] by (simp add: layerBytes_eq)
qed

lemma decode_built_fields:
  assumes "choose_all dist ovr (layout db (mVarRefs iface)) (mRng b) = (vs, g')"
    and "pkt = fst (buildWithOverrides dist b iface db ovr)"
  shows "bp_fields (decode iface db (pre @ bp_bytes pkt @ post) (length pre))
     = zip (map fst (layout db (mVarRefs iface))) (map2 truncate_field (layout db (mVarRefs iface)) vs)"
proof -
  let ?L = "layout db (mVarRefs iface)"
  have len: "length vs = length ?L"
    by (rule choose_all_length [OF assms(1)])
  have bytes: "bp_bytes pkt = fst (wire.put_all (zip vs (field_sizes ?L)) ([], 0))"
    using buildWithOverrides_eq [OF assms(1)] assms(2) by simp
  have "wire.get_all (field_sizes ?L) (pre @ bp_bytes pkt @ post) (8 * length pre)
      = map2 truncate_field ?L vs"
    using wire.get_all_put_all_framed [OF packed_empty bytes] len
    by (simp add: map2_truncate)
  then show ?thesis
    by (simp add: decode_def Let_def decode_loop_eq mult.commute)
qed

lemma decode_slice_bytes:
  assumes "length bs = layerBytes iface db"
  shows "bp_bytes (decode iface db (pre @ bs @ post) (length pre)) = bs"
  using assms by (auto simp: decode_def Let_def)

lemma decode_whole_bytes:
  assumes "length bs \<le> layerBytes iface db"
  shows "bp_bytes (decode iface db bs 0) = bs"
  using assms by (simp add: decode_def Let_def min_def)

lemma fields_truncated:
  assumes "choose_all dist ovr (layout db (mVarRefs iface)) (mRng b) = (vs, g')"
    and "pkt = fst (buildWithOverrides dist b iface db ovr)"
  shows "zip (map fst (layout db (mVarRefs iface))) (map2 truncate_field (layout db (mVarRefs iface)) vs)
    = map (\<lambda>(f, n, v). (n, truncate_field f v)) (zip (layout db (mVarRefs iface)) (bp_fields pkt))"
proof -
  let ?L = "layout db (mVarRefs iface)"
  have len: "length vs = length ?L"
    by (rule choose_all_length [OF assms(1)])
  have "zip (map fst L) (map2 truncate_field L vs)
      = map (\<lambda>(f, n, v). (n, truncate_field f v)) (zip L (zip (map fst L) vs))"
    if "length vs = length L" for L vs
    using that by (induction vs L rule: list_induct2) auto
  then show ?thesis
    using len buildWithOverrides_eq [OF assms(1)] assms(2) by simp
qed

section \<open>Fields that fit their width survive unchanged\<close>

definition fits :: "string \<times> Var \<Rightarrow> u64 \<Rightarrow> bool" where
  "fits f v \<longleftrightarrow> unat v < 2 ^ loopCount (getSize (snd f))"

lemma truncate_fits: "fits f v \<Longrightarrow> truncate_field f v = v"
  by (simp add: fits_def truncate_field_def take_bit_eq_self_unat)

lemma map2_truncate_fits:
  "list_all2 fits L vs \<Longrightarrow> map2 truncate_field L vs = vs"
  by (induction L vs rule: list_all2_induct) (auto simp: truncate_fits)

lemma decode_built_exact:
  assumes "choose_all dist ovr (layout db (mVarRefs iface)) (mRng b) = (vs, g')"
    and "list_all2 fits (layout db (mVarRefs iface)) vs"
    and "pkt = fst (buildWithOverrides dist b iface db ovr)"
    and "sane_widths db"
  shows "decode iface db (pre @ bp_bytes pkt @ post) (length pre) = pkt"
proof -
  have "bp_fields (decode iface db (pre @ bp_bytes pkt @ post) (length pre)) = bp_fields pkt"
    using decode_built_fields [OF assms(1,3)] buildWithOverrides_eq [OF assms(1)]
    by (simp add: map2_truncate_fits [OF assms(2)] assms(3))
  moreover have "bp_bytes (decode iface db (pre @ bp_bytes pkt @ post) (length pre)) = bp_bytes pkt"
    using decode_slice_bytes built_length_sane [OF assms(4)] assms(3) by blast
  ultimately show ?thesis by simp
qed

text \<open>Databases in which every variable is consistent with its width.\<close>

definition consistent_db :: "Var Database \<Rightarrow> bool" where
  "consistent_db db \<longleftrightarrow> list_all (\<lambda>e. consistent_var (snd e)) (internalMaps db)"

lemma consistent_dbD: "consistent_db db \<Longrightarrow> getElement db k = Some var \<Longrightarrow> consistent_var var"
  unfolding consistent_db_def getElement_def by (metis list_all_iff map_of_SomeD snd_conv)

lemma admits_fits:
  assumes "sane_widths db" and "consistent_db db" and "f \<in> set (layout db refs)"
    and "admits (snd f) v"
  shows "fits f v"
proof -
  obtain ref where "getElement db ref = Some (snd f)"
    using assms(3) by (auto simp: layout_mem)
  then have "unat (getSize (snd f)) < 2 ^ 31" and "unat v < 2 ^ unat (getSize (snd f))"
    using assms sane_widthsD consistent_dbD consistent_admits by (blast, metis getSize_def)
  then show ?thesis
    by (simp add: fits_def loopCount_unat)
qed

lemma chosen_fit:
  assumes "uniform_dist dist" and "sane_widths db" and "consistent_db db"
    and "choose_all dist Map.empty (layout db refs) g = (vs, g')"
  shows "list_all2 fits (layout db refs) vs"
proof -
  have "list_all2 (field_value_ok Map.empty) (layout db refs) vs"
    by (rule choose_all_ok [OF assms(1,4)])
  then show ?thesis
    by (auto simp: list_all2_conv_all_nth field_value_ok_def
        intro!: admits_fits [OF assms(2,3), of _ refs])
qed

section \<open>Decoding arbitrary bytes\<close>

lemma decode_typed:
  "map fst (bp_fields (decode iface db bs off)) = map fst (layout db (mVarRefs iface))"
  "list_all2 (\<lambda>f fv. fits f (snd fv)) (layout db (mVarRefs iface)) (bp_fields (decode iface db bs off))"
  "bp_bytes (decode iface db bs off) = take (layerBytes iface db) (drop off bs)"
proof -
  let ?L = "layout db (mVarRefs iface)"
  have len: "length (wire.get_all ns b p) = length ns" for ns b p
    by (induction ns arbitrary: p) simp_all
  show "map fst (bp_fields (decode iface db bs off)) = map fst ?L"
    by (simp add: decode_def Let_def decode_loop_eq len field_sizes_def)
  have bound: "unat (fst (extractBits b p n)) < 2 ^ loopCount n" for b p n
  proof -
    have "take_bit (loopCount n) (fst (extractBits b p n)) = fst (extractBits b p n)"
      by (rule bit_word_eqI) (auto simp: extractBits_def bit_take_bit_iff bit_extractBits_loop)
    then show ?thesis
      by (metis take_bit_nat_less_exp unsigned_take_bit_eq)
  qed
  have "list_all2 fits L (wire.get_all (field_sizes L) b p)" for L b p
    by (induction L arbitrary: p) (simp_all add: fits_def bound)
  then show "list_all2 (\<lambda>f fv. fits f (snd fv)) ?L (bp_fields (decode iface db bs off))"
    by (simp add: decode_def Let_def decode_loop_eq list_all2_conv_all_nth len field_sizes_def)
  show "bp_bytes (decode iface db bs off) = take (layerBytes iface db) (drop off bs)"
    by (simp add: decode_def Let_def min_def)
qed

section \<open>Properties\<close>

text \<open>C8: Decoding what a build produced, at the byte offset where it sits inside a longer frame,
  gives back every field of the build, in order, with the value its width can carry. No
  hypothesis: values wider than their field (a range or an expected value the width cannot hold)
  come back truncated. (Not for the one width \<open>2 ^ 31\<close>, where the loop bound of the source
  overflows.)\<close>

theorem decode_recovers_built_fields:
  "bp_fields (decode iface db
      (pre @ bp_bytes (fst (buildWithOverrides dist b iface db ovr)) @ post) (length pre))
   = map (\<lambda>(f, n, v). (n, truncate_field f v))
       (zip (layout db (mVarRefs iface)) (bp_fields (fst (buildWithOverrides dist b iface db ovr))))"
proof -
  obtain vs g' where c: "choose_all dist ovr (layout db (mVarRefs iface)) (mRng b) = (vs, g')"
    by fastforce
  show ?thesis
    using decode_built_fields [OF c refl] fields_truncated [OF c refl] by simp
qed

text \<open>C29: A built packet never exceeds the layer's byte length, and has exactly that length when the
  widths in the database are below \<open>2 ^ 31\<close>.\<close>

theorem built_packet_length:
  "length (bp_bytes (fst (buildWithOverrides dist b iface db ovr))) \<le> layerBytes iface db \<and>
   (sane_widths db \<longrightarrow>
     length (bp_bytes (fst (buildWithOverrides dist b iface db ovr))) = layerBytes iface db)"
  using built_length_le built_length_sane by blast

theorem built_packet_length_witness:
  "sane_widths \<lparr>internalMaps = [(''s::a'', \<lparr>var_mName = ''s::a'', mSize = 12, mExpectedValues = [], mRange = None, mMask = 0\<rparr>)]\<rparr> \<and>
   length (bp_bytes (fst (buildWithOverrides (\<lambda>g lo hi. (hi, g)) \<lparr>mRng = ()\<rparr>
     \<lparr>mInterfaceName = ''s::e::i'', mDirection = OUT, mVarRefs = [''s::a'', ''s::a'']\<rparr>
     \<lparr>internalMaps = [(''s::a'', \<lparr>var_mName = ''s::a'', mSize = 12, mExpectedValues = [], mRange = None, mMask = 0\<rparr>)]\<rparr>
     Map.empty))) = 3"
proof -
  let ?db = "\<lparr>internalMaps = [(''s::a'', \<lparr>var_mName = ''s::a'', mSize = 12, mExpectedValues = [], mRange = None, mMask = 0\<rparr>)]\<rparr> :: Var Database"
  let ?if = "\<lparr>mInterfaceName = ''s::e::i'', mDirection = OUT, mVarRefs = [''s::a'', ''s::a'']\<rparr>"
  have "sane_widths ?db" "layerBytes ?if ?db = 3"
    by (simp_all add: sane_widths_def layerBytes_def getElement_def getSize_def)
  then show ?thesis
    using built_packet_length [of "\<lambda>g lo hi. (hi, g)" "\<lparr>mRng = ()\<rparr>" ?if ?db Map.empty] by simp
qed

text \<open>C26: Decoding is total and well-typed on whatever bytes arrive, at any offset, also past the end of a
  short frame: the result has exactly the fields of the layout, in order and under their short
  names, every value fits the declared width of its field, and the slice is the part of the
  frame that belongs to the layer, as far as the frame reaches.\<close>

theorem decoded_packet_well_typed:
  "map fst (bp_fields (decode iface db bs off)) = map fst (layout db (mVarRefs iface)) \<and>
   list_all2 (\<lambda>f fv. fits f (snd fv)) (layout db (mVarRefs iface)) (bp_fields (decode iface db bs off)) \<and>
   bp_bytes (decode iface db bs off) = take (layerBytes iface db) (drop off bs)"
  using decode_typed by blast

end
