(* ===== verification/Layer_Context.thy ===== *)
theory Layer_Context
  imports TSN_Prelude
begin

text \<open>
  \<^verbatim>\<open>LayerContext\<close> (parser/inc/tsn/layer_context.h): the ordered, named fields of one
  layer, read and written by name, and the adjacency pointers to the neighbouring layers.

  Contexts live in the layers of a stack and point to each other, so a pointer is an index into
  the sequence of contexts of the stack (\<open>ctx_store\<close>), \<open>None\<close> is
  \<^verbatim>\<open>nullptr\<close>. The walk over \<^verbatim>\<open>mUpper\<close> in \<^verbatim>\<open>bytesAbove\<close> follows
  whatever pointers are set: it is a partial function, and it returns on every chain in which the
  pointers go strictly up, such as the one \<^verbatim>\<open>wireAdjacency\<close> sets.
\<close>

record Field =
  fld_name :: string
  fld_value :: u64
  fld_bits :: u32

record LayerContext =
  mServiceName :: string
  mUpper :: "nat option"
  mLower :: "nat option"
  mFields :: "Field list"

type_synonym ctx_store = "LayerContext list"

definition new_context :: "string \<Rightarrow> LayerContext" where
  "new_context svc = \<lparr>mServiceName = svc, mUpper = None, mLower = None, mFields = []\<rparr>"

definition getServiceName :: "LayerContext \<Rightarrow> string" where
  "getServiceName ctx = mServiceName ctx"

definition upper :: "LayerContext \<Rightarrow> nat option" where
  "upper ctx = mUpper ctx"

definition lower :: "LayerContext \<Rightarrow> nat option" where
  "lower ctx = mLower ctx"

definition fields :: "LayerContext \<Rightarrow> Field list" where
  "fields ctx = mFields ctx"

definition setUpper :: "nat option \<Rightarrow> LayerContext \<Rightarrow> LayerContext" where
  "setUpper u ctx = ctx\<lparr>mUpper := u\<rparr>"

definition setLower :: "nat option \<Rightarrow> LayerContext \<Rightarrow> LayerContext" where
  "setLower l ctx = ctx\<lparr>mLower := l\<rparr>"

definition addField :: "string \<Rightarrow> u64 \<Rightarrow> u32 \<Rightarrow> LayerContext \<Rightarrow> LayerContext" where
  "addField name v bits ctx =
     ctx\<lparr>mFields := mFields ctx @ [\<lparr>fld_name = name, fld_value = v, fld_bits = bits\<rparr>]\<rparr>"

definition clearFields :: "LayerContext \<Rightarrow> LayerContext" where
  "clearFields ctx = ctx\<lparr>mFields := []\<rparr>"

text \<open>\<open>None\<close>: the function returned false and left its out-parameter alone.\<close>

fun getValue_loop :: "string \<Rightarrow> Field list \<Rightarrow> u64 option" where
  "getValue_loop name [] = None"
| "getValue_loop name (f # fs) =
     (if fld_name f = name then Some (fld_value f) else getValue_loop name fs)"

definition getValue :: "LayerContext \<Rightarrow> string \<Rightarrow> u64 option" where
  "getValue ctx name = getValue_loop name (mFields ctx)"

fun setValue_loop :: "string \<Rightarrow> u64 \<Rightarrow> Field list \<Rightarrow> Field list \<times> bool" where
  "setValue_loop name v [] = ([], False)"
| "setValue_loop name v (f # fs) =
     (if fld_name f = name then (f\<lparr>fld_value := v\<rparr> # fs, True)
      else let (fs', ok) = setValue_loop name v fs in (f # fs', ok))"

definition setValue :: "string \<Rightarrow> u64 \<Rightarrow> LayerContext \<Rightarrow> LayerContext \<times> bool" where
  "setValue name v ctx =
     (let (fs, ok) = setValue_loop name v (mFields ctx) in (ctx\<lparr>mFields := fs\<rparr>, ok))"

fun byteSize_loop :: "Field list \<Rightarrow> nat \<Rightarrow> nat" where
  "byteSize_loop [] bits = bits"
| "byteSize_loop (f # fs) bits = byteSize_loop fs (bits + unat (fld_bits f))"

definition byteSize :: "LayerContext \<Rightarrow> nat" where
  "byteSize ctx = (byteSize_loop (mFields ctx) 0 + 7) div 8"

fun bytesAfter_loop :: "string \<Rightarrow> Field list \<Rightarrow> nat \<Rightarrow> bool \<Rightarrow> nat \<times> bool" where
  "bytesAfter_loop name [] bits seen = (bits, seen)"
| "bytesAfter_loop name (f # fs) bits seen =
     (if seen then bytesAfter_loop name fs (bits + unat (fld_bits f)) seen
      else if fld_name f = name then bytesAfter_loop name fs bits True
      else bytesAfter_loop name fs bits seen)"

definition bytesAfter :: "LayerContext \<Rightarrow> string \<Rightarrow> nat option" where
  "bytesAfter ctx name =
     (let (bits, seen) = bytesAfter_loop name (mFields ctx) 0 False
      in if \<not> seen then None else Some ((bits + 7) div 8))"

partial_function (option) bytesAbove_loop :: "ctx_store \<Rightarrow> nat option \<Rightarrow> nat \<Rightarrow> nat option" where
  "bytesAbove_loop st u acc = (case u of
       None \<Rightarrow> Some acc
     | Some p \<Rightarrow> if p < length st
                 then bytesAbove_loop st (mUpper (st ! p)) (acc + byteSize (st ! p))
                 else None)"

declare bytesAbove_loop.simps [code]

definition bytesAbove :: "ctx_store \<Rightarrow> LayerContext \<Rightarrow> nat option" where
  "bytesAbove st ctx = bytesAbove_loop st (mUpper ctx) 0"

section \<open>Reading and writing fields by name\<close>

definition field_names :: "LayerContext \<Rightarrow> string list" where
  "field_names ctx = map fld_name (mFields ctx)"

text \<open>The part of a context a logic module cannot change: names and widths, in wire order.\<close>

definition ctx_shape :: "LayerContext \<Rightarrow> string \<times> nat option \<times> nat option \<times> (string \<times> u32) list" where
  "ctx_shape ctx = (mServiceName ctx, mUpper ctx, mLower ctx,
     map (\<lambda>f. (fld_name f, fld_bits f)) (mFields ctx))"

lemma getValue_loop_None: "getValue_loop n fs = None \<longleftrightarrow> n \<notin> fld_name ` set fs"
  by (induction n fs rule: getValue_loop.induct) auto

lemma getValue_None_iff: "getValue ctx n = None \<longleftrightarrow> n \<notin> set (field_names ctx)"
  by (simp add: getValue_def getValue_loop_None field_names_def)

lemma setValue_loop_ok: "snd (setValue_loop n v fs) \<longleftrightarrow> n \<in> fld_name ` set fs"
  by (induction n v fs rule: setValue_loop.induct) (auto split: prod.splits)

lemma getValue_loop_set:
  "getValue_loop m (fst (setValue_loop n v fs)) =
     (if m = n \<and> n \<in> fld_name ` set fs then Some v else getValue_loop m fs)"
  by (induction n v fs rule: setValue_loop.induct) (auto split: prod.splits)

lemma setValue_loop_shape:
  "map (\<lambda>f. (fld_name f, fld_bits f)) (fst (setValue_loop n v fs))
     = map (\<lambda>f. (fld_name f, fld_bits f)) fs"
  by (induction n v fs rule: setValue_loop.induct) (auto split: prod.splits)

lemma setValue_loop_absent: "n \<notin> fld_name ` set fs \<Longrightarrow> fst (setValue_loop n v fs) = fs"
  by (induction n v fs rule: setValue_loop.induct) (auto split: prod.splits)

lemma setValue_eq:
  "setValue n v ctx = (ctx\<lparr>mFields := fst (setValue_loop n v (mFields ctx))\<rparr>,
     snd (setValue_loop n v (mFields ctx)))"
  by (simp add: setValue_def split: prod.split)

lemma snd_setValue [ctx_simps]: "snd (setValue n v ctx) \<longleftrightarrow> n \<in> set (field_names ctx)"
  by (simp add: setValue_eq setValue_loop_ok field_names_def)

lemma getValue_setValue [ctx_simps]:
  "getValue (fst (setValue n v ctx)) m =
     (if m = n \<and> n \<in> set (field_names ctx) then Some v else getValue ctx m)"
  by (simp add: setValue_eq getValue_def getValue_loop_set field_names_def)

lemma ctx_shape_setValue [ctx_simps]: "ctx_shape (fst (setValue n v ctx)) = ctx_shape ctx"
  by (simp add: setValue_eq ctx_shape_def setValue_loop_shape)

lemma setValue_absent: "n \<notin> set (field_names ctx) \<Longrightarrow> fst (setValue n v ctx) = ctx"
  by (simp add: setValue_eq setValue_loop_absent field_names_def)

lemma shape_names: "ctx_shape c = ctx_shape d \<Longrightarrow> field_names c = field_names d"
proof -
  have "field_names c = map fst (snd (snd (snd (ctx_shape c))))" for c
    by (simp add: field_names_def ctx_shape_def comp_def)
  then show "ctx_shape c = ctx_shape d \<Longrightarrow> field_names c = field_names d"
    by metis
qed

lemma shape_pointers:
  assumes "ctx_shape c = ctx_shape d"
  shows "mServiceName c = mServiceName d" "mUpper c = mUpper d" "mLower c = mLower d"
  using assms by (simp_all add: ctx_shape_def)

lemma field_names_setValue [ctx_simps]: "field_names (fst (setValue n v ctx)) = field_names ctx"
  by (rule shape_names) (rule ctx_shape_setValue)

lemma mUpper_setValue [ctx_simps]: "mUpper (fst (setValue n v ctx)) = mUpper ctx"
  by (rule shape_pointers(2)) (rule ctx_shape_setValue)

section \<open>Sizes\<close>

lemma byteSize_loop_eq: "byteSize_loop fs n = n + sum_list (map (unat \<circ> fld_bits) fs)"
  by (induction fs n rule: byteSize_loop.induct) auto

lemma byteSize_eq: "byteSize ctx = ceil8 (sum_list (map (unat \<circ> fld_bits) (mFields ctx)))"
  by (simp add: byteSize_def byteSize_loop_eq ceil8_def)

lemma shape_byteSize: "ctx_shape c = ctx_shape d \<Longrightarrow> byteSize c = byteSize d"
proof -
  have "byteSize c = ceil8 (sum_list (map (unat \<circ> snd) (snd (snd (snd (ctx_shape c))))))" for c
    by (simp add: byteSize_eq ctx_shape_def comp_def)
  then show "ctx_shape c = ctx_shape d \<Longrightarrow> byteSize c = byteSize d"
    by metis
qed

lemma bytesAfter_loop_seen:
  "bytesAfter_loop n fs bits True = (bits + sum_list (map (unat \<circ> fld_bits) fs), True)"
  by (induction fs arbitrary: bits) auto

lemma bytesAfter_loop_eq:
  "bytesAfter_loop n fs 0 False =
     (sum_list (map (unat \<circ> fld_bits) (tl (dropWhile (\<lambda>f. fld_name f \<noteq> n) fs))),
      n \<in> fld_name ` set fs)"
  by (induction fs) (auto simp: bytesAfter_loop_seen comp_def)

text \<open>\<^verbatim>\<open>bytesAfter\<close> is the size of the fields that follow the first one of that name.\<close>

lemma bytesAfter_eq:
  "bytesAfter ctx n =
     (if n \<in> set (field_names ctx)
      then Some (byteSize (ctx\<lparr>mFields := tl (dropWhile (\<lambda>f. fld_name f \<noteq> n) (mFields ctx))\<rparr>))
      else None)"
  by (simp add: bytesAfter_def bytesAfter_loop_eq field_names_def byteSize_eq ceil8_def)

lemma bytesAfter_None_iff: "bytesAfter ctx n = None \<longleftrightarrow> n \<notin> set (field_names ctx)"
  by (simp add: bytesAfter_eq)

text \<open>The first field of a name splits the fields of a layer.\<close>

lemma field_split:
  assumes "mFields ctx = before @ f # after" and "fld_name f \<notin> fld_name ` set before"
  shows "getValue ctx (fld_name f) = Some (fld_value f)"
    and "bytesAfter ctx (fld_name f) = Some (ceil8 (sum_list (map (unat \<circ> fld_bits) after)))"
proof -
  have "getValue_loop (fld_name f) (before @ f # after) = Some (fld_value f)"
    "tl (dropWhile (\<lambda>g. fld_name g \<noteq> fld_name f) (before @ f # after)) = after"
    using assms(2) by (induction before) auto
  then show "getValue ctx (fld_name f) = Some (fld_value f)"
    "bytesAfter ctx (fld_name f) = Some (ceil8 (sum_list (map (unat \<circ> fld_bits) after)))"
    by (simp_all add: getValue_def bytesAfter_eq byteSize_eq field_names_def assms(1))
qed

lemma shape_bytesAfter: "ctx_shape c = ctx_shape d \<Longrightarrow> bytesAfter c n = bytesAfter d n"
proof -
  have eq: "sum_list (map (unat \<circ> fld_bits) (tl (dropWhile (\<lambda>f. fld_name f \<noteq> n) fs))) =
      sum_list (map (unat \<circ> snd) (tl (dropWhile (\<lambda>p. fst p \<noteq> n) (map (\<lambda>f. (fld_name f, fld_bits f)) fs))))"
    for fs
    by (simp add: dropWhile_map map_tl [symmetric] comp_def)
  have "bytesAfter c n =
      (if n \<in> set (field_names c) then Some (ceil8 (sum_list (map (unat \<circ> snd)
        (tl (dropWhile (\<lambda>p. fst p \<noteq> n) (snd (snd (snd (ctx_shape c))))))))) else None)" for c
    using eq [of "mFields c"] unfolding bytesAfter_eq byteSize_eq ctx_shape_def by simp
  then show "ctx_shape c = ctx_shape d \<Longrightarrow> bytesAfter c n = bytesAfter d n"
    using shape_names [of c d] by simp
qed

section \<open>The walk over the upper layers\<close>

lemma bytesAbove_loop_simps [simp]:
  "bytesAbove_loop st None acc = Some acc"
  "bytesAbove_loop st (Some p) acc =
     (if p < length st then bytesAbove_loop st (mUpper (st ! p)) (acc + byteSize (st ! p)) else None)"
  by (subst bytesAbove_loop.simps, simp)+

text \<open>A store whose pointers are those of a bottom-up chain.\<close>

definition wired :: "ctx_store \<Rightarrow> bool" where
  "wired st \<longleftrightarrow> (\<forall>i<length st.
     mUpper (st ! i) = (if Suc i < length st then Some (Suc i) else None) \<and>
     mLower (st ! i) = (if 0 < i then Some (i - 1) else None))"

lemma wired_upper:
  "wired st \<Longrightarrow> i < length st \<Longrightarrow> mUpper (st ! i) = (if Suc i < length st then Some (Suc i) else None)"
  by (simp add: wired_def)

lemma bytesAbove_loop_wired:
  assumes "wired st" and "i < length st"
  shows "bytesAbove_loop st (Some i) acc = Some (acc + sum_list (map byteSize (drop i st)))"
  using assms(2)
proof (induction "length st - i" arbitrary: i acc)
  case (Suc n)
  have split: "drop i st = st ! i # drop (Suc i) st"
    using Suc.prems by (simp add: Cons_nth_drop_Suc)
  show ?case
  proof (cases "Suc i < length st")
    case True
    then have "bytesAbove_loop st (Some (Suc i)) (acc + byteSize (st ! i))
        = Some (acc + byteSize (st ! i) + sum_list (map byteSize (drop (Suc i) st)))"
      using Suc.hyps(2) by (intro Suc.hyps(1)) simp_all
    then show ?thesis
      using True Suc.prems by (simp add: wired_upper [OF assms(1)] split)
  next
    case False
    then show ?thesis
      using Suc.prems by (simp add: wired_upper [OF assms(1)] split)
  qed
qed simp

lemma bytesAbove_wired:
  assumes "wired st" and "i < length st"
  shows "bytesAbove st (st ! i) = Some (sum_list (map byteSize (drop (Suc i) st)))"
  using bytesAbove_loop_wired [OF assms(1), of "Suc i" 0] assms
  by (auto simp: bytesAbove_def wired_upper)

lemma shape_wired:
  assumes "map ctx_shape st = map ctx_shape st'" and "wired st"
  shows "wired st'"
proof -
  have len: "length st' = length st"
    using assms(1) by (metis length_map)
  have "mUpper (st' ! i) = mUpper (st ! i) \<and> mLower (st' ! i) = mLower (st ! i)"
    if "i < length st" for i
    using assms(1) that len shape_pointers [of "st' ! i" "st ! i"] by (metis nth_map)
  then show ?thesis
    using assms(2) by (simp add: wired_def len)
qed

lemma shape_sizes: "map ctx_shape st = map ctx_shape st' \<Longrightarrow> map byteSize st = map byteSize st'"
  using shape_byteSize by (metis (mono_tags, lifting) length_map nth_equalityI nth_map)

section \<open>Properties\<close>

text \<open>A module cannot invent a field or change the wire layout: writing succeeds exactly for the
  names of the layer, it is what the next read of that name returns, every other read is
  unchanged, and names, widths, links and byte size stay the same.\<close>

lemma setValue_contract:
  "(snd (setValue n v ctx) \<longleftrightarrow> n \<in> set (field_names ctx)) \<and>
   getValue (fst (setValue n v ctx)) m =
     (if m = n \<and> n \<in> set (field_names ctx) then Some v else getValue ctx m) \<and>
   ctx_shape (fst (setValue n v ctx)) = ctx_shape ctx \<and>
   byteSize (fst (setValue n v ctx)) = byteSize ctx"
  using shape_byteSize [OF ctx_shape_setValue] by (simp add: ctx_simps)

text \<open>On a wired stack the walk of \<^verbatim>\<open>bytesAbove\<close> ends for every layer and is the sum of the
  byte sizes of the layers above it.\<close>

lemma bytesAbove_terminates:
  assumes "wired st" and "i < length st"
  shows "bytesAbove st (st ! i) = Some (sum_list (map byteSize (drop (Suc i) st)))"
  by (rule bytesAbove_wired [OF assms])

lemma bytesAbove_terminates_example:
  "wired [(new_context ''a'')\<lparr>mUpper := Some 1\<rparr>, addField ''f'' 3 12 ((new_context ''b'')\<lparr>mLower := Some 0\<rparr>)] \<and>
   bytesAbove [(new_context ''a'')\<lparr>mUpper := Some 1\<rparr>, addField ''f'' 3 12 ((new_context ''b'')\<lparr>mLower := Some 0\<rparr>)]
     ((new_context ''a'')\<lparr>mUpper := Some 1\<rparr>) = Some 2"
proof -
  let ?st = "[(new_context ''a'')\<lparr>mUpper := Some 1\<rparr>, addField ''f'' 3 12 ((new_context ''b'')\<lparr>mLower := Some 0\<rparr>)]"
  have w: "wired ?st"
    by (simp add: wired_def new_context_def addField_def less_Suc_eq all_conj_distrib)
  then show ?thesis
    using bytesAbove_terminates [OF w, of 0]
    by (simp add: byteSize_eq addField_def new_context_def ceil8_def)
qed

end
