(* ===== verification/Logic_Module.thy ===== *)
theory Logic_Module
  imports Layer_Context Cpp_Strings
begin

text \<open>
  The logic modules: the interface \<^verbatim>\<open>ILogicModule\<close> with its default
  \<^verbatim>\<open>PassthroughLogic\<close> (parser/inc/tsn/logic_module.h), the three shipped modules
  \<^verbatim>\<open>EthernetFrameLogic\<close>, \<^verbatim>\<open>AvtpControlLogic\<close> and
  \<^verbatim>\<open>AecpAemLogic\<close> (logic/), and the \<^verbatim>\<open>LogicRegistry\<close>
  (parser/inc/tsn/logic_registry.h, src/logic_registry.cpp) that creates them by name.

  A module object is a value of the datatype \<open>LogicModule\<close>, one constructor per class
  with the class's members; a virtual call dispatches on the constructor. The locale
  \<open>layer_logic\<close> is the contract the stack runtime relies on: a module may change values,
  never the names, widths or links of a layer, and it returns on every wired stack.
\<close>

datatype LogicModule =
    PassthroughLogic
  | EthernetFrameLogic (mLastEthertype: u64) (mEncodeCalls: int) (mDecodeCalls: int)
  | AvtpControlLogic (mLastSubtype: u64)
  | AecpAemLogic (mLastCdl: u64)

section \<open>EthernetFrameLogic\<close>

definition kEthertype1722 :: u64 where
  "kEthertype1722 = 0x22F0"

definition ethernet_onEncode :: "u64 \<Rightarrow> int \<Rightarrow> int \<Rightarrow> LayerContext \<Rightarrow> LogicModule \<times> LayerContext" where
  "ethernet_onEncode lastEt enc dec ctx =
     (let m' = EthernetFrameLogic lastEt (enc + 1) dec in
      if getValue ctx ''ethertype'' = None \<or> getValue ctx ''ethertype'' = Some 0
      then (m', fst (setValue ''ethertype'' kEthertype1722 ctx))
      else (m', ctx))"

definition ethernet_onDecode :: "u64 \<Rightarrow> int \<Rightarrow> int \<Rightarrow> LayerContext \<Rightarrow> LogicModule" where
  "ethernet_onDecode lastEt enc dec ctx =
     EthernetFrameLogic (case getValue ctx ''ethertype'' of Some v \<Rightarrow> v | None \<Rightarrow> lastEt) enc (dec + 1)"

definition ethernet_nextLayer :: "ctx_store \<Rightarrow> LayerContext \<Rightarrow> string" where
  "ethernet_nextLayer st ctx = (case mUpper ctx of
       Some p \<Rightarrow> getServiceName (st ! p)
     | None \<Rightarrow> ''1722_avtp_common_stream'')"

section \<open>AvtpControlLogic\<close>

definition kSubtypeAecp :: u8 where
  "kSubtypeAecp = 0xFB"

definition kSubtypeAdp :: u8 where
  "kSubtypeAdp = 0xFA"

definition subtypeForUpper :: "ctx_store \<Rightarrow> LayerContext \<Rightarrow> u8" where
  "subtypeForUpper st ctx = (case mUpper ctx of
       None \<Rightarrow> 0
     | Some p \<Rightarrow>
         let svc = getServiceName (st ! p) in
         if starts_with svc ''atdecc_aecp'' then kSubtypeAecp
         else if starts_with svc ''atdecc_adp'' then kSubtypeAdp
         else 0)"

definition avtp_onEncode :: "u64 \<Rightarrow> ctx_store \<Rightarrow> LayerContext \<Rightarrow> LogicModule \<times> LayerContext" where
  "avtp_onEncode lastSub st ctx =
     (let subtype = subtypeForUpper st ctx;
          ctx1 = (if subtype \<noteq> 0 then fst (setValue ''subtype'' (ucast subtype) ctx) else ctx);
          ctx2 = fst (setValue ''sv'' 0 ctx1);
          ctx3 = fst (setValue ''version'' 0 ctx2);
          ctx4 = fst (setValue ''reserved'' 0 ctx3)
      in (AvtpControlLogic lastSub, ctx4))"

definition avtp_onDecode :: "u64 \<Rightarrow> LayerContext \<Rightarrow> LogicModule" where
  "avtp_onDecode lastSub ctx =
     AvtpControlLogic (case getValue ctx ''subtype'' of Some v \<Rightarrow> v | None \<Rightarrow> lastSub)"

definition upper_nextLayer :: "ctx_store \<Rightarrow> LayerContext \<Rightarrow> string" where
  "upper_nextLayer st ctx = (case mUpper ctx of
       Some p \<Rightarrow> getServiceName (st ! p)
     | None \<Rightarrow> [])"

section \<open>AecpAemLogic\<close>

definition aecp_nextLayer :: "ctx_store \<Rightarrow> LayerContext \<Rightarrow> string" where
  "aecp_nextLayer st ctx = (case mUpper ctx of
       Some p \<Rightarrow> getServiceName (st ! p)
     | None \<Rightarrow> [])"

text \<open>\<open>None\<close>: the walk of \<^verbatim>\<open>bytesAbove\<close> does not return.\<close>

definition aecp_length :: "ctx_store \<Rightarrow> LayerContext \<Rightarrow> LayerContext option" where
  "aecp_length st ctx = (case bytesAfter ctx ''control_data_length'' of
       None \<Rightarrow> Some ctx
     | Some nAfter \<Rightarrow>
         (case bytesAbove st ctx of
            None \<Rightarrow> None
          | Some nAbove \<Rightarrow> Some (fst (setValue ''control_data_length'' (of_nat (nAfter + nAbove)) ctx))))"

definition aecp_onEncode :: "u64 \<Rightarrow> ctx_store \<Rightarrow> LayerContext \<Rightarrow> (LogicModule \<times> LayerContext) option" where
  "aecp_onEncode lastCdl st ctx = (case aecp_length st ctx of
       None \<Rightarrow> None
     | Some ctx1 \<Rightarrow>
         Some (AecpAemLogic lastCdl,
           (case getValue ctx1 ''message_type'' of
              Some messageType \<Rightarrow>
                if messageType mod 2 = 0 then fst (setValue ''status'' 0 ctx1) else ctx1
            | None \<Rightarrow> ctx1)))"

definition aecp_onDecode :: "u64 \<Rightarrow> LayerContext \<Rightarrow> LogicModule" where
  "aecp_onDecode lastCdl ctx =
     AecpAemLogic (case getValue ctx ''control_data_length'' of Some v \<Rightarrow> v | None \<Rightarrow> lastCdl)"

section \<open>The virtual calls\<close>

text \<open>
  The interface of logic_module.h, dispatched over the classes of the repository: the empty defaults, which
  \<^verbatim>\<open>PassthroughLogic\<close> inherits, and the overrides of the three shipped modules.
\<close>

fun onEncode :: "LogicModule \<Rightarrow> ctx_store \<Rightarrow> LayerContext \<Rightarrow> (LogicModule \<times> LayerContext) option" where
  "onEncode PassthroughLogic st ctx = Some (PassthroughLogic, ctx)"
| "onEncode (EthernetFrameLogic e n d) st ctx = Some (ethernet_onEncode e n d ctx)"
| "onEncode (AvtpControlLogic s) st ctx = Some (avtp_onEncode s st ctx)"
| "onEncode (AecpAemLogic c) st ctx = aecp_onEncode c st ctx"

fun onDecode :: "LogicModule \<Rightarrow> LayerContext \<Rightarrow> LogicModule" where
  "onDecode PassthroughLogic ctx = PassthroughLogic"
| "onDecode (EthernetFrameLogic e n d) ctx = ethernet_onDecode e n d ctx"
| "onDecode (AvtpControlLogic s) ctx = avtp_onDecode s ctx"
| "onDecode (AecpAemLogic c) ctx = aecp_onDecode c ctx"

fun nextLayer :: "LogicModule \<Rightarrow> ctx_store \<Rightarrow> LayerContext \<Rightarrow> string" where
  "nextLayer PassthroughLogic st ctx = []"
| "nextLayer (EthernetFrameLogic e n d) st ctx = ethernet_nextLayer st ctx"
| "nextLayer (AvtpControlLogic s) st ctx = upper_nextLayer st ctx"
| "nextLayer (AecpAemLogic c) st ctx = aecp_nextLayer st ctx"

text \<open>What a module has recorded, as its client reads it; each getter belongs to one class.\<close>

definition getLastEthertypeSeen :: "LogicModule \<Rightarrow> u64" where
  "getLastEthertypeSeen m = mLastEthertype m"

definition getEncodeCalls :: "LogicModule \<Rightarrow> int" where
  "getEncodeCalls m = mEncodeCalls m"

definition getDecodeCalls :: "LogicModule \<Rightarrow> int" where
  "getDecodeCalls m = mDecodeCalls m"

definition getLastSubtypeSeen :: "LogicModule \<Rightarrow> u64" where
  "getLastSubtypeSeen m = mLastSubtype m"

definition getLastControlDataLength :: "LogicModule \<Rightarrow> u64" where
  "getLastControlDataLength m = mLastCdl m"

text \<open>Decoding records the field of the layer when it is there and keeps the last value otherwise.\<close>

lemma onDecode_records:
  "getValue ctx ''ethertype'' = Some v \<Longrightarrow> getLastEthertypeSeen (onDecode (EthernetFrameLogic e n d) ctx) = v"
  "getValue ctx ''subtype'' = Some v \<Longrightarrow> getLastSubtypeSeen (onDecode (AvtpControlLogic s) ctx) = v"
  "getValue ctx ''control_data_length'' = Some v \<Longrightarrow> getLastControlDataLength (onDecode (AecpAemLogic c) ctx) = v"
  "getDecodeCalls (onDecode (EthernetFrameLogic e n d) ctx) = getDecodeCalls (EthernetFrameLogic e n d) + 1"
  "getEncodeCalls (onDecode (EthernetFrameLogic e n d) ctx) = getEncodeCalls (EthernetFrameLogic e n d)"
  by (simp_all add: getLastEthertypeSeen_def getLastSubtypeSeen_def getLastControlDataLength_def getDecodeCalls_def
      getEncodeCalls_def ethernet_onDecode_def avtp_onDecode_def aecp_onDecode_def)

section \<open>LogicRegistry\<close>

text \<open>
  A \<^verbatim>\<open>std::function\<close> may be empty (outer \<open>None\<close>) and a factory may return a
  null pointer (inner \<open>None\<close>). The \<^verbatim>\<open>unordered_map\<close> is an association list;
  nothing iterates over it.
\<close>

type_synonym factory_body = "unit \<Rightarrow> LogicModule option"
type_synonym Factory = "factory_body option"

record LogicRegistry =
  mFactories :: "(string \<times> factory_body) list"

definition empty_registry :: LogicRegistry where
  "empty_registry = \<lparr>mFactories = []\<rparr>"

definition registry_add :: "string \<Rightarrow> Factory \<Rightarrow> LogicRegistry \<Rightarrow> bool \<times> LogicRegistry" where
  "registry_add name factory reg =
     (case factory of
        None \<Rightarrow> (False, reg)
      | Some f \<Rightarrow>
          if name = [] then (False, reg)
          else case map_of (mFactories reg) name of
              Some _ \<Rightarrow> (False, reg)
            | None \<Rightarrow> (True, reg\<lparr>mFactories := (name, f) # mFactories reg\<rparr>))"

definition registry_create :: "LogicRegistry \<Rightarrow> string \<Rightarrow> LogicModule option" where
  "registry_create reg name = (case map_of (mFactories reg) name of
       None \<Rightarrow> None
     | Some f \<Rightarrow> f ())"

definition registry_has :: "LogicRegistry \<Rightarrow> string \<Rightarrow> bool" where
  "registry_has reg name \<longleftrightarrow> map_of (mFactories reg) name \<noteq> None"

definition registry_size :: "LogicRegistry \<Rightarrow> nat" where
  "registry_size reg = length (mFactories reg)"

text \<open>
  The registrations the \<^verbatim>\<open>REGISTER_LOGIC\<close> lines of the three shipped modules perform at
  static initialisation. C++ leaves their order across translation units open; with three
  different names it does not matter.
\<close>

definition shipped_logic :: "(string \<times> Factory) list" where
  "shipped_logic =
     [(''ethernet_mac_frame'', Some (\<lambda>_. Some (EthernetFrameLogic 0 0 0))),
      (''avtp_control'', Some (\<lambda>_. Some (AvtpControlLogic 0))),
      (''aecp_aem'', Some (\<lambda>_. Some (AecpAemLogic 0)))]"

definition register_all :: "(string \<times> Factory) list \<Rightarrow> LogicRegistry \<Rightarrow> LogicRegistry" where
  "register_all regs reg = foldl (\<lambda>r (n, f). snd (registry_add n f r)) reg regs"

definition shipped_registry :: LogicRegistry where
  "shipped_registry = register_all shipped_logic empty_registry"

lemma has_registry_add:
  "registry_has (snd (registry_add n f reg)) m \<longleftrightarrow>
     registry_has reg m \<or> (m = n \<and> n \<noteq> [] \<and> f \<noteq> None)"
  by (auto simp: registry_add_def registry_has_def split: option.splits)

lemma registry_add_ok:
  "fst (registry_add n f reg) \<longleftrightarrow> n \<noteq> [] \<and> f \<noteq> None \<and> \<not> registry_has reg n"
  by (auto simp: registry_add_def registry_has_def split: option.splits)

lemma create_registry_add:
  "registry_create (snd (registry_add n f reg)) m =
     (if m = n \<and> n \<noteq> [] \<and> \<not> registry_has reg n then (case f of Some g \<Rightarrow> g () | None \<Rightarrow> None)
      else registry_create reg m)"
  by (auto simp: registry_add_def registry_has_def registry_create_def split: option.splits)

lemma registry_size_add:
  "registry_size (snd (registry_add n f reg)) =
     registry_size reg + of_bool (fst (registry_add n f reg))"
  by (simp add: registry_add_def registry_size_def split: option.split)

section \<open>The contract of a logic module\<close>

locale layer_logic =
  fixes encode :: "'m \<Rightarrow> ctx_store \<Rightarrow> LayerContext \<Rightarrow> ('m \<times> LayerContext) option"
  assumes encode_shape: "encode m st ctx = Some (m', ctx') \<Longrightarrow> ctx_shape ctx' = ctx_shape ctx"
    and encode_total: "wired st \<Longrightarrow> i < length st \<Longrightarrow> encode m st (st ! i) \<noteq> None"
    and encode_local: "wired st \<Longrightarrow> i < length st \<Longrightarrow> map ctx_shape st' = map ctx_shape st \<Longrightarrow>
        st' ! i = st ! i \<Longrightarrow> encode m st' (st' ! i) = encode m st (st ! i)"
begin

definition encode_at :: "nat \<Rightarrow> ('m \<times> LayerContext) list \<Rightarrow> ('m \<times> LayerContext) list option" where
  "encode_at i xs = map_option (\<lambda>p. xs[i := p]) (encode (fst (xs ! i)) (map snd xs) (snd (xs ! i)))"

primrec encode_all :: "nat list \<Rightarrow> ('m \<times> LayerContext) list \<Rightarrow> ('m \<times> LayerContext) list option" where
  "encode_all [] xs = Some xs"
| "encode_all (i # is) xs = (case encode_at i xs of None \<Rightarrow> None | Some ys \<Rightarrow> encode_all is ys)"

definition shapes :: "('m \<times> LayerContext) list
    \<Rightarrow> (string \<times> nat option \<times> nat option \<times> (string \<times> u32) list) list" where
  "shapes xs = map ctx_shape (map snd xs)"

lemma length_shapes: "shapes ys = shapes xs \<Longrightarrow> length ys = length xs"
  by (metis shapes_def length_map)

lemma encode_at_ok:
  assumes "wired (map snd xs)" and "i < length xs"
  shows "\<exists>p. encode (fst (xs ! i)) (map snd xs) (snd (xs ! i)) = Some p \<and>
             encode_at i xs = Some (xs[i := p]) \<and> shapes (xs[i := p]) = shapes xs"
proof -
  obtain p where p: "encode (fst (xs ! i)) (map snd xs) (snd (xs ! i)) = Some p"
    using encode_total [OF assms(1), of i "fst (xs ! i)"] assms(2) by auto
  then have "ctx_shape (snd p) = ctx_shape (snd (xs ! i))"
    using encode_shape by (metis prod.collapse)
  then have "shapes (xs[i := p]) = shapes xs"
    using assms(2) by (simp add: shapes_def map_update list_update_same_conv)
  then show ?thesis
    using p by (simp add: encode_at_def)
qed

lemma encode_all_gen:
  assumes "wired (map snd xs)" and "distinct is" and "set is \<subseteq> {..<length xs}"
  shows "\<exists>ys. encode_all is xs = Some ys \<and> shapes ys = shapes xs \<and>
     (\<forall>i<length xs. if i \<in> set is
        then encode (fst (xs ! i)) (map snd xs) (snd (xs ! i)) = Some (ys ! i) else ys ! i = xs ! i)"
  using assms
proof (induction "is" arbitrary: xs)
  case (Cons j js)
  obtain p where p: "encode (fst (xs ! j)) (map snd xs) (snd (xs ! j)) = Some p"
      "encode_at j xs = Some (xs[j := p])" "shapes (xs[j := p]) = shapes xs"
    using encode_at_ok [of xs j] Cons.prems by auto
  let ?xs = "xs[j := p]"
  have w: "wired (map snd ?xs)"
    by (rule shape_wired [OF _ Cons.prems(1)]) (use p(3) in \<open>simp add: shapes_def\<close>)
  obtain ys where ys: "encode_all js ?xs = Some ys" "shapes ys = shapes ?xs"
      "\<forall>i<length ?xs. if i \<in> set js
        then encode (fst (?xs ! i)) (map snd ?xs) (snd (?xs ! i)) = Some (ys ! i) else ys ! i = ?xs ! i"
    using Cons.IH [OF w] Cons.prems by auto
  have same: "encode (fst (?xs ! i)) (map snd ?xs) (snd (?xs ! i))
      = encode (fst (xs ! i)) (map snd xs) (snd (xs ! i))" if "i < length xs" "i \<noteq> j" for i
    using encode_local [OF Cons.prems(1), of i "map snd ?xs" "fst (xs ! i)"] that p(3)
    by (simp add: shapes_def)
  have "if i \<in> set (j # js)
        then encode (fst (xs ! i)) (map snd xs) (snd (xs ! i)) = Some (ys ! i) else ys ! i = xs ! i"
    if i: "i < length xs" for i
    using ys(3) [rule_format, of i] same [OF i] i p(1) Cons.prems(2) by (cases "i = j") auto
  then show ?case
    using p ys by auto
qed simp

text \<open>
  Running every module of a wired stack once, bottom-up: all return, no layer changes its
  shape, and every module sees the contexts as they were loaded.
\<close>

lemma encode_all_ok:
  assumes "wired (map snd xs)"
  shows "\<exists>ys. encode_all [0..<length xs] xs = Some ys \<and> shapes ys = shapes xs \<and>
     (\<forall>i<length xs. encode (fst (xs ! i)) (map snd xs) (snd (xs ! i)) = Some (ys ! i))"
proof -
  have "set [0..<length xs] \<subseteq> {..<length xs}" by auto
  then show ?thesis
    using encode_all_gen [OF assms distinct_upt, of 0 "length xs"] by auto
qed

end

section \<open>The shipped modules keep the contract\<close>

lemma shape_ethernet: "ctx_shape (snd (ethernet_onEncode e n d ctx)) = ctx_shape ctx"
  by (simp add: ethernet_onEncode_def ctx_simps Let_def)

lemma shape_avtp: "ctx_shape (snd (avtp_onEncode s st ctx)) = ctx_shape ctx"
  by (simp add: avtp_onEncode_def ctx_simps Let_def)

lemma shape_aecp_length: "aecp_length st ctx = Some ctx' \<Longrightarrow> ctx_shape ctx' = ctx_shape ctx"
  by (auto simp: aecp_length_def ctx_simps split: option.splits)

lemma shape_aecp: "aecp_onEncode c st ctx = Some (m, ctx') \<Longrightarrow> ctx_shape ctx' = ctx_shape ctx"
  by (auto simp: aecp_onEncode_def ctx_simps shape_aecp_length split: option.splits if_splits)

lemma onEncode_shape: "onEncode m st ctx = Some (m', ctx') \<Longrightarrow> ctx_shape ctx' = ctx_shape ctx"
  using shape_ethernet shape_avtp shape_aecp by (cases m) (auto, metis snd_conv, metis snd_conv)

lemma aecp_total: "bytesAbove st ctx \<noteq> None \<Longrightarrow> aecp_onEncode c st ctx \<noteq> None"
  by (auto simp: aecp_onEncode_def aecp_length_def split: option.splits)

lemma onEncode_total: "wired st \<Longrightarrow> i < length st \<Longrightarrow> onEncode m st (st ! i) \<noteq> None"
  by (cases m) (simp_all only: onEncode.simps aecp_total bytesAbove_wired option.simps not_False_eq_True)

lemma upper_service_local:
  assumes "wired st" and "i < length st" and "map ctx_shape st' = map ctx_shape st"
    and "mUpper (st ! i) = Some p"
  shows "getServiceName (st' ! p) = getServiceName (st ! p)"
proof -
  have "p < length st"
    using assms by (auto simp: wired_upper split: if_splits)
  then have "ctx_shape (st' ! p) = ctx_shape (st ! p)"
    using assms(3) by (metis length_map nth_map)
  then show ?thesis
    by (simp add: getServiceName_def shape_pointers(1) [OF \<open>ctx_shape (st' ! p) = _\<close>])
qed

lemma bytesAbove_local:
  assumes "wired st" and "i < length st" and "map ctx_shape st' = map ctx_shape st"
  shows "bytesAbove st' (st' ! i) = bytesAbove st (st ! i)"
proof -
  have w: "wired st'" and len: "length st' = length st"
    using assms shape_wired by (metis, metis length_map)
  have "map byteSize st' = map byteSize st"
    by (rule shape_sizes [OF assms(3)])
  then have "map byteSize (drop (Suc i) st') = map byteSize (drop (Suc i) st)"
    by (metis drop_map)
  then show ?thesis
    using bytesAbove_wired [OF assms(1,2)] bytesAbove_wired [OF w, of i] assms(2) len by simp
qed

lemma onEncode_local:
  assumes "wired st" and "i < length st" and "map ctx_shape st' = map ctx_shape st"
    and "st' ! i = st ! i"
  shows "onEncode m st' (st' ! i) = onEncode m st (st ! i)"
proof (cases m)
  case (AvtpControlLogic s)
  have "subtypeForUpper st' (st' ! i) = subtypeForUpper st (st ! i)"
    using upper_service_local [OF assms(1-3)] assms(4)
    by (auto simp: subtypeForUpper_def split: option.split)
  with AvtpControlLogic assms(4) show ?thesis
    by (simp add: avtp_onEncode_def)
next
  case (AecpAemLogic c)
  then show ?thesis
    using bytesAbove_local [OF assms(1-3)] unfolding assms(4)
    by (simp only: onEncode.simps aecp_onEncode_def aecp_length_def)
qed (simp_all add: assms(4))

interpretation logic: layer_logic onEncode
proof (unfold_locales, goal_cases)
  case 1
  then show ?case by (rule onEncode_shape)
next
  case 2
  then show ?case by (rule onEncode_total)
next
  case 3
  then show ?case by (rule onEncode_local)
qed

section \<open>What each module derives\<close>

lemma ethernet_ethertype:
  assumes "''ethertype'' \<in> set (field_names ctx)"
  shows "\<exists>v. getValue (snd (ethernet_onEncode e n d ctx)) ''ethertype'' = Some v \<and> v \<noteq> 0 \<and>
     (\<forall>w. getValue ctx ''ethertype'' = Some w \<and> w \<noteq> 0 \<longrightarrow> v = w)"
proof -
  obtain w where "getValue ctx ''ethertype'' = Some w"
    using assms by (cases "getValue ctx ''ethertype''") (simp_all add: getValue_None_iff)
  then show ?thesis
    using assms by (auto simp: ethernet_onEncode_def ctx_simps kEthertype1722_def Let_def)
qed

lemma avtp_fields:
  "getValue (snd (avtp_onEncode s st ctx)) n =
     (if n \<in> {''sv'', ''version'', ''reserved''} \<and> n \<in> set (field_names ctx) then Some 0
      else if n = ''subtype'' \<and> n \<in> set (field_names ctx) \<and> subtypeForUpper st ctx \<noteq> 0
        then Some (ucast (subtypeForUpper st ctx))
      else getValue ctx n)"
  by (auto simp: avtp_onEncode_def ctx_simps Let_def)

lemma aecp_control_data_length:
  assumes "''control_data_length'' \<in> set (field_names ctx)" and "bytesAbove st ctx = Some nAbove"
  shows "\<exists>ctx' nAfter. aecp_onEncode c st ctx = Some (AecpAemLogic c, ctx') \<and>
     bytesAfter ctx ''control_data_length'' = Some nAfter \<and>
     getValue ctx' ''control_data_length'' = Some (of_nat (nAfter + nAbove))"
proof -
  obtain nAfter where "bytesAfter ctx ''control_data_length'' = Some nAfter"
    using assms(1) by (cases "bytesAfter ctx ''control_data_length''") (simp_all add: bytesAfter_None_iff)
  then show ?thesis
    using assms by (auto simp: aecp_onEncode_def aecp_length_def ctx_simps split: option.split)
qed

lemma aecp_status:
  assumes "aecp_onEncode c st ctx = Some (m, ctx')" and "getValue ctx ''message_type'' = Some t"
    and "''status'' \<in> set (field_names ctx)"
  shows "getValue ctx' ''status'' = (if even t then Some 0 else getValue ctx ''status'')"
proof -
  obtain ctx1 where ctx1: "aecp_length st ctx = Some ctx1"
    and ctx': "ctx' = (if t mod 2 = 0 then fst (setValue ''status'' 0 ctx1) else ctx1)"
    and names: "field_names ctx1 = field_names ctx"
    and kept: "getValue ctx1 ''status'' = getValue ctx ''status''"
    using assms(1,2)
    by (auto simp: aecp_onEncode_def aecp_length_def ctx_simps split: option.splits)
  have "t mod 2 = 0 \<longleftrightarrow> even t"
    by (rule even_iff_mod_2_eq_zero [symmetric])
  then show ?thesis
    using assms(3) kept by (simp only: ctx' names ctx_simps split: if_split) simp
qed

section \<open>Properties\<close>

text \<open>Whatever module is bound to it, encoding a layer never changes the layer's field names,
  widths or links, and on a wired stack every module returns.\<close>

lemma modules_keep_layout:
  assumes "wired st" and "i < length st"
  shows "\<exists>m' ctx'. onEncode m st (st ! i) = Some (m', ctx') \<and> ctx_shape ctx' = ctx_shape (st ! i)"
proof -
  obtain m' ctx' where "onEncode m st (st ! i) = Some (m', ctx')"
    using logic.encode_total [OF assms] by (metis not_None_eq prod.collapse)
  then show ?thesis
    using logic.encode_shape by blast
qed

lemma modules_keep_layout_example:
  "wired [addField ''control_data_length'' 0 11 (new_context ''aecp'')] \<and>
   (\<exists>m' ctx'. onEncode (AecpAemLogic 0) [addField ''control_data_length'' 0 11 (new_context ''aecp'')]
      (addField ''control_data_length'' 0 11 (new_context ''aecp'')) = Some (m', ctx') \<and>
      ctx_shape ctx' = ctx_shape (addField ''control_data_length'' 0 11 (new_context ''aecp'')))"
proof -
  let ?st = "[addField ''control_data_length'' 0 11 (new_context ''aecp'')]"
  have w: "wired ?st"
    by (simp add: wired_def addField_def new_context_def)
  then show ?thesis
    using modules_keep_layout [OF w, of 0 "AecpAemLogic 0"] by simp
qed

text \<open>The Ethernet module leaves a non-zero EtherType of the layout alone and replaces a zero one by
  0x22F0; it counts the call and touches no other field.\<close>

lemma ethernet_fills_ethertype:
  "onEncode (EthernetFrameLogic e n d) st ctx = Some (EthernetFrameLogic e (n + 1) d, ctx') \<longrightarrow>
   getValue ctx' k =
     (if k = ''ethertype'' \<and> getValue ctx k = Some 0 then Some kEthertype1722 else getValue ctx k)"
  by (auto simp: ethernet_onEncode_def ctx_simps getValue_None_iff [symmetric] Let_def setValue_absent
      split: if_splits)

lemma ethernet_fills_ethertype_example:
  "onEncode (EthernetFrameLogic 0 0 0) [] (addField ''ethertype'' 0 16 (new_context ''eth''))
     = Some (EthernetFrameLogic 0 1 0, addField ''ethertype'' kEthertype1722 16 (new_context ''eth'')) \<and>
   getValue (addField ''ethertype'' kEthertype1722 16 (new_context ''eth'')) ''ethertype'' = Some kEthertype1722"
proof -
  let ?c = "addField ''ethertype'' 0 16 (new_context ''eth'')"
  have "onEncode (EthernetFrameLogic 0 0 0) [] ?c
     = Some (EthernetFrameLogic 0 (0 + 1) 0, addField ''ethertype'' kEthertype1722 16 (new_context ''eth''))"
    and "getValue ?c ''ethertype'' = Some 0"
    by code_simp+
  then show ?thesis
    using ethernet_fills_ethertype [of 0 0 0 "[]" ?c _ "''ethertype''"] by auto
qed

text \<open>The AVTP control module writes the subtype the service above implies (0xFB for a name that
  starts with \<^verbatim>\<open>atdecc_aecp\<close>, 0xFA for \<^verbatim>\<open>atdecc_adp\<close>, otherwise the field is left), clears
  \<^verbatim>\<open>sv\<close>, \<^verbatim>\<open>version\<close> and \<^verbatim>\<open>reserved\<close> where the layer has them and leaves every other field.\<close>

lemma avtp_selects_subtype:
  "\<exists>ctx'. onEncode (AvtpControlLogic s) st ctx = Some (AvtpControlLogic s, ctx') \<and>
   (\<forall>n. getValue ctx' n =
     (if n \<in> set (field_names ctx) then
        if n \<in> {''sv'', ''version'', ''reserved''} then Some 0
        else if n = ''subtype'' then
          (case mUpper ctx of
             None \<Rightarrow> getValue ctx n
           | Some p \<Rightarrow> if prefix ''atdecc_aecp'' (mServiceName (st ! p)) then Some 0xFB
                       else if prefix ''atdecc_adp'' (mServiceName (st ! p)) then Some 0xFA
                       else getValue ctx n)
        else getValue ctx n
      else None))"
proof -
  have sub: "subtypeForUpper st ctx = (case mUpper ctx of None \<Rightarrow> 0
      | Some p \<Rightarrow> if prefix ''atdecc_aecp'' (mServiceName (st ! p)) then 0xFB
                  else if prefix ''atdecc_adp'' (mServiceName (st ! p)) then 0xFA else 0)"
    by (simp add: subtypeForUpper_def getServiceName_def starts_with_iff_prefix kSubtypeAecp_def
        kSubtypeAdp_def Let_def split: option.split)
  have "fst (avtp_onEncode s st ctx) = AvtpControlLogic s"
    by (simp add: avtp_onEncode_def Let_def)
  moreover have "getValue (snd (avtp_onEncode s st ctx)) n = None" if "n \<notin> set (field_names ctx)" for n
    using that shape_names [OF shape_avtp] by (simp add: getValue_None_iff)
  ultimately show ?thesis
    by (intro exI [of _ "snd (avtp_onEncode s st ctx)"])
      (auto simp: avtp_fields sub prod_eq_iff split: option.splits)
qed

text \<open>An AECP command (even message type) leaves with status 0, a response keeps its status.\<close>

lemma aecp_command_status:
  assumes "onEncode (AecpAemLogic c) st ctx = Some (m, ctx')"
    and "getValue ctx ''message_type'' = Some t" and "''status'' \<in> set (field_names ctx)"
  shows "getValue ctx' ''status'' = (if even t then Some 0 else getValue ctx ''status'')"
  using aecp_status [OF _ assms(2,3)] assms(1) by simp

lemma aecp_command_status_example:
  "\<exists>m ctx'. onEncode (AecpAemLogic 0) []
      (addField ''status'' 5 5 (addField ''message_type'' 2 4 (new_context ''aecp''))) = Some (m, ctx') \<and>
     getValue ctx' ''status'' = Some 0"
proof -
  let ?c = "addField ''status'' 5 5 (addField ''message_type'' 2 4 (new_context ''aecp''))"
  have m: "getValue ?c ''message_type'' = Some 2" and s: "''status'' \<in> set (field_names ?c)"
    by (simp_all add: getValue_def field_names_def addField_def new_context_def)
  have "onEncode (AecpAemLogic 0) [] ?c \<noteq> None"
    by (simp add: aecp_onEncode_def aecp_length_def bytesAfter_eq field_names_def addField_def new_context_def)
  then obtain m' ctx' where e: "onEncode (AecpAemLogic 0) [] ?c = Some (m', ctx')"
    by (metis not_None_eq prod.collapse)
  show ?thesis
    using aecp_command_status [OF e m s] e by auto
qed

text \<open>The registry never overwrites: registering succeeds exactly for a non-empty, not yet
  registered name with a factory; afterwards that name creates what the factory makes and every
  other name creates what it did before.\<close>

lemma registry_first_registration_wins:
  "(fst (registry_add n f reg) \<longleftrightarrow> n \<noteq> [] \<and> f \<noteq> None \<and> \<not> registry_has reg n) \<and>
   registry_create (snd (registry_add n f reg)) m =
     (if m = n \<and> fst (registry_add n f reg) then the f () else registry_create reg m) \<and>
   registry_size (snd (registry_add n f reg)) =
     (if fst (registry_add n f reg) then Suc (registry_size reg) else registry_size reg)"
proof -
  have "\<not> registry_has reg n \<Longrightarrow> registry_create reg n = None"
    by (simp add: registry_has_def registry_create_def)
  then show ?thesis
    by (auto simp: registry_add_ok create_registry_add registry_size_add split: option.splits)
qed

end
