(* ===== verification/Cpp_Numbers.thy ===== *)
theory Cpp_Numbers
  imports TSN_Prelude
begin

text \<open>
  The number conversions of the C and C++ libraries the sources use: \<^verbatim>\<open>strtoul\<close> and
  \<^verbatim>\<open>strtoull\<close> (64-bit \<^verbatim>\<open>unsigned long\<close>), \<^verbatim>\<open>std::stoull\<close> and
  \<^verbatim>\<open>std::to_string\<close>. Characters are those of the \<^verbatim>\<open>"C"\<close> locale.
\<close>

definition c_str :: "string \<Rightarrow> string" where
  "c_str s = takeWhile (\<lambda>c. c \<noteq> CHR 0x00) s"

definition isspace :: "char \<Rightarrow> bool" where
  "isspace c \<longleftrightarrow> c \<in> {CHR 0x20, CHR 0x09, CHR 0x0A, CHR 0x0B, CHR 0x0C, CHR 0x0D}"

definition digit_of :: "char \<Rightarrow> nat option" where
  "digit_of c =
     (let n = of_char c :: nat in
      if 48 \<le> n \<and> n \<le> 57 then Some (n - 48)
      else if 97 \<le> n \<and> n \<le> 122 then Some (n - 87)
      else if 65 \<le> n \<and> n \<le> 90 then Some (n - 55)
      else None)"

definition is_digit :: "nat \<Rightarrow> char \<Rightarrow> bool" where
  "is_digit base c \<longleftrightarrow> (case digit_of c of Some d \<Rightarrow> d < base | None \<Rightarrow> False)"

definition digits_value :: "nat \<Rightarrow> string \<Rightarrow> int" where
  "digits_value base ds =
     foldl (\<lambda>a c. a * int base + (case digit_of c of Some d \<Rightarrow> int d | None \<Rightarrow> 0)) 0 ds"

definition split_sign :: "string \<Rightarrow> bool \<times> string" where
  "split_sign s = (case s of
       c # r \<Rightarrow> if c = CHR ''-'' then (True, r) else if c = CHR ''+'' then (False, r) else (False, s)
     | [] \<Rightarrow> (False, s))"

definition has_hex_prefix :: "string \<Rightarrow> bool" where
  "has_hex_prefix s = (case s of
       a # b # c # _ \<Rightarrow> a = CHR ''0'' \<and> (b = CHR ''x'' \<or> b = CHR ''X'') \<and> is_digit 16 c
     | _ \<Rightarrow> False)"

text \<open>The base in use and the rest of the text after an optional prefix.\<close>

definition split_base :: "nat \<Rightarrow> string \<Rightarrow> nat \<times> string" where
  "split_base base s =
     (if (base = 0 \<or> base = 16) \<and> has_hex_prefix s then (16, drop 2 s)
      else if base = 0 then (if s \<noteq> [] \<and> hd s = CHR ''0'' then 8 else 10, s)
      else (base, s))"

record strto_result =
  st_value :: u64
  st_consumed :: nat
  st_range_error :: bool

definition strtoull :: "string \<Rightarrow> nat \<Rightarrow> strto_result" where
  "strtoull text base =
     (let s = c_str text;
          (neg, s1) = split_sign (dropWhile isspace s);
          (b, s2) = split_base base s1;
          ds = takeWhile (is_digit b) s2;
          n = digits_value b ds
      in if ds = [] then \<lparr>st_value = 0, st_consumed = 0, st_range_error = False\<rparr>
         else \<lparr>st_value = (if n \<ge> 2 ^ 64 then - 1 else if neg then - of_int n else of_int n),
               st_consumed = length s - length s2 + length ds,
               st_range_error = (n \<ge> 2 ^ 64)\<rparr>)"

text \<open>
  \<^verbatim>\<open>std::stoull(text, &consumed, base)\<close>: \<open>None\<close> is the exception,
  \<^verbatim>\<open>invalid_argument\<close> without a conversion and \<^verbatim>\<open>out_of_range\<close> on overflow.
\<close>

definition stoull :: "string \<Rightarrow> nat \<Rightarrow> (u64 \<times> nat) option" where
  "stoull text base =
     (let r = strtoull text base in
      if st_consumed r = 0 \<or> st_range_error r then None
      else Some (st_value r, st_consumed r))"

text \<open>\<^verbatim>\<open>std::stoll(text, nullptr, base)\<close>: the signed conversion has half the range.\<close>

definition stoll :: "string \<Rightarrow> nat \<Rightarrow> int option" where
  "stoll text base =
     (let (neg, s1) = split_sign (dropWhile isspace (c_str text));
          (b, s2) = split_base base s1;
          ds = takeWhile (is_digit b) s2;
          n = (if neg then - digits_value b ds else digits_value b ds)
      in if ds = [] \<or> n < - (2 ^ 63) \<or> n \<ge> 2 ^ 63 then None else Some n)"

text \<open>\<^verbatim>\<open>std::to_string(uint64_t)\<close>: decimal, no leading zeros.\<close>

definition digit_char :: "nat \<Rightarrow> char" where
  "digit_char d = ''0123456789'' ! d"

fun dec_digits :: "nat \<Rightarrow> string" where
  "dec_digits n = (if n < 10 then [digit_char n] else dec_digits (n div 10) @ [digit_char (n mod 10)])"

declare dec_digits.simps [simp del]

definition to_string :: "u64 \<Rightarrow> string" where
  "to_string v = dec_digits (unat v)"

section \<open>Decimal round trip\<close>

lemma digits_value_append:
  "digits_value b (ds @ [c]) = digits_value b ds * int b + (case digit_of c of Some d \<Rightarrow> int d | None \<Rightarrow> 0)"
  by (simp add: digits_value_def)

lemma digit_of_digit_char:
  assumes "d < 10"
  shows "digit_of (digit_char d) = Some d"
proof -
  have "list_all (\<lambda>d. digit_of (digit_char d) = Some d) [0..<10]"
    by code_simp
  then show ?thesis
    using assms by (simp add: list_all_iff)
qed

lemma dec_digits_value: "digits_value 10 (dec_digits n) = int n"
proof (induction n rule: dec_digits.induct)
  case (1 n)
  show ?case
  proof (cases "n < 10")
    case True
    then show ?thesis
      by (simp add: dec_digits.simps [of n] digits_value_def digit_of_digit_char)
  next
    case False
    then show ?thesis
      using 1 by (simp add: dec_digits.simps [of n] digits_value_append digit_of_digit_char)
        (metis add.commute mult.commute of_nat_add of_nat_mult of_nat_numeral mod_mult_div_eq)
  qed
qed

lemma dec_digits_set: "c \<in> set (dec_digits n) \<Longrightarrow> \<exists>d<10. c = digit_char d"
proof (induction n rule: dec_digits.induct)
  case (1 n)
  then show ?case
    by (subst (asm) dec_digits.simps) (auto split: if_splits intro: exI [of _ "n mod 10"])
qed

lemma dec_digits_ne [simp]: "dec_digits n \<noteq> []"
  by (subst dec_digits.simps) simp

lemma dec_digit_char_props:
  assumes "d < 10"
  shows "is_digit 10 (digit_char d)" and "\<not> isspace (digit_char d)"
    and "digit_char d \<noteq> CHR 0x00" and "digit_char d \<notin> {CHR ''-'', CHR ''+''}"
proof -
  have "list_all (\<lambda>d. is_digit 10 (digit_char d) \<and> \<not> isspace (digit_char d) \<and>
      digit_char d \<noteq> CHR 0x00 \<and> digit_char d \<notin> {CHR ''-'', CHR ''+''}) [0..<10]"
    by code_simp
  then show "is_digit 10 (digit_char d)" "\<not> isspace (digit_char d)" "digit_char d \<noteq> CHR 0x00"
    "digit_char d \<notin> {CHR ''-'', CHR ''+''}"
    using assms by (simp_all add: list_all_iff)
qed

text \<open>Reading back a decimal rendering in base 10 gives the number, all characters consumed.\<close>

lemma strtoull_dec:
  assumes "n < 2 ^ 64"
  shows "strtoull (dec_digits n) 10 =
    \<lparr>st_value = of_nat n, st_consumed = length (dec_digits n), st_range_error = False\<rparr>"
proof -
  let ?s = "dec_digits n"
  have mem: "is_digit 10 c \<and> \<not> isspace c \<and> c \<noteq> CHR 0x00 \<and> c \<notin> {CHR ''-'', CHR ''+''}"
    if "c \<in> set ?s" for c
    using dec_digits_set [OF that] dec_digit_char_props by metis
  have nul: "c_str ?s = ?s"
    unfolding c_str_def takeWhile_eq_all_conv using mem by simp
  obtain c r where cr: "?s = c # r"
    using dec_digits_ne [of n] by (cases ?s) auto
  have c: "\<not> isspace c" "c \<noteq> CHR ''-''" "c \<noteq> CHR ''+''"
    using mem [of c] cr by auto
  then have sign: "split_sign (dropWhile isspace ?s) = (False, ?s)"
    by (simp add: cr split_sign_def)
  have digits: "takeWhile (is_digit 10) ?s = ?s"
    unfolding takeWhile_eq_all_conv using mem by simp
  show ?thesis
    using assms by (simp add: strtoull_def nul sign split_base_def digits dec_digits_value not_le)
qed

end
