(* ===== verification/Yaml_Api.thy ===== *)
theory Yaml_Api
  imports Cpp_Numbers
begin

text \<open>
  What the sources use of code that is not theirs: rapidyaml (a git submodule) and the POSIX
  file calls. Both are parameters of the model, records of the functions that are called, and
  every definition that calls them takes the record as an argument.

  \<open>yaml\<close> and \<open>yaml_api\<close> at the end are a concrete instance over an explicit
  tree, used to evaluate the definitions on examples.
\<close>

text \<open>
  The accessors of \<^verbatim>\<open>ryml::ConstNodeRef\<close> and \<^verbatim>\<open>ryml::Tree\<close>. A tree is
  handed around as its root node; \<open>ry_child n k\<close> is \<^verbatim>\<open>n[k]\<close>, which is a node
  with \<^verbatim>\<open>invalid()\<close> when there is no such child.

  \<open>ry_parse_in_arena\<close> is the parse of a text that rapidyaml accepts. On a text that is not YAML rapidyaml
  calls its error callback, which does not return to the caller; such a run is outside the model.
\<close>

datatype NodeType_e = NT_VAL | NT_MAP | NT_SEQ

record 'n ryml =
  ry_parse_in_arena :: "string \<Rightarrow> string \<Rightarrow> 'n"
  ry_tree_empty :: "'n \<Rightarrow> bool"
  ry_id_none :: "'n \<Rightarrow> bool"
  ry_invalid :: "'n \<Rightarrow> bool"
  ry_key_is_null :: "'n \<Rightarrow> bool"
  ry_type_has_any :: "'n \<Rightarrow> NodeType_e \<Rightarrow> bool"
  ry_is_map :: "'n \<Rightarrow> bool"
  ry_is_seq :: "'n \<Rightarrow> bool"
  ry_has_val :: "'n \<Rightarrow> bool"
  ry_val :: "'n \<Rightarrow> string"
  ry_val_is_number :: "'n \<Rightarrow> bool"
  ry_has_child :: "'n \<Rightarrow> string \<Rightarrow> bool"
  ry_child :: "'n \<Rightarrow> string \<Rightarrow> 'n"
  ry_children :: "'n \<Rightarrow> 'n list"

text \<open>
  \<^verbatim>\<open>open(path, O_RDONLY)\<close>, \<^verbatim>\<open>lseek(fd, 0, SEEK_END)\<close>, \<^verbatim>\<open>mmap\<close> of
  the whole file (\<open>None\<close> is \<^verbatim>\<open>MAP_FAILED\<close>) and the page size.
\<close>

record posix_files =
  px_open :: "string \<Rightarrow> int"
  px_lseek_end :: "int \<Rightarrow> int"
  px_mmap :: "int \<Rightarrow> int \<Rightarrow> string option"
  px_page_size :: int

text \<open>
  The part of \<^verbatim>\<open>std::filesystem\<close> that looks at the disk. \<open>fs_directory_iterator\<close>
  gives the paths of the entries in the order the system lists them, \<open>None\<close> when it throws.
\<close>

record filesystem =
  fs_exists :: "string \<Rightarrow> bool"
  fs_directory_iterator :: "string \<Rightarrow> string list option"
  fs_is_regular_file :: "string \<Rightarrow> bool"
  fs_is_directory :: "string \<Rightarrow> bool"

section \<open>A concrete instance\<close>

datatype yaml =
    YNone
  | YVal string
  | YMap "(string \<times> yaml) list"
  | YSeq "yaml list"

fun y_val :: "yaml \<Rightarrow> string" where
  "y_val (YVal s) = s"
| "y_val _ = []"

fun y_is_map :: "yaml \<Rightarrow> bool" where
  "y_is_map (YMap _) = True"
| "y_is_map _ = False"

fun y_is_seq :: "yaml \<Rightarrow> bool" where
  "y_is_seq (YSeq _) = True"
| "y_is_seq _ = False"

fun y_has_val :: "yaml \<Rightarrow> bool" where
  "y_has_val (YVal _) = True"
| "y_has_val _ = False"

fun y_child :: "yaml \<Rightarrow> string \<Rightarrow> yaml" where
  "y_child (YMap m) k = (case map_of m k of Some n \<Rightarrow> n | None \<Rightarrow> YNone)"
| "y_child _ k = YNone"

fun y_children :: "yaml \<Rightarrow> yaml list" where
  "y_children (YMap m) = map snd m"
| "y_children (YSeq ns) = ns"
| "y_children _ = []"

text \<open>The parser of the instance maps the file text to the tree \<open>docs\<close> gives for it.\<close>

definition yaml_api :: "(string \<Rightarrow> yaml) \<Rightarrow> yaml ryml" where
  "yaml_api docs =
     \<lparr>ry_parse_in_arena = (\<lambda>path text. docs text),
      ry_tree_empty = (\<lambda>n. n = YNone),
      ry_id_none = (\<lambda>n. n = YNone),
      ry_invalid = (\<lambda>n. n = YNone),
      ry_key_is_null = (\<lambda>n. False),
      ry_type_has_any = (\<lambda>n t. case t of NT_VAL \<Rightarrow> y_has_val n | NT_MAP \<Rightarrow> y_is_map n | NT_SEQ \<Rightarrow> y_is_seq n),
      ry_is_map = y_is_map,
      ry_is_seq = y_is_seq,
      ry_has_val = y_has_val,
      ry_val = y_val,
      ry_val_is_number = (\<lambda>n. stoull (y_val n) 0 \<noteq> None),
      ry_has_child = (\<lambda>n k. y_child n k \<noteq> YNone),
      ry_child = y_child,
      ry_children = y_children\<rparr>"

text \<open>A file system of the instance: one descriptor per path, positions in the list.\<close>

definition files_api :: "(string \<times> string) list \<Rightarrow> posix_files" where
  "files_api fs =
     \<lparr>px_open = (\<lambda>p. if p \<in> set (map fst fs)
                      then int (length (takeWhile (\<lambda>f. fst f \<noteq> p) fs)) + 3 else - 1),
      px_lseek_end = (\<lambda>fd. int (length (snd (fs ! nat (fd - 3))))),
      px_mmap = (\<lambda>fd len. if len > 0 then Some (snd (fs ! nat (fd - 3))) else None),
      px_page_size = 4096\<rparr>"

end
