(* ===== verification/Stack_Builder.thy ===== *)
theory Stack_Builder
  imports Logic_Module Protocol_Model Yaml_Api
begin

text \<open>
  \<^verbatim>\<open>Stack\<close> and \<^verbatim>\<open>StackLayer\<close> (parser/inc/tsn/stack.h, src/stack.cpp) and
  \<^verbatim>\<open>StackBuilder\<close> (stack_builder.h, src/stack_builder.cpp): a stack YAML becomes an
  ordered chain of layers, each bound to a service of the service database and to a logic module
  of the registry, with the contexts linked to their neighbours.

  A stack's contexts sit in its layers; the store the context pointers index is
  \<open>contexts s\<close>.
\<close>

record StackLayer =
  serviceName :: string
  entityName :: string
  interfaceName :: string
  logicName :: string
  bypassLogic :: bool
  sl_logic :: LogicModule
  sl_context :: LayerContext

record Stack =
  stk_mName :: string
  mLayers :: "StackLayer list"

definition contexts :: "StackLayer list \<Rightarrow> ctx_store" where
  "contexts ls = map sl_context ls"

definition addLayer :: "StackLayer \<Rightarrow> Stack \<Rightarrow> Stack" where
  "addLayer l s = s\<lparr>mLayers := mLayers s @ [l]\<rparr>"

definition wire_layer :: "nat \<Rightarrow> StackLayer list \<Rightarrow> StackLayer list" where
  "wire_layer i ls =
     (let lower = (if i > 0 then Some (i - 1) else None);
          upper = (if i + 1 < length ls then Some (i + 1) else None);
          l = ls ! i
      in ls[i := l\<lparr>sl_context := setUpper upper (setLower lower (sl_context l))\<rparr>])"

definition wireAdjacency :: "Stack \<Rightarrow> Stack" where
  "wireAdjacency s = s\<lparr>mLayers := fold wire_layer [0..<length (mLayers s)] (mLayers s)\<rparr>"

section \<open>The builder\<close>

definition readBool :: "'n ryml \<Rightarrow> 'n \<Rightarrow> bool" where
  "readBool ry node =
     (if ry_invalid ry node \<or> \<not> ry_has_val ry node then False
      else let v = ry_val ry node in v = ''true'' \<or> v = ''1'' \<or> v = ''yes'')"

definition optional_val :: "'n ryml \<Rightarrow> 'n \<Rightarrow> string \<Rightarrow> string" where
  "optional_val ry node key =
     (if ry_has_child ry node key then ry_val ry (ry_child ry node key) else [])"

definition bypass_flag :: "'n ryml \<Rightarrow> 'n \<Rightarrow> bool" where
  "bypass_flag ry node =
     (if ry_has_child ry node ''bypass-logic''
      then readBool ry (ry_child ry node ''bypass-logic'') else False)"

text \<open>One iteration of the loop over \<^verbatim>\<open>layers:\<close>; \<open>Inl\<close> is the error code returned.\<close>

definition build_layer ::
    "'n ryml \<Rightarrow> ProtocolService Database \<Rightarrow> LogicRegistry \<Rightarrow> 'n \<Rightarrow> int + StackLayer" where
  "build_layer ry dbServices reg layerNode =
     (if \<not> ry_is_map ry layerNode \<or> \<not> ry_has_child ry layerNode ''service'' then
        Inl STACK_ERR_MISSING_KEY
      else
        let svcName = ry_val ry (ry_child ry layerNode ''service'');
            entName = optional_val ry layerNode ''entity'';
            ifName = optional_val ry layerNode ''interface'';
            bypass = bypass_flag ry layerNode
        in case getElement dbServices svcName of
             None \<Rightarrow> Inl STACK_ERR_UNKNOWN_SERVICE
           | Some svc \<Rightarrow>
               let bound = (if bypass \<or> \<not> hasLogic svc then Some PassthroughLogic
                            else registry_create reg (mLogicName svc))
               in case bound of
                    None \<Rightarrow> Inl STACK_ERR_UNKNOWN_LOGIC
                  | Some m \<Rightarrow>
                      Inr \<lparr>serviceName = svcName, entityName = entName, interfaceName = ifName,
                           logicName = mLogicName svc, bypassLogic = bypass, sl_logic = m,
                           sl_context = new_context svcName\<rparr>)"

fun build_layers ::
    "'n ryml \<Rightarrow> ProtocolService Database \<Rightarrow> LogicRegistry \<Rightarrow> 'n list \<Rightarrow> Stack \<Rightarrow> int + Stack" where
  "build_layers ry dbServices reg [] stack = Inr stack"
| "build_layers ry dbServices reg (n # ns) stack =
     (case build_layer ry dbServices reg n of
        Inl e \<Rightarrow> Inl e
      | Inr l \<Rightarrow> build_layers ry dbServices reg ns (addLayer l stack))"

text \<open>The checks on the parsed document and the loop; the result is the error code or the stack.\<close>

definition build_tree ::
    "'n ryml \<Rightarrow> ProtocolService Database \<Rightarrow> LogicRegistry \<Rightarrow> 'n \<Rightarrow> int + Stack" where
  "build_tree ry dbServices reg tree =
     (if ry_tree_empty ry tree \<or> \<not> ry_is_map ry tree then Inl STACK_ERR_INVALID_FILE
      else
        let nameNode = ry_child ry tree ''stack'' in
        if ry_invalid ry nameNode \<or> \<not> ry_has_val ry nameNode then Inl STACK_ERR_MISSING_KEY
        else
          let layersNode = ry_child ry tree ''layers'' in
          if ry_invalid ry layersNode \<or> \<not> ry_is_seq ry layersNode then Inl STACK_ERR_MISSING_KEY
          else
            (case build_layers ry dbServices reg (ry_children ry layersNode)
                    \<lparr>stk_mName = ry_val ry nameNode, mLayers = []\<rparr> of
               Inl e \<Rightarrow> Inl e
             | Inr stack \<Rightarrow> Inr (wireAdjacency stack)))"

text \<open>\<^verbatim>\<open>StackBuilder::build\<close>: the error code and the out-parameter (\<open>None\<close> is null).\<close>

definition StackBuilder_build ::
    "posix_files \<Rightarrow> 'n ryml \<Rightarrow> ProtocolService Database \<Rightarrow> LogicRegistry \<Rightarrow> string
      \<Rightarrow> int \<times> Stack option" where
  "StackBuilder_build px ry dbServices reg path =
     (let fd = px_open px path in
      if fd < 0 then (STACK_ERR_INVALID_FILE, None)
      else
        let len = px_lseek_end px fd in
        if len \<le> 0 then (STACK_ERR_INVALID_FILE, None)
        else case px_mmap px fd len of
            None \<Rightarrow> (STACK_ERR_INVALID_FILE, None)
          | Some ptr \<Rightarrow>
              (case build_tree ry dbServices reg
                      (ry_parse_in_arena ry (c_str path) (take (nat len) ptr)) of
                 Inl e \<Rightarrow> (e, None)
               | Inr stack \<Rightarrow> (STACK_SUCCESS, Some stack)))"

section \<open>Adjacency\<close>

lemma length_wire_layer [simp]: "length (wire_layer i ls) = length ls"
  by (simp add: wire_layer_def Let_def)

lemma length_fold_wire [simp]: "length (fold wire_layer is ls) = length ls"
  by (induction "is" arbitrary: ls) simp_all

definition linked :: "nat \<Rightarrow> nat \<Rightarrow> StackLayer \<Rightarrow> StackLayer" where
  "linked n i l = l\<lparr>sl_context := (sl_context l)
     \<lparr>mUpper := (if i + 1 < n then Some (i + 1) else None),
      mLower := (if i > 0 then Some (i - 1) else None)\<rparr>\<rparr>"

lemma nth_wire_layer:
  "i < length ls \<Longrightarrow> j < length ls \<Longrightarrow>
     wire_layer i ls ! j = (if j = i then linked (length ls) i (ls ! i) else ls ! j)"
  by (simp add: wire_layer_def linked_def setUpper_def setLower_def Let_def)

lemma linked_idem: "linked n i (linked n i l) = linked n i l"
  by (simp add: linked_def)

lemma nth_fold_wire:
  assumes "set is \<subseteq> {..<length ls}" and "j < length ls"
  shows "fold wire_layer is ls ! j = (if j \<in> set is then linked (length ls) j (ls ! j) else ls ! j)"
  using assms
proof (induction "is" arbitrary: ls)
  case (Cons i "is")
  then have "fold wire_layer is (wire_layer i ls) ! j =
      (if j \<in> set is then linked (length ls) j (wire_layer i ls ! j) else wire_layer i ls ! j)"
    by (subst Cons.IH) simp_all
  then show ?case
    using Cons.prems by (auto simp: nth_wire_layer linked_idem)
qed simp

lemma wireAdjacency_nth:
  "i < length (mLayers s) \<Longrightarrow> mLayers (wireAdjacency s) ! i = linked (length (mLayers s)) i (mLayers s ! i)"
  by (simp add: wireAdjacency_def nth_fold_wire atLeast0LessThan)

lemma length_wireAdjacency [simp]: "length (mLayers (wireAdjacency s)) = length (mLayers s)"
  by (simp add: wireAdjacency_def)

lemma wired_wireAdjacency: "wired (contexts (mLayers (wireAdjacency s)))"
  by (simp add: wired_def contexts_def wireAdjacency_nth linked_def)

section \<open>What a successful build guarantees\<close>

definition bound_module ::
    "ProtocolService Database \<Rightarrow> LogicRegistry \<Rightarrow> string \<Rightarrow> bool \<Rightarrow> LogicModule option" where
  "bound_module db reg svcName bypass =
     (case getElement db svcName of
        None \<Rightarrow> None
      | Some svc \<Rightarrow> if bypass \<or> mLogicName svc = [] then Some PassthroughLogic
                    else registry_create reg (mLogicName svc))"

definition layer_bound :: "ProtocolService Database \<Rightarrow> LogicRegistry \<Rightarrow> StackLayer \<Rightarrow> bool" where
  "layer_bound db reg l \<longleftrightarrow>
     getElement db (serviceName l) \<noteq> None \<and>
     bound_module db reg (serviceName l) (bypassLogic l) = Some (sl_logic l) \<and>
     mServiceName (sl_context l) = serviceName l \<and> mFields (sl_context l) = []"

lemma build_layer_Inr:
  "build_layer ry db reg n = Inr l \<Longrightarrow>
     layer_bound db reg l \<and> serviceName l = ry_val ry (ry_child ry n ''service'')"
  by (auto simp: build_layer_def layer_bound_def bound_module_def hasLogic_def new_context_def Let_def
      split: if_splits option.splits)

lemma build_layer_Inl:
  "build_layer ry db reg n = Inl e \<Longrightarrow>
     e \<in> {STACK_ERR_MISSING_KEY, STACK_ERR_UNKNOWN_SERVICE, STACK_ERR_UNKNOWN_LOGIC}"
  by (auto simp: build_layer_def Let_def split: if_splits option.splits)

lemma build_layers_Inr:
  "build_layers ry db reg ns s = Inr s' \<Longrightarrow>
     \<exists>ls. mLayers s' = mLayers s @ ls \<and> stk_mName s' = stk_mName s \<and>
          list_all2 (\<lambda>n l. build_layer ry db reg n = Inr l) ns ls"
proof (induction ns arbitrary: s)
  case (Cons n ns)
  obtain l where l: "build_layer ry db reg n = Inr l"
    using Cons.prems by (auto split: sum.splits)
  then have "build_layers ry db reg ns (addLayer l s) = Inr s'"
    using Cons.prems by simp
  from Cons.IH [OF this] l show ?case
    by (auto simp: addLayer_def)
qed simp

lemma build_layers_Inl:
  "build_layers ry db reg ns s = Inl e \<Longrightarrow> \<exists>n\<in>set ns. build_layer ry db reg n = Inl e"
  by (induction ns arbitrary: s) (auto split: sum.splits)

lemma layer_bound_linked [simp]: "layer_bound db reg (linked n i l) \<longleftrightarrow> layer_bound db reg l"
  by (simp add: layer_bound_def linked_def)

text \<open>The names and flags of the layers are those the document gives, in its order.\<close>

lemma build_tree_Inr:
  assumes "build_tree ry db reg tree = Inr s"
  shows "stk_mName s = ry_val ry (ry_child ry tree ''stack'')"
    and "map serviceName (mLayers s) =
      map (\<lambda>n. ry_val ry (ry_child ry n ''service'')) (ry_children ry (ry_child ry tree ''layers''))"
    and "list_all (layer_bound db reg) (mLayers s)"
    and "wired (contexts (mLayers s))"
proof -
  let ?ns = "ry_children ry (ry_child ry tree ''layers'')"
  obtain s0 where s0: "build_layers ry db reg ?ns
      \<lparr>stk_mName = ry_val ry (ry_child ry tree ''stack''), mLayers = []\<rparr> = Inr s0"
    and s: "s = wireAdjacency s0"
    using assms by (auto simp: build_tree_def Let_def split: if_splits sum.splits)
  from build_layers_Inr [OF s0] have name: "stk_mName s0 = ry_val ry (ry_child ry tree ''stack'')"
    and all: "list_all2 (\<lambda>n l. build_layer ry db reg n = Inr l) ?ns (mLayers s0)"
    by auto
  show "stk_mName s = ry_val ry (ry_child ry tree ''stack'')"
    by (simp add: s name wireAdjacency_def)
  show "wired (contexts (mLayers s))"
    by (simp add: s wired_wireAdjacency)
  have len: "length (mLayers s0) = length ?ns"
    using list_all2_lengthD [OF all] by simp
  have nth: "layer_bound db reg (mLayers s0 ! i)
      \<and> serviceName (mLayers s0 ! i) = ry_val ry (ry_child ry (?ns ! i) ''service'')"
    if "i < length ?ns" for i
    by (rule build_layer_Inr) (rule list_all2_nthD [OF all that])
  show "map serviceName (mLayers s) = map (\<lambda>n. ry_val ry (ry_child ry n ''service'')) ?ns"
    using nth by (intro nth_equalityI) (simp_all add: s len wireAdjacency_nth linked_def)
  show "list_all (layer_bound db reg) (mLayers s)"
    using nth by (simp add: s list_all_length len wireAdjacency_nth)
qed

lemma build_tree_Inl:
  "build_tree ry db reg tree = Inl e \<Longrightarrow>
     e \<in> {STACK_ERR_INVALID_FILE, STACK_ERR_MISSING_KEY, STACK_ERR_UNKNOWN_SERVICE, STACK_ERR_UNKNOWN_LOGIC}"
  using build_layers_Inl build_layer_Inl
  by (fastforce simp: build_tree_def Let_def split: if_splits sum.splits)

lemma build_cases:
  obtains (ok) fd ptr s where
      "fd = px_open px path" "0 \<le> fd" "0 < px_lseek_end px fd"
      "px_mmap px fd (px_lseek_end px fd) = Some ptr"
      "build_tree ry db reg (ry_parse_in_arena ry (c_str path) (take (nat (px_lseek_end px fd)) ptr)) = Inr s"
      "StackBuilder_build px ry db reg path = (STACK_SUCCESS, Some s)"
  | (error) e where "StackBuilder_build px ry db reg path = (e, None)"
      "e \<in> {STACK_ERR_INVALID_FILE, STACK_ERR_MISSING_KEY, STACK_ERR_UNKNOWN_SERVICE, STACK_ERR_UNKNOWN_LOGIC}"
proof -
  consider (failed) "px_open px path < 0 \<or> px_lseek_end px (px_open px path) \<le> 0 \<or>
      px_mmap px (px_open px path) (px_lseek_end px (px_open px path)) = None"
    | (mapped) ptr where "0 \<le> px_open px path" "0 < px_lseek_end px (px_open px path)"
      "px_mmap px (px_open px path) (px_lseek_end px (px_open px path)) = Some ptr"
    by force
  then show thesis
  proof cases
    case failed
    then show ?thesis
      by (intro error [of STACK_ERR_INVALID_FILE]) (auto simp: StackBuilder_build_def Let_def)
  next
    case mapped
    let ?t = "build_tree ry db reg (ry_parse_in_arena ry (c_str path)
      (take (nat (px_lseek_end px (px_open px path))) ptr))"
    show ?thesis
    proof (cases ?t)
      case (Inl e)
      then show ?thesis
        using mapped build_tree_Inl [OF Inl] by (intro error [of e]) (simp_all add: StackBuilder_build_def)
    next
      case (Inr s)
      then show ?thesis
        using mapped by (intro ok [of "px_open px path" ptr s]) (simp_all add: StackBuilder_build_def)
    qed
  qed
qed

section \<open>Properties\<close>

text \<open>C20: The result of building a stack: either success with a stack, in which every layer is bound
  to a known service and to the module the rules give (pass-through when bypassed or when the
  service has no logic, the registered module otherwise) and the contexts are linked to their
  neighbours; or one of the four documented errors and no stack (for a text rapidyaml does not abort on).\<close>

theorem build_result:
  "(\<exists>s. StackBuilder_build px ry db reg path = (STACK_SUCCESS, Some s) \<and>
        list_all (layer_bound db reg) (mLayers s) \<and> wired (contexts (mLayers s))) \<or>
   (\<exists>e. e \<in> {STACK_ERR_INVALID_FILE, STACK_ERR_MISSING_KEY, STACK_ERR_UNKNOWN_SERVICE, STACK_ERR_UNKNOWN_LOGIC} \<and>
        StackBuilder_build px ry db reg path = (e, None))"
proof (cases rule: build_cases [of px path ry db reg])
  case (ok fd ptr s)
  then show ?thesis
    using build_tree_Inr(3,4) [OF ok(5)] by simp
next
  case (error e)
  then show ?thesis by simp
qed

text \<open>The layers of a built stack are those of the document, in its bottom-up order.\<close>

lemma build_keeps_document_order:
  assumes "build_tree ry db reg tree = Inr s"
  shows "stk_mName s = ry_val ry (ry_child ry tree ''stack'') \<and>
    map serviceName (mLayers s) =
      map (\<lambda>n. ry_val ry (ry_child ry n ''service'')) (ry_children ry (ry_child ry tree ''layers''))"
  using build_tree_Inr(1,2) [OF assms] by simp

lemma build_keeps_document_order_example:
  "\<exists>s. build_tree (yaml_api (\<lambda>_. YNone))
      \<lparr>internalMaps = [(''a'', \<lparr>svc_mName = ''a'', mLogicName = []\<rparr>), (''b'', \<lparr>svc_mName = ''b'', mLogicName = []\<rparr>)]\<rparr>
      shipped_registry
      (YMap [(''stack'', YVal ''st''), (''layers'', YSeq [YMap [(''service'', YVal ''b'')], YMap [(''service'', YVal ''a'')]])])
      = Inr s \<and> map serviceName (mLayers s) = [''b'', ''a'']"
proof -
  let ?ry = "yaml_api (\<lambda>_. YNone)"
  let ?db = "\<lparr>internalMaps = [(''a'', \<lparr>svc_mName = ''a'', mLogicName = []\<rparr>), (''b'', \<lparr>svc_mName = ''b'', mLogicName = []\<rparr>)]\<rparr> :: ProtocolService Database"
  let ?t = "YMap [(''stack'', YVal ''st''), (''layers'', YSeq [YMap [(''service'', YVal ''b'')], YMap [(''service'', YVal ''a'')]])]"
  have "\<not> (case build_tree ?ry ?db shipped_registry ?t of Inl _ \<Rightarrow> True | Inr _ \<Rightarrow> False)"
    by code_simp
  then obtain s where s: "build_tree ?ry ?db shipped_registry ?t = Inr s"
    by (auto split: sum.splits)
  show ?thesis
    using build_keeps_document_order [OF s] s by (simp add: yaml_api_def)
qed

end
