(* ===== verification/Diagnostics.thy ===== *)
theory Diagnostics
  imports TSN_Prelude
begin

text \<open>
  The diagnostics of the library (parser/inc/tsn/log.h, src/log.cpp): the process-wide level, its two
  setters, and the stream a message of some severity is written to. \<open>gLevel\<close> is the global
  variable of log.cpp, passed in and returned. Also the version string (parser/inc/tsn/version.h).

  Levels are ordered by severity as the enumeration declares them.
\<close>

definition PROTOCOL_PARSER_VERSION :: string where
  "PROTOCOL_PARSER_VERSION = ''0.1.0''"

datatype LogLevel = Quiet | LError | Warn | Info | Debug

fun log_rank :: "LogLevel \<Rightarrow> nat" where
  "log_rank Quiet = 0"
| "log_rank LError = 1"
| "log_rank Warn = 2"
| "log_rank Info = 3"
| "log_rank Debug = 4"

lemma log_rank_inject: "log_rank a = log_rank b \<longleftrightarrow> a = b"
  by (cases a; cases b) simp_all

text \<open>The comparison \<^verbatim>\<open>static_cast<int>(lvl) > static_cast<int>(gLevel)\<close> as the order of the type.\<close>

instantiation LogLevel :: linorder
begin

definition less_eq_LogLevel :: "LogLevel \<Rightarrow> LogLevel \<Rightarrow> bool" where
  "less_eq_LogLevel a b \<longleftrightarrow> log_rank a \<le> log_rank b"

definition less_LogLevel :: "LogLevel \<Rightarrow> LogLevel \<Rightarrow> bool" where
  "less_LogLevel a b \<longleftrightarrow> log_rank a < log_rank b"

instance
  by standard (auto simp: less_eq_LogLevel_def less_LogLevel_def log_rank_inject)

end

definition initial_level :: LogLevel where
  "initial_level = Warn"

definition logLevel :: "LogLevel \<Rightarrow> LogLevel" where
  "logLevel gLevel = gLevel"

text \<open>The setter by value, and the one by name with its result; an unknown name leaves the level unchanged.\<close>

definition setLogLevel_value :: "LogLevel \<Rightarrow> LogLevel \<Rightarrow> LogLevel" where
  "setLogLevel_value lvl gLevel = lvl"

definition setLogLevel :: "string \<Rightarrow> LogLevel \<Rightarrow> bool \<times> LogLevel" where
  "setLogLevel name gLevel =
     (if name = ''quiet'' then (True, Quiet)
      else if name = ''error'' then (True, LError)
      else if name = ''warn'' then (True, Warn)
      else if name = ''info'' then (True, Info)
      else if name = ''debug'' then (True, Debug)
      else (False, gLevel))"

section \<open>Streams\<close>

text \<open>
  \<^verbatim>\<open>log\<close> returns \<^verbatim>\<open>std::cerr\<close> or the null stream, whose buffer discards
  every character and never fails.
\<close>

datatype log_stream = Cerr | NullStream

definition tsn_log :: "LogLevel \<Rightarrow> LogLevel \<Rightarrow> log_stream" where
  "tsn_log gLevel lvl = (if lvl = Quiet \<or> lvl > gLevel then NullStream else Cerr)"

text \<open>Inserting a text into a stream: what is on stderr afterwards.\<close>

fun stream_insert :: "log_stream \<Rightarrow> string \<Rightarrow> string \<Rightarrow> string" where
  "stream_insert Cerr msg err = err @ msg"
| "stream_insert NullStream msg err = err"

fun log_all :: "LogLevel \<Rightarrow> (LogLevel \<times> string) list \<Rightarrow> string \<Rightarrow> string" where
  "log_all gLevel [] err = err"
| "log_all gLevel ((lvl, msg) # ms) err = log_all gLevel ms (stream_insert (tsn_log gLevel lvl) msg err)"

text \<open>
  What reaches stderr: exactly the messages that are not more verbose than the level, in order. A
  level that is at least as verbose shows every message the other shows.
\<close>

lemma log_all_eq:
  "log_all gLevel ms err = err @ concat (map snd (filter (\<lambda>m. fst m \<noteq> Quiet \<and> fst m \<le> gLevel) ms))"
  by (induction gLevel ms err rule: log_all.induct) (simp_all add: tsn_log_def not_le)

lemma quiet_is_silent: "log_all Quiet ms err = err"
proof -
  have "filter (\<lambda>m. fst m \<noteq> Quiet \<and> fst m \<le> Quiet) ms = []"
    by (auto simp: filter_empty_conv less_eq_LogLevel_def log_rank_inject [of _ Quiet, simplified])
  then show ?thesis
    by (simp add: log_all_eq)
qed

lemma more_verbose_shows_more: "l \<le> l' \<Longrightarrow> tsn_log l lvl = Cerr \<Longrightarrow> tsn_log l' lvl = Cerr"
  by (auto simp: tsn_log_def split: if_splits)

text \<open>The names of the levels, and the setter reading them back.\<close>

fun level_name :: "LogLevel \<Rightarrow> string" where
  "level_name Quiet = ''quiet''"
| "level_name LError = ''error''"
| "level_name Warn = ''warn''"
| "level_name Info = ''info''"
| "level_name Debug = ''debug''"

lemma setLogLevel_name: "setLogLevel (level_name lvl) g = (True, setLogLevel_value lvl g)"
  by (cases lvl) (simp_all add: setLogLevel_def setLogLevel_value_def)

lemma setLogLevel_unknown:
  assumes "setLogLevel name g = (False, g')"
  shows "logLevel g' = logLevel g" and "name \<notin> range level_name"
  using assms by (auto simp: setLogLevel_name) (simp add: setLogLevel_def split: if_splits)

end
