(* ===== verification/Protocol_Parser.thy ===== *)
theory Protocol_Parser
  imports Protocol_Model Yaml_Api Diagnostics
begin

text \<open>
  \<^verbatim>\<open>Protocol\<close> (parser/inc/tsn/protocol.h, src/protocol.cpp) reads one protocol YAML
  into the three databases, \<^verbatim>\<open>ProtocolParser\<close> (protocol_parser.h,
  src/protocol_parser.cpp) walks a directory tree and feeds it every \<^verbatim>\<open>.yaml\<close> file.

  rapidyaml, the POSIX file calls and \<^verbatim>\<open>std::filesystem\<close> are the parameters of
  \<open>Yaml_Api\<close>. The directory walk recurses on directory entries, so it runs with fuel;
  \<open>walk_fuel\<close> is enough for every file system, cyclic ones included, because of the
  depth counter (theorem \<open>listProtocolFiles_fuel\<close>).
\<close>

section \<open>Protocol: one file\<close>

definition parseU64 :: "string \<Rightarrow> u64 \<Rightarrow> u64" where
  "parseU64 txt fallback = (case stoull txt 0 of Some (v, consumed) \<Rightarrow> v | None \<Rightarrow> fallback)"

definition checkNodeValidity :: "'n ryml \<Rightarrow> 'n \<Rightarrow> NodeType_e \<Rightarrow> bool \<Rightarrow> int" where
  "checkNodeValidity ry node ty checkisNumber =
     (if ry_id_none ry node then PROTOERR_INVALID_FILE
      else if ry_key_is_null ry node \<or> ry_invalid ry node then PROTOERR_INVALID_FILE
      else if \<not> ry_type_has_any ry node ty then PROTOERR_UNEXPECTED
      else if ry_val_is_number ry node \<noteq> checkisNumber then PROTOERR_UNEXPECTED
      else PROTO_SUCCESS)"

text \<open>The error code and, on success, the node the out-parameter is set to.\<close>

definition getProtocolName :: "'n ryml \<Rightarrow> 'n \<Rightarrow> int \<times> 'n option" where
  "getProtocolName ry tree =
     (let serviceNode = ry_child ry tree ''service'';
          err = checkNodeValidity ry serviceNode NT_VAL False
      in if err = 0 then (err, Some serviceNode) else (err, None))"

text \<open>
  The \<^verbatim>\<open>expected:\<close> block of a variable: \<^verbatim>\<open>values\<close>, then \<^verbatim>\<open>value\<close>,
  \<^verbatim>\<open>range\<close> (only with exactly two entries) and the first entry of \<^verbatim>\<open>mask\<close>.
\<close>

definition parse_values :: "'n ryml \<Rightarrow> 'n \<Rightarrow> u64 list" where
  "parse_values ry expectedNode =
     (if ry_has_child ry expectedNode ''values'' then
        let valuesNode = ry_child ry expectedNode ''values'' in
        if ry_is_seq ry valuesNode
        then map (\<lambda>valNode. parseU64 (ry_val ry valNode) 0) (ry_children ry valuesNode) else []
      else [])
     @ (if ry_has_child ry expectedNode ''value''
        then [parseU64 (ry_val ry (ry_child ry expectedNode ''value'')) 0] else [])"

definition parse_range :: "'n ryml \<Rightarrow> 'n \<Rightarrow> Range option" where
  "parse_range ry expectedNode =
     (if ry_has_child ry expectedNode ''range'' then
        let rangeNode = ry_child ry expectedNode ''range'' in
        if ry_is_seq ry rangeNode \<and> length (ry_children ry rangeNode) = 2 then
          let rvals = map (\<lambda>rv. parseU64 (ry_val ry rv) 0) (ry_children ry rangeNode)
          in Some \<lparr>range_min = rvals ! 0, range_max = rvals ! 1\<rparr>
        else None
      else None)"

definition parse_mask :: "'n ryml \<Rightarrow> 'n \<Rightarrow> u64" where
  "parse_mask ry expectedNode =
     (if ry_has_child ry expectedNode ''mask'' then
        let maskNode = ry_child ry expectedNode ''mask'' in
        if ry_is_seq ry maskNode then
          (case ry_children ry maskNode of
             [] \<Rightarrow> 0
           | mv # _ \<Rightarrow> parseU64 (ry_val ry mv) 0)
        else 0
      else 0)"

definition parse_var :: "'n ryml \<Rightarrow> string \<Rightarrow> 'n \<Rightarrow> Var" where
  "parse_var ry svc varItem =
     (let varName = ry_val ry (ry_child ry varItem ''var'');
          qualifiedName = svc @ ''::'' @ varName;
          width = (if ry_has_child ry varItem ''size''
                   then ucast (parseU64 (ry_val ry (ry_child ry varItem ''size'')) 0) else 0);
          expectedNode = ry_child ry varItem ''expected'';
          hasExpected = ry_has_child ry varItem ''expected''
      in \<lparr>var_mName = qualifiedName, mSize = width,
          mExpectedValues = (if hasExpected then parse_values ry expectedNode else []),
          mRange = (if hasExpected then parse_range ry expectedNode else None),
          mMask = (if hasExpected then parse_mask ry expectedNode else 0)\<rparr>)"

fun vars_loop :: "'n ryml \<Rightarrow> string \<Rightarrow> 'n list \<Rightarrow> Var Database \<Rightarrow> Var Database" where
  "vars_loop ry svc [] db = db"
| "vars_loop ry svc (varItem # items) db =
     (if \<not> ry_has_child ry varItem ''var'' then vars_loop ry svc items db
      else
        let var = parse_var ry svc varItem
        in vars_loop ry svc items (snd (addUniqueElement (var_mName var) var db)))"

definition getParsedProtocolVars :: "'n ryml \<Rightarrow> 'n \<Rightarrow> 'n \<Rightarrow> Var Database \<Rightarrow> int \<times> Var Database" where
  "getParsedProtocolVars ry tree protocolName db =
     (let svc = ry_val ry protocolName;
          varsNode = ry_child ry tree ''vars''
      in if ry_invalid ry varsNode \<or> \<not> ry_is_seq ry varsNode then (PROTO_SUCCESS, db)
         else (PROTO_SUCCESS, vars_loop ry svc (ry_children ry varsNode) db))"

fun refs_seq_loop :: "'n ryml \<Rightarrow> string \<Rightarrow> 'n list \<Rightarrow> string list \<Rightarrow> string list" where
  "refs_seq_loop ry svc [] varRefs = varRefs"
| "refs_seq_loop ry svc (refItem # items) varRefs =
     (if \<not> ry_is_map ry refItem \<or> \<not> ry_has_child ry refItem ''var_ref''
      then refs_seq_loop ry svc items varRefs
      else
        let refVal = ry_val ry (ry_child ry refItem ''var_ref'')
        in refs_seq_loop ry svc items
             (varRefs @ [if str_find refVal ''::'' 0 \<noteq> None then refVal else svc @ ''::'' @ refVal]))"

definition parse_refs :: "'n ryml \<Rightarrow> string \<Rightarrow> 'n \<Rightarrow> string list" where
  "parse_refs ry svc ifItem =
     (if ry_has_child ry ifItem ''vars'' then
        let varsRefNode = ry_child ry ifItem ''vars'' in
        if ry_is_map ry varsRefNode
        then map (\<lambda>refItem. svc @ ''::'' @ ry_val ry refItem) (ry_children ry varsRefNode)
        else if ry_is_seq ry varsRefNode then refs_seq_loop ry svc (ry_children ry varsRefNode) []
        else []
      else [])"

definition parse_interface :: "'n ryml \<Rightarrow> string \<Rightarrow> string \<Rightarrow> 'n \<Rightarrow> ProtocolInterface" where
  "parse_interface ry svc entityNm ifItem =
     (let ifName = ry_val ry (ry_child ry ifItem ''interface'');
          dir = (if ry_has_child ry ifItem ''dir''
                    \<and> ry_val ry (ry_child ry ifItem ''dir'') = ''out'' then OUT else IN)
      in \<lparr>mInterfaceName = svc @ ''::'' @ entityNm @ ''::'' @ ifName, mDirection = dir,
          mVarRefs = parse_refs ry svc ifItem\<rparr>)"

fun interfaces_loop ::
    "'n ryml \<Rightarrow> string \<Rightarrow> string \<Rightarrow> 'n list \<Rightarrow> ProtocolInterface Database \<Rightarrow> ProtocolInterface Database" where
  "interfaces_loop ry svc ent [] db = db"
| "interfaces_loop ry svc ent (ifItem # items) db =
     (if \<not> ry_is_map ry ifItem \<or> \<not> ry_has_child ry ifItem ''interface''
      then interfaces_loop ry svc ent items db
      else
        let iface = parse_interface ry svc ent ifItem
        in interfaces_loop ry svc ent items (snd (addUniqueElement (mInterfaceName iface) iface db)))"

fun entities_loop ::
    "'n ryml \<Rightarrow> string \<Rightarrow> 'n list \<Rightarrow> ProtocolInterface Database \<Rightarrow> ProtocolInterface Database" where
  "entities_loop ry svc [] db = db"
| "entities_loop ry svc (entityItem # items) db =
     (if \<not> ry_has_child ry entityItem ''entity'' \<or> \<not> ry_has_child ry entityItem ''interfaces''
      then entities_loop ry svc items db
      else
        let ent = ry_val ry (ry_child ry entityItem ''entity'');
            interfacesNode = ry_child ry entityItem ''interfaces''
        in if \<not> ry_is_seq ry interfacesNode then entities_loop ry svc items db
           else entities_loop ry svc items
                  (interfaces_loop ry svc ent (ry_children ry interfacesNode) db))"

definition getParsedProtocolInterface ::
    "'n ryml \<Rightarrow> 'n \<Rightarrow> 'n \<Rightarrow> ProtocolInterface Database \<Rightarrow> int \<times> ProtocolInterface Database" where
  "getParsedProtocolInterface ry tree protocolName db =
     (let svc = ry_val ry protocolName;
          entitiesNode = ry_child ry tree ''entities''
      in if ry_invalid ry entitiesNode \<or> \<not> ry_is_seq ry entitiesNode then (PROTO_SUCCESS, db)
         else (PROTO_SUCCESS, entities_loop ry svc (ry_children ry entitiesNode) db))"

definition getParsedProtocolService ::
    "'n ryml \<Rightarrow> 'n \<Rightarrow> 'n \<Rightarrow> ProtocolService Database \<Rightarrow> int \<times> ProtocolService Database" where
  "getParsedProtocolService ry tree protocolName db =
     (let svc = ry_val ry protocolName;
          logicNode = ry_child ry tree ''logic'';
          lname = (if \<not> ry_invalid ry logicNode \<and> ry_has_val ry logicNode
                   then ry_val ry logicNode else [])
      in (PROTO_SUCCESS, snd (addUniqueElement svc \<lparr>svc_mName = svc, mLogicName = lname\<rparr> db)))"

record parser_dbs =
  dbVars :: "Var Database"
  dbIfproto :: "ProtocolInterface Database"
  dbServices :: "ProtocolService Database"

text \<open>The part of \<^verbatim>\<open>parseProtocolFile\<close> after the document is parsed.\<close>

definition parse_tree :: "'n ryml \<Rightarrow> 'n \<Rightarrow> parser_dbs \<Rightarrow> int \<times> parser_dbs" where
  "parse_tree ry tree dbs =
     (if ry_tree_empty ry tree \<or> \<not> ry_is_map ry tree then (PROTOERR_INVALID_FILE, dbs)
      else case getProtocolName ry tree of
          (err, None) \<Rightarrow> (err, dbs)
        | (err, Some nm) \<Rightarrow>
            let (err, vs) = getParsedProtocolVars ry tree nm (dbVars dbs);
                dbs1 = dbs\<lparr>dbVars := vs\<rparr>
            in if err \<noteq> 0 then (err, dbs1)
               else
                 let (err, ifs) = getParsedProtocolInterface ry tree nm (dbIfproto dbs1);
                     dbs2 = dbs1\<lparr>dbIfproto := ifs\<rparr>
                 in if err \<noteq> 0 then (err, dbs2)
                    else
                      let (err, svcs) = getParsedProtocolService ry tree nm (dbServices dbs2)
                      in (err, dbs2\<lparr>dbServices := svcs\<rparr>))"

text \<open>
  The text rapidyaml gets is \<^verbatim>\<open>csubstr(static_cast<char *>(ptr))\<close>: it runs to the
  first NUL byte. The bytes of the last page after the end of a file are zero, so there is one,
  unless the file has none of its own and fills its last page: then the scan leaves the mapping.
\<close>

definition mapped_text :: "posix_files \<Rightarrow> int \<Rightarrow> string \<Rightarrow> string option" where
  "mapped_text px len content =
     (if CHR 0x00 \<in> set content \<or> len mod px_page_size px \<noteq> 0 then Some (c_str content) else None)"

text \<open>
  \<^verbatim>\<open>parseProtocolFile\<close> compares the result of \<^verbatim>\<open>mmap\<close> with \<^verbatim>\<open>NULL\<close>,
  which it never is: a failed mapping is used as the text, which is undefined.
\<close>

definition parseProtocolFile ::
    "posix_files \<Rightarrow> 'n ryml \<Rightarrow> string \<Rightarrow> parser_dbs \<Rightarrow> (int \<times> parser_dbs) run" where
  "parseProtocolFile px ry path dbs =
     (let fd = px_open px path in
      if fd < 0 then Returns (PROTO_SUCCESS, dbs)
      else
        let len = px_lseek_end px fd in
        if len < 0 then Returns (PROTO_SUCCESS, dbs)
        else case px_mmap px fd len of
            None \<Rightarrow> Undefined
          | Some content \<Rightarrow>
              (case mapped_text px len content of
                 None \<Rightarrow> Undefined
               | Some txt \<Rightarrow> Returns (parse_tree ry (ry_parse_in_arena ry (c_str path) txt) dbs)))"

text \<open>The text the parser hands to rapidyaml, when it gets that far.\<close>

definition parser_text :: "posix_files \<Rightarrow> string \<Rightarrow> string option" where
  "parser_text px path =
     (let fd = px_open px path; len = px_lseek_end px fd in
      if fd < 0 \<or> len < 0 then None
      else case px_mmap px fd len of None \<Rightarrow> None | Some content \<Rightarrow> mapped_text px len content)"

text \<open>The two overloads that drop some of the results into temporary databases.\<close>

definition parseProtocolFile_vars ::
    "posix_files \<Rightarrow> 'n ryml \<Rightarrow> string \<Rightarrow> Var Database \<Rightarrow> ProtocolInterface Database
      \<Rightarrow> (int \<times> Var Database \<times> ProtocolInterface Database) run" where
  "parseProtocolFile_vars px ry path vars ifproto =
     (case parseProtocolFile px ry path \<lparr>dbVars = vars, dbIfproto = ifproto, dbServices = empty_db\<rparr> of
        Returns (err, dbs) \<Rightarrow> Returns (err, dbVars dbs, dbIfproto dbs)
      | Throws \<Rightarrow> Throws
      | Undefined \<Rightarrow> Undefined)"

definition parseProtocolFile_only :: "posix_files \<Rightarrow> 'n ryml \<Rightarrow> string \<Rightarrow> int run" where
  "parseProtocolFile_only px ry path =
     (case parseProtocolFile_vars px ry path empty_db empty_db of
        Returns (err, _) \<Rightarrow> Returns err
      | Throws \<Rightarrow> Throws
      | Undefined \<Rightarrow> Undefined)"

section \<open>ProtocolParser: a directory tree\<close>

record ProtocolParser =
  mProtocolBasePath :: string
  yamlPaths :: "string list"
  mDbs :: parser_dbs
  mCurrentDepthPathListing :: int

definition MAX_CURRENT_DEPTH_PATH :: int where
  "MAX_CURRENT_DEPTH_PATH = 16"

definition empty_dbs :: parser_dbs where
  "empty_dbs = \<lparr>dbVars = empty_db, dbIfproto = empty_db, dbServices = empty_db\<rparr>"

definition new_parser :: "string \<Rightarrow> ProtocolParser" where
  "new_parser base = \<lparr>mProtocolBasePath = base, yamlPaths = [], mDbs = empty_dbs,
     mCurrentDepthPathListing = 0\<rparr>"

definition getVersion :: "ProtocolParser \<Rightarrow> string" where
  "getVersion p = PROTOCOL_PARSER_VERSION"

definition getBasePath :: "ProtocolParser \<Rightarrow> string" where
  "getBasePath p = mProtocolBasePath p"

text \<open>The two operations that are declared and not yet written: they report an unknown error.\<close>

definition parseInterfaces :: "ProtocolParser \<Rightarrow> int \<times> ProtocolParser" where
  "parseInterfaces p = (PROTOPARSERERR_UNKNOWN, p)"

definition parseVars :: "ProtocolParser \<Rightarrow> int \<times> ProtocolParser" where
  "parseVars p = (PROTOPARSERERR_UNKNOWN, p)"

text \<open>\<^verbatim>\<open>std::filesystem::path::extension\<close>.\<close>

definition path_filename :: "string \<Rightarrow> string" where
  "path_filename p = rev (takeWhile (\<lambda>c. c \<noteq> CHR ''/'') (rev p))"

definition path_extension :: "string \<Rightarrow> string" where
  "path_extension p =
     (let f = path_filename p in
      if f = ''.'' \<or> f = ''..'' then []
      else case str_rfind_all f ''.'' of
          None \<Rightarrow> []
        | Some pos \<Rightarrow> if pos = 0 then [] else drop pos f)"

definition parseProtocol ::
    "posix_files \<Rightarrow> 'n ryml \<Rightarrow> string \<Rightarrow> ProtocolParser \<Rightarrow> (int \<times> ProtocolParser) run" where
  "parseProtocol px ry path p =
     (case parseProtocolFile px ry path (mDbs p) of
        Returns (errorProto, dbs) \<Rightarrow>
          Returns (if errorProto \<noteq> 0 then errorProto else PROTOPARSER_SUCCESS, p\<lparr>mDbs := dbs\<rparr>)
      | Throws \<Rightarrow> Throws
      | Undefined \<Rightarrow> Undefined)"

text \<open>
  The loop over the entries of one directory; \<open>recurse\<close> is the call on a
  subdirectory. \<open>None\<close> is fuel that ran out.
\<close>

fun entries_loop ::
    "filesystem \<Rightarrow> posix_files \<Rightarrow> 'n ryml
      \<Rightarrow> (string \<Rightarrow> ProtocolParser \<Rightarrow> (int \<times> ProtocolParser) run option)
      \<Rightarrow> string list \<Rightarrow> int \<Rightarrow> ProtocolParser \<Rightarrow> (int \<times> ProtocolParser) run option" where
  "entries_loop fs px ry recurse [] err p = Some (Returns (err, p))"
| "entries_loop fs px ry recurse (e # es) err p =
     (if fs_is_regular_file fs e then
        if path_extension e \<noteq> ''.yaml'' then entries_loop fs px ry recurse es err p
        else
          (case parseProtocol px ry e (p\<lparr>yamlPaths := yamlPaths p @ [e]\<rparr>) of
             Returns (err', p') \<Rightarrow>
               if err' = PROTOERR_INVALID_FILE
               then entries_loop fs px ry recurse es PROTOPARSER_SUCCESS p'
               else if err' \<noteq> 0 then Some (Returns (err', p'))
               else entries_loop fs px ry recurse es err' p'
           | Throws \<Rightarrow> Some Throws
           | Undefined \<Rightarrow> Some Undefined)
      else if fs_is_directory fs e then
        let p1 = p\<lparr>mCurrentDepthPathListing := mCurrentDepthPathListing p + 1\<rparr> in
        if mCurrentDepthPathListing p1 > MAX_CURRENT_DEPTH_PATH
        then Some (Returns (PROTOPARSERERR_UNEXPECTED, p1))
        else
          (case recurse e p1 of
             None \<Rightarrow> None
           | Some (Returns (err', p2)) \<Rightarrow>
               let p3 = p2\<lparr>mCurrentDepthPathListing := mCurrentDepthPathListing p2 - 1\<rparr> in
               if err' \<noteq> 0 then Some (Returns (err', p3))
               else entries_loop fs px ry recurse es err' p3
           | Some Throws \<Rightarrow> Some Throws
           | Some Undefined \<Rightarrow> Some Undefined)
      else entries_loop fs px ry recurse es err p)"

primrec listProtocolFiles ::
    "nat \<Rightarrow> filesystem \<Rightarrow> posix_files \<Rightarrow> 'n ryml \<Rightarrow> string \<Rightarrow> ProtocolParser
      \<Rightarrow> (int \<times> ProtocolParser) run option" where
  "listProtocolFiles 0 fs px ry path p = None"
| "listProtocolFiles (Suc fuel) fs px ry path p =
     (case fs_directory_iterator fs path of
        None \<Rightarrow> Some Throws
      | Some es \<Rightarrow> entries_loop fs px ry (listProtocolFiles fuel fs px ry) es PROTOPARSER_SUCCESS p)"

definition walk_fuel :: nat where
  "walk_fuel = 17"

definition ProtocolParser_parse ::
    "filesystem \<Rightarrow> posix_files \<Rightarrow> 'n ryml \<Rightarrow> ProtocolParser \<Rightarrow> (int \<times> ProtocolParser) run option" where
  "ProtocolParser_parse fs px ry p =
     (if \<not> fs_exists fs (mProtocolBasePath p) then Some (Returns (PROTOPARSERERR_INVALID_INPUT, p))
      else case listProtocolFiles walk_fuel fs px ry (mProtocolBasePath p) p of
          None \<Rightarrow> None
        | Some Throws \<Rightarrow> Some Throws
        | Some Undefined \<Rightarrow> Some Undefined
        | Some (Returns (err, p')) \<Rightarrow>
            if err \<noteq> 0 then Some (Returns (err, p'))
            else if length (yamlPaths p') = 0 then Some (Returns (PROTOPARSERERR_INVALID_INPUT, p'))
            else if db_size (dbServices (mDbs p')) = 0
              then Some (Returns (PROTOPARSERERR_INVALID_INPUT, p'))
            else Some (Returns (err, p')))"

section \<open>Databases only grow\<close>

text \<open>
  \<open>keyed\<close>: the invariant of a database whose elements are stored under their own name.
  \<open>grows\<close>: an update keeps the invariant and every element already there.
\<close>

definition keyed :: "('a \<Rightarrow> string) \<Rightarrow> 'a Database \<Rightarrow> bool" where
  "keyed nm d \<longleftrightarrow> db_inv d \<and> (\<forall>k v. getElement d k = Some v \<longrightarrow> nm v = k)"

definition grows :: "('a \<Rightarrow> string) \<Rightarrow> 'a Database \<Rightarrow> 'a Database \<Rightarrow> bool" where
  "grows nm d d' \<longleftrightarrow> (keyed nm d \<longrightarrow> keyed nm d') \<and>
     (\<forall>k v. getElement d k = Some v \<longrightarrow> getElement d' k = Some v)"

lemma grows_refl [simp]: "grows nm d d"
  by (simp add: grows_def)

lemma grows_trans: "grows nm d e \<Longrightarrow> grows nm e f \<Longrightarrow> grows nm d f"
  by (simp add: grows_def)

lemma grows_add: "grows nm d (snd (addUniqueElement (nm x) x d))"
  by (auto simp: grows_def keyed_def addUniqueElement_inv db_simps split: if_splits)

lemma vars_loop_grows: "grows var_mName db (vars_loop ry svc items db)"
  by (induction ry svc items db rule: vars_loop.induct)
    (auto simp: Let_def intro: grows_trans [OF grows_add])

lemma interfaces_loop_grows: "grows mInterfaceName db (interfaces_loop ry svc ent items db)"
  by (induction ry svc ent items db rule: interfaces_loop.induct)
    (auto simp: Let_def intro: grows_trans [OF grows_add])

lemma entities_loop_grows: "grows mInterfaceName db (entities_loop ry svc items db)"
proof (induction items arbitrary: db)
  case (Cons x items)
  then show ?case
    by (auto simp: Let_def intro: grows_trans [OF interfaces_loop_grows Cons.IH])
qed simp

definition dbs_keyed :: "parser_dbs \<Rightarrow> bool" where
  "dbs_keyed dbs \<longleftrightarrow> keyed var_mName (dbVars dbs) \<and> keyed mInterfaceName (dbIfproto dbs) \<and>
     keyed svc_mName (dbServices dbs)"

definition dbs_grow :: "parser_dbs \<Rightarrow> parser_dbs \<Rightarrow> bool" where
  "dbs_grow a b \<longleftrightarrow> grows var_mName (dbVars a) (dbVars b) \<and>
     grows mInterfaceName (dbIfproto a) (dbIfproto b) \<and> grows svc_mName (dbServices a) (dbServices b)"

lemma dbs_grow_refl [simp]: "dbs_grow a a"
  by (simp add: dbs_grow_def)

lemma dbs_grow_trans: "dbs_grow a b \<Longrightarrow> dbs_grow b c \<Longrightarrow> dbs_grow a c"
  unfolding dbs_grow_def by (blast intro: grows_trans)

lemma dbs_grow_keyed: "dbs_grow a b \<Longrightarrow> dbs_keyed a \<Longrightarrow> dbs_keyed b"
  by (simp add: dbs_grow_def dbs_keyed_def grows_def)

lemma dbs_keyed_empty: "dbs_keyed empty_dbs"
  by (simp add: dbs_keyed_def empty_dbs_def keyed_def)

lemma getParsedProtocolVars_ok:
  "fst (getParsedProtocolVars ry tree nm db) = PROTO_SUCCESS \<and>
   grows var_mName db (snd (getParsedProtocolVars ry tree nm db))"
  by (simp add: getParsedProtocolVars_def Let_def vars_loop_grows)

lemma getParsedProtocolInterface_ok:
  "fst (getParsedProtocolInterface ry tree nm db) = PROTO_SUCCESS \<and>
   grows mInterfaceName db (snd (getParsedProtocolInterface ry tree nm db))"
  by (simp add: getParsedProtocolInterface_def Let_def entities_loop_grows)

lemma getParsedProtocolService_ok:
  "fst (getParsedProtocolService ry tree nm db) = PROTO_SUCCESS \<and>
   grows svc_mName db (snd (getParsedProtocolService ry tree nm db))"
proof -
  have "grows svc_mName db (snd (addUniqueElement s \<lparr>svc_mName = s, mLogicName = l\<rparr> db))" for s l
    using grows_add [of svc_mName db "\<lparr>svc_mName = s, mLogicName = l\<rparr>"] by simp
  then show ?thesis
    by (simp add: getParsedProtocolService_def Let_def)
qed

lemma getProtocolName_cases:
  obtains (found) "getProtocolName ry tree = (PROTO_SUCCESS, Some (ry_child ry tree ''service''))"
  | (bad) e where "getProtocolName ry tree = (e, None)" "e \<in> {PROTOERR_INVALID_FILE, PROTOERR_UNEXPECTED}"
proof (cases "checkNodeValidity ry (ry_child ry tree ''service'') NT_VAL False = 0")
  case True
  then show ?thesis
    by (intro found) (simp add: getProtocolName_def Let_def PROTO_SUCCESS_def)
next
  case False
  then show ?thesis
    by (intro bad [of "checkNodeValidity ry (ry_child ry tree ''service'') NT_VAL False"])
      (auto simp: getProtocolName_def Let_def checkNodeValidity_def proto_codes split: if_splits)
qed

text \<open>
  A document is rejected as a whole, with all databases untouched, or it is loaded and its
  service is in the service database.
\<close>

lemma parse_tree_cases:
  obtains (rejected) e where "parse_tree ry tree dbs = (e, dbs)"
      "e \<in> {PROTOERR_INVALID_FILE, PROTOERR_UNEXPECTED}"
  | (loaded) dbs' where "parse_tree ry tree dbs = (PROTO_SUCCESS, dbs')" "dbs_grow dbs dbs'"
      "ry_val ry (ry_child ry tree ''service'') \<noteq> [] \<Longrightarrow>
        getElement (dbServices dbs') (ry_val ry (ry_child ry tree ''service'')) \<noteq> None"
proof (cases "ry_tree_empty ry tree \<or> \<not> ry_is_map ry tree")
  case True
  then show ?thesis
    by (intro rejected [of PROTOERR_INVALID_FILE]) (auto simp: parse_tree_def)
next
  case False
  show ?thesis
  proof (cases rule: getProtocolName_cases [of ry tree])
    case found
    let ?nm = "ry_child ry tree ''service''"
    let ?v = "snd (getParsedProtocolVars ry tree ?nm (dbVars dbs))"
    let ?i = "snd (getParsedProtocolInterface ry tree ?nm (dbIfproto dbs))"
    let ?s = "snd (getParsedProtocolService ry tree ?nm (dbServices dbs))"
    let ?dbs = "dbs\<lparr>dbVars := ?v, dbIfproto := ?i, dbServices := ?s\<rparr>"
    note oks = getParsedProtocolVars_ok [of ry tree ?nm] getParsedProtocolInterface_ok [of ry tree ?nm]
      getParsedProtocolService_ok [of ry tree ?nm]
    have "parse_tree ry tree dbs = (PROTO_SUCCESS, ?dbs)"
      using False found oks by (simp add: parse_tree_def Let_def split_beta PROTO_SUCCESS_def)
    moreover have "dbs_grow dbs ?dbs"
      using oks by (simp add: dbs_grow_def)
    moreover have "getElement (dbServices ?dbs) (ry_val ry ?nm) \<noteq> None" if "ry_val ry ?nm \<noteq> []"
      using that by (simp add: getParsedProtocolService_def Let_def db_simps)
    ultimately show ?thesis
      by (rule loaded)
  next
    case (bad e)
    then show ?thesis
      using False by (intro rejected [of e]) (simp_all add: parse_tree_def)
  qed
qed

lemma parse_tree_grows: "parse_tree ry tree dbs = (e, dbs') \<Longrightarrow> dbs_grow dbs dbs'"
  by (cases rule: parse_tree_cases [of ry tree dbs]) simp_all

lemma parseProtocolFile_grows:
  "parseProtocolFile px ry path dbs = Returns (e, dbs') \<Longrightarrow> dbs_grow dbs dbs'"
  by (auto simp: parseProtocolFile_def Let_def split: if_splits option.splits dest: parse_tree_grows)

lemma parseProtocolFile_text:
  assumes "parseProtocolFile px ry path dbs = Returns (e, dbs')"
  shows "case parser_text px path of
      None \<Rightarrow> e = PROTO_SUCCESS \<and> dbs' = dbs
    | Some txt \<Rightarrow> (e, dbs') = parse_tree ry (ry_parse_in_arena ry (c_str path) txt) dbs"
  using assms by (auto simp: parseProtocolFile_def parser_text_def Let_def split: if_splits option.splits)

section \<open>The walk ends and only grows the databases\<close>

lemma parseProtocol_frame:
  assumes "parseProtocol px ry path p = Returns (e, p')"
  shows "dbs_grow (mDbs p) (mDbs p')" "mCurrentDepthPathListing p' = mCurrentDepthPathListing p"
    "yamlPaths p' = yamlPaths p"
  using assms parseProtocolFile_grows
  by (auto simp: parseProtocol_def split: run.splits prod.splits)

text \<open>What a call on a directory guarantees of its result.\<close>

definition walk_ok :: "ProtocolParser \<Rightarrow> (int \<times> ProtocolParser) run option \<Rightarrow> bool" where
  "walk_ok p r \<longleftrightarrow> r \<noteq> None \<and> (\<forall>e p'. r = Some (Returns (e, p')) \<longrightarrow>
     dbs_grow (mDbs p) (mDbs p') \<and>
     mCurrentDepthPathListing p \<le> mCurrentDepthPathListing p' \<and>
     (e = 0 \<longrightarrow> mCurrentDepthPathListing p' = mCurrentDepthPathListing p))"

lemma walk_ok_step:
  assumes "walk_ok p' r" and "dbs_grow (mDbs p) (mDbs p')"
    and "mCurrentDepthPathListing p' = mCurrentDepthPathListing p"
  shows "walk_ok p r"
  using assms by (auto simp: walk_ok_def intro: dbs_grow_trans)

lemma walk_ok_run [simp]:
  "walk_ok p (Some Throws)" "walk_ok p (Some Undefined)" "walk_ok p (Some (Returns (e, p)))"
  by (simp_all add: walk_ok_def)

lemma entries_loop_file:
  assumes IH: "\<And>e q. mCurrentDepthPathListing q = mCurrentDepthPathListing p \<Longrightarrow> walk_ok q (entries_loop fs px ry recurse es e q)"
    and "fs_is_regular_file fs x"
  shows "walk_ok p (entries_loop fs px ry recurse (x # es) err p)"
proof (cases "path_extension x = ''.yaml''")
  case True
  let ?p = "p\<lparr>yamlPaths := yamlPaths p @ [x]\<rparr>"
  show ?thesis
  proof (cases "parseProtocol px ry x ?p")
    case (Returns ep)
    obtain e p' where ep: "ep = (e, p')" by (cases ep)
    have grow: "dbs_grow (mDbs p) (mDbs p')" "mCurrentDepthPathListing p' = mCurrentDepthPathListing p"
      using parseProtocol_frame [OF Returns [unfolded ep]] by simp_all
    have "walk_ok p (Some (Returns (e, p')))"
      by (rule walk_ok_step [OF walk_ok_run(3) grow])
    then show ?thesis
      using True assms(2) Returns ep walk_ok_step [OF IH [OF grow(2)] grow] by simp
  qed (use True assms(2) in simp_all)
qed (use assms in simp)

lemma entries_loop_dir:
  assumes IH: "\<And>e p. mCurrentDepthPathListing p = d \<Longrightarrow> walk_ok p (entries_loop fs px ry recurse es e p)"
    and rec: "\<And>x p. mCurrentDepthPathListing p = d + 1 \<Longrightarrow> d + 1 \<le> MAX_CURRENT_DEPTH_PATH \<Longrightarrow> walk_ok p (recurse x p)"
    and "\<not> fs_is_regular_file fs x" and "fs_is_directory fs x" and d: "mCurrentDepthPathListing p = d"
  shows "walk_ok p (entries_loop fs px ry recurse (x # es) err p)"
proof (cases "d + 1 \<le> MAX_CURRENT_DEPTH_PATH")
  case False
  then show ?thesis
    using assms(3-5) by (simp add: walk_ok_def PROTOPARSERERR_UNEXPECTED_def)
next
  case True
  let ?p = "p\<lparr>mCurrentDepthPathListing := d + 1\<rparr>"
  have ok: "walk_ok ?p (recurse x ?p)"
    by (rule rec) (simp_all add: True)
  then obtain r where r: "recurse x ?p = Some r"
    by (auto simp: walk_ok_def)
  show ?thesis
  proof (cases r)
    case (Returns ep)
    obtain e p2 where ep: "ep = (e, p2)" by (cases ep)
    let ?p3 = "p2\<lparr>mCurrentDepthPathListing := mCurrentDepthPathListing p2 - 1\<rparr>"
    have grow: "dbs_grow (mDbs p) (mDbs ?p3)" "d \<le> mCurrentDepthPathListing ?p3"
        "e = 0 \<Longrightarrow> mCurrentDepthPathListing ?p3 = d"
      using ok r Returns ep by (auto simp: walk_ok_def)
    have loop: "entries_loop fs px ry recurse (x # es) err p =
        (if e \<noteq> 0 then Some (Returns (e, ?p3)) else entries_loop fs px ry recurse es e ?p3)"
      using assms(3,4) d r Returns ep True by simp
    show ?thesis
    proof (cases "e = 0")
      case True
      then show ?thesis
        unfolding loop using walk_ok_step [OF IH [of ?p3 e] grow(1)] grow d by simp
    next
      case False
      then show ?thesis
        unfolding loop using grow d by (simp add: walk_ok_def)
    qed
  qed (use assms(3,4) d r True in simp_all)
qed

lemma entries_loop_ok:
  assumes "\<And>x p. mCurrentDepthPathListing p = d + 1 \<Longrightarrow> d + 1 \<le> MAX_CURRENT_DEPTH_PATH \<Longrightarrow> walk_ok p (recurse x p)"
    and "mCurrentDepthPathListing p = d"
  shows "walk_ok p (entries_loop fs px ry recurse es err p)"
  using assms(2)
proof (induction es arbitrary: err p)
  case (Cons x es)
  consider (reg) "fs_is_regular_file fs x"
    | (dir) "\<not> fs_is_regular_file fs x" "fs_is_directory fs x"
    | (other) "\<not> fs_is_regular_file fs x" "\<not> fs_is_directory fs x" by blast
  then show ?case
  proof cases
    case dir
    then show ?thesis
      using Cons by (intro entries_loop_dir [where d = d] assms(1)) auto
  next
    case reg
    then show ?thesis
      using Cons by (intro entries_loop_file) simp_all
  next
    case other
    with Cons show ?thesis by simp
  qed
qed simp

text \<open>
  The walk returns on every file system: the depth counter bounds the recursion, so a directory
  that contains itself is reported, not followed forever.
\<close>

lemma listProtocolFiles_fuel:
  "MAX_CURRENT_DEPTH_PATH - mCurrentDepthPathListing p < int fuel \<Longrightarrow> 0 < fuel \<Longrightarrow>
     walk_ok p (listProtocolFiles fuel fs px ry path p)"
proof (induction fuel arbitrary: path p)
  case (Suc fuel)
  show ?case
  proof (cases "fs_directory_iterator fs path")
    case (Some es)
    have "walk_ok q (listProtocolFiles fuel fs px ry x q)"
      if "mCurrentDepthPathListing q = mCurrentDepthPathListing p + 1"
        "mCurrentDepthPathListing p + 1 \<le> MAX_CURRENT_DEPTH_PATH" for x q
      using that Suc.prems by (intro Suc.IH) (auto simp: MAX_CURRENT_DEPTH_PATH_def)
    then have "walk_ok p (entries_loop fs px ry (listProtocolFiles fuel fs px ry) es PROTOPARSER_SUCCESS p)"
      by (intro entries_loop_ok [where d = "mCurrentDepthPathListing p"]) simp_all
    with Some show ?thesis
      by simp
  qed simp
qed simp

text \<open>
  Invariants of the walk: what every parsed file and every change of the depth counter keeps, the
  whole walk keeps; the codes it returns are those of the parsed files, success and the depth error.
  \<open>F\<close> is any property of paths that holds of the start and goes from a directory to its entries.
\<close>

lemma entries_loop_preserves:
  assumes parsed: "\<And>path p e p'. F path \<Longrightarrow> fs_is_regular_file fs path \<Longrightarrow> path_extension path = ''.yaml'' \<Longrightarrow>
        parseProtocol px ry path (p\<lparr>yamlPaths := yamlPaths p @ [path]\<rparr>) = Returns (e, p') \<Longrightarrow> I p \<Longrightarrow> I p' \<and> E e"
    and depth: "\<And>p k. I p \<Longrightarrow> I (p\<lparr>mCurrentDepthPathListing := k\<rparr>)"
    and codes: "E 0" "E PROTOPARSERERR_UNEXPECTED"
    and rec: "\<And>x q e p'. F x \<Longrightarrow> recurse x q = Some (Returns (e, p')) \<Longrightarrow> I q \<Longrightarrow> I p' \<and> E e"
  shows "entries_loop fs px ry recurse es err q = Some (Returns (e, p')) \<Longrightarrow> list_all F es \<Longrightarrow> I q \<Longrightarrow> E err \<Longrightarrow>
    I p' \<and> E e"
proof (induction es arbitrary: err q)
  case (Cons x es)
  have x: "F x" "list_all F es"
    using Cons.prems(2) by simp_all
  consider (yaml) "fs_is_regular_file fs x" "path_extension x = ''.yaml''"
    | (dir) "\<not> fs_is_regular_file fs x" "fs_is_directory fs x"
    | (skip) "entries_loop fs px ry recurse (x # es) err q = entries_loop fs px ry recurse es err q"
    by (cases "fs_is_regular_file fs x"; cases "path_extension x = ''.yaml''"; cases "fs_is_directory fs x") simp_all
  then show ?case
  proof cases
    case yaml
    obtain e1 q1 where q1: "parseProtocol px ry x (q\<lparr>yamlPaths := yamlPaths q @ [x]\<rparr>) = Returns (e1, q1)"
      using Cons.prems(1) yaml by (cases "parseProtocol px ry x (q\<lparr>yamlPaths := yamlPaths q @ [x]\<rparr>)") auto
    have "I q1" "E e1"
      using parsed [OF x(1) yaml q1 Cons.prems(3)] by simp_all
    then show ?thesis
      using Cons.IH [of _ q1, OF _ x(2)] Cons.prems(1) yaml q1 codes(1) by (auto simp: PROTOPARSER_SUCCESS_def split: if_splits)
  next
    case dir
    let ?q = "q\<lparr>mCurrentDepthPathListing := mCurrentDepthPathListing q + 1\<rparr>"
    show ?thesis
    proof (cases "mCurrentDepthPathListing ?q > MAX_CURRENT_DEPTH_PATH")
      case True
      then show ?thesis
        using Cons.prems dir codes(2) depth by auto
    next
      case False
      obtain e1 q1 where q1: "recurse x ?q = Some (Returns (e1, q1))"
        using Cons.prems(1) dir False by (cases "recurse x ?q"; cases "the (recurse x ?q)") auto
      have "I q1" "E e1"
        using rec [OF x(1) q1] depth [OF Cons.prems(3)] by simp_all
      then show ?thesis
        using Cons.IH [OF _ x(2) depth [of q1]] Cons.prems(1) dir False q1 depth by (auto simp: Let_def split: if_splits)
    qed
  next
    case skip
    then show ?thesis
      using Cons.IH [OF _ x(2) Cons.prems(3,4)] Cons.prems(1) by simp
  qed
qed simp

lemma walk_preserves_on:
  assumes "\<And>path p e p'. F path \<Longrightarrow> fs_is_regular_file fs path \<Longrightarrow> path_extension path = ''.yaml'' \<Longrightarrow>
      parseProtocol px ry path (p\<lparr>yamlPaths := yamlPaths p @ [path]\<rparr>) = Returns (e, p') \<Longrightarrow> I p \<Longrightarrow> I p' \<and> E e"
    and "\<And>p k. I p \<Longrightarrow> I (p\<lparr>mCurrentDepthPathListing := k\<rparr>)" and "E 0" and "E PROTOPARSERERR_UNEXPECTED"
    and "\<And>d es. F d \<Longrightarrow> fs_directory_iterator fs d = Some es \<Longrightarrow> list_all F es"
  shows "listProtocolFiles fuel fs px ry path p = Some (Returns (e, p')) \<Longrightarrow> F path \<Longrightarrow> I p \<Longrightarrow> I p' \<and> E e"
proof (induction fuel arbitrary: path p e p')
  case (Suc fuel)
  obtain es where loop: "entries_loop fs px ry (listProtocolFiles fuel fs px ry) es 0 p = Some (Returns (e, p'))"
      and es: "fs_directory_iterator fs path = Some es"
    using Suc.prems(1) by (cases "fs_directory_iterator fs path") (simp_all add: PROTOPARSER_SUCCESS_def)
  show ?case
    by (rule entries_loop_preserves [of F fs px ry I E, OF assms(1,2,3,4) Suc.IH loop assms(5) [OF Suc.prems(2) es] Suc.prems(3) assms(3)])
qed simp

lemma walk_preserves:
  assumes "\<And>path p e p'. parseProtocol px ry path (p\<lparr>yamlPaths := yamlPaths p @ [path]\<rparr>) = Returns (e, p') \<Longrightarrow> I p \<Longrightarrow> I p' \<and> E e"
    and "\<And>p k. I p \<Longrightarrow> I (p\<lparr>mCurrentDepthPathListing := k\<rparr>)" and "E 0" and "E PROTOPARSERERR_UNEXPECTED"
    and "listProtocolFiles fuel fs px ry path p = Some (Returns (e, p'))" and "I p"
  shows "I p' \<and> E e"
  by (rule walk_preserves_on [where F = "\<lambda>_. True" and I = I and E = E, OF assms(1,2,3,4) _ assms(5) _ assms(6)])
    (simp_all add: list_all_iff)

text \<open>Every code the parser returns has a message, although two codes of its class have none.\<close>

lemma parseProtocolFile_code:
  assumes "parseProtocolFile px ry path dbs = Returns (e, dbs')"
  shows "e \<in> {PROTO_SUCCESS .. PROTOERR_UNEXPECTED}"
proof -
  have "fst (parse_tree ry tree dbs) \<in> {PROTO_SUCCESS .. PROTOERR_UNEXPECTED}" for tree
    by (cases rule: parse_tree_cases [of ry tree dbs]) (auto simp: proto_codes)
  then show ?thesis
    using assms by (auto simp: parseProtocolFile_def Let_def proto_codes split: if_splits option.splits) (metis fst_conv)+
qed

lemma parseProtocol_code:
  assumes "parseProtocol px ry path p = Returns (e, p')"
  shows "e \<in> {PROTOPARSER_SUCCESS .. PROTOPARSERERR_UNEXPECTED}"
  using assms parseProtocolFile_code [of px ry path "mDbs p"]
  by (force simp: parseProtocol_def protoparser_codes proto_codes split: run.splits prod.splits if_splits)

lemma ProtocolParser_parse_code:
  assumes "ProtocolParser_parse fs px ry p = Some (Returns (e, p'))"
  shows "e \<in> {PROTOPARSER_SUCCESS .. PROTOPARSERERR_UNEXPECTED}"
proof -
  have "err \<in> {PROTOPARSER_SUCCESS .. PROTOPARSERERR_UNEXPECTED}"
    if "listProtocolFiles walk_fuel fs px ry (mProtocolBasePath p) p = Some (Returns (err, q))" for err q
    using walk_preserves [where I = "\<lambda>_. True" and E = "\<lambda>e. e \<in> {PROTOPARSER_SUCCESS .. PROTOPARSERERR_UNEXPECTED}", OF _ _ _ _ that]
      parseProtocol_code [of px ry] by (force simp: protoparser_codes)
  then show ?thesis
    using assms by (auto simp: ProtocolParser_parse_def protoparser_codes split: if_splits option.splits run.splits prod.splits)
qed

section \<open>Properties\<close>

text \<open>C21: Parsing a protocol directory always comes to an end, whatever the file system looks like, a
  directory that reaches itself included: the depth counter bounds the recursion to the fuel the
  model gives it. It holds from any non-negative depth, so also for a parser that is used again.\<close>

theorem parser_walk_terminates:
  assumes "0 \<le> mCurrentDepthPathListing p"
  shows "ProtocolParser_parse fs px ry p \<noteq> None"
proof -
  have "listProtocolFiles walk_fuel fs px ry (mProtocolBasePath p) p \<noteq> None"
    using listProtocolFiles_fuel [of p walk_fuel fs px ry "mProtocolBasePath p"] assms
    by (simp add: walk_ok_def walk_fuel_def MAX_CURRENT_DEPTH_PATH_def)
  then show ?thesis
    by (auto simp: ProtocolParser_parse_def split: run.splits)
qed

theorem parser_walk_terminates_witness:
  "0 \<le> mCurrentDepthPathListing (new_parser ''d'') \<and>
   ProtocolParser_parse
     \<lparr>fs_exists = (\<lambda>_. True), fs_directory_iterator = (\<lambda>_. Some [''d'']),
      fs_is_regular_file = (\<lambda>_. False), fs_is_directory = (\<lambda>_. True)\<rparr>
     (files_api []) (yaml_api (\<lambda>_. YNone)) (new_parser ''d'') \<noteq> None"
proof -
  have d: "0 \<le> mCurrentDepthPathListing (new_parser ''d'')"
    by (simp add: new_parser_def)
  show ?thesis
    by (intro conjI d parser_walk_terminates [OF d])
qed

text \<open>Parsing keeps the databases well-formed (sorted unique non-empty keys, every element stored
  under its own qualified name) and never changes or removes an element that is already there:
  across all files the first definition of a name wins.\<close>

lemma parser_only_adds_definitions:
  assumes "ProtocolParser_parse fs px ry p = Some (Returns (e, p'))"
    and "0 \<le> mCurrentDepthPathListing p" and "dbs_keyed (mDbs p)"
  shows "dbs_keyed (mDbs p') \<and>
    (\<forall>k v. getElement (dbVars (mDbs p)) k = Some v \<longrightarrow> getElement (dbVars (mDbs p')) k = Some v) \<and>
    (\<forall>k v. getElement (dbIfproto (mDbs p)) k = Some v \<longrightarrow> getElement (dbIfproto (mDbs p')) k = Some v) \<and>
    (\<forall>k v. getElement (dbServices (mDbs p)) k = Some v \<longrightarrow> getElement (dbServices (mDbs p')) k = Some v)"
proof -
  have "walk_ok p (listProtocolFiles walk_fuel fs px ry (mProtocolBasePath p) p)"
    using assms(2) by (intro listProtocolFiles_fuel) (simp_all add: walk_fuel_def MAX_CURRENT_DEPTH_PATH_def)
  then have "dbs_grow (mDbs p) (mDbs p')"
    using assms(1)
    by (auto simp: ProtocolParser_parse_def walk_ok_def split: if_splits option.splits run.splits)
  then show ?thesis
    using dbs_grow_keyed assms(3) by (auto simp: dbs_grow_def grows_def)
qed

text \<open>A successful parse has seen at least one YAML file and holds at least one service; otherwise
  an error code is returned.\<close>

lemma parser_success_has_service:
  assumes "ProtocolParser_parse fs px ry p = Some (Returns (PROTOPARSER_SUCCESS, p'))"
  shows "yamlPaths p' \<noteq> [] \<and> internalMaps (dbServices (mDbs p')) \<noteq> []"
  using assms
  by (auto simp: ProtocolParser_parse_def protoparser_codes db_size_def split: if_splits option.splits run.splits)

definition ex_fs :: filesystem where
  "ex_fs = \<lparr>fs_exists = (\<lambda>p. p = ''d''),
     fs_directory_iterator = (\<lambda>p. if p = ''d'' then Some [''d/readme.md'', ''d/a.yaml''] else None),
     fs_is_regular_file = (\<lambda>p. p \<noteq> ''d''), fs_is_directory = (\<lambda>p. p = ''d'')\<rparr>"

definition ex_parse :: "(int \<times> ProtocolParser) run option" where
  "ex_parse = ProtocolParser_parse ex_fs (files_api [(''d/a.yaml'', ''doc'')])
     (yaml_api (\<lambda>_. YMap [(''service'', YVal ''svc''),
        (''vars'', YSeq [YMap [(''var'', YVal ''x''), (''size'', YVal ''0x10'')]])]))
     (new_parser ''d'')"

definition ex_parsed :: ProtocolParser where
  "ex_parsed = (case ex_parse of Some (Returns (e, p)) \<Rightarrow> p | _ \<Rightarrow> new_parser ''d'')"

lemma ex_parse_ok: "ex_parse = Some (Returns (PROTOPARSER_SUCCESS, ex_parsed))"
  by code_simp

lemma parser_only_adds_definitions_example:
  "ex_parse = Some (Returns (PROTOPARSER_SUCCESS, ex_parsed)) \<and> dbs_keyed (mDbs ex_parsed)"
  using parser_only_adds_definitions [OF ex_parse_ok [unfolded ex_parse_def]] ex_parse_ok dbs_keyed_empty
  by (simp add: new_parser_def)

lemma parser_success_has_service_example:
  "ex_parse = Some (Returns (PROTOPARSER_SUCCESS, ex_parsed)) \<and> yamlPaths ex_parsed \<noteq> []"
  using parser_success_has_service [OF ex_parse_ok [unfolded ex_parse_def]] ex_parse_ok by simp

text \<open>A document is loaded as a whole or not at all: when its root or its \<^verbatim>\<open>service\<close> key is not
  acceptable an error is returned and no database changes; otherwise the result is success and
  the service is in the service database (unless its name is empty, which the database refuses).\<close>

lemma parse_tree_all_or_nothing:
  "(fst (parse_tree ry tree dbs) \<in> {PROTOERR_INVALID_FILE, PROTOERR_UNEXPECTED} \<and>
      snd (parse_tree ry tree dbs) = dbs) \<or>
   (fst (parse_tree ry tree dbs) = PROTO_SUCCESS \<and>
      (ry_val ry (ry_child ry tree ''service'') = [] \<or>
       getElement (dbServices (snd (parse_tree ry tree dbs))) (ry_val ry (ry_child ry tree ''service'')) \<noteq> None))"
  by (cases rule: parse_tree_cases [of ry tree dbs]) auto

text \<open>A file that cannot be opened or measured is reported as success and changes nothing; an empty
  file, for which \<^verbatim>\<open>mmap\<close> fails as documented, is used through the failed mapping.\<close>

lemma unreadable_file_is_success:
  "(px_open px path < 0 \<longrightarrow> parseProtocolFile px ry path dbs = Returns (PROTO_SUCCESS, dbs)) \<and>
   (px_open px path \<ge> 0 \<longrightarrow> px_lseek_end px (px_open px path) = 0 \<longrightarrow>
      px_mmap px (px_open px path) 0 = None \<longrightarrow> parseProtocolFile px ry path dbs = Undefined)"
  by (simp add: parseProtocolFile_def)

lemma unreadable_file_is_success_example:
  "parseProtocolFile (files_api []) (yaml_api (\<lambda>_. YNone)) ''x'' empty_dbs = Returns (PROTO_SUCCESS, empty_dbs) \<and>
   parseProtocolFile (files_api [(''e'', [])]) (yaml_api (\<lambda>_. YNone)) ''e'' empty_dbs = Undefined"
  using unreadable_file_is_success [of "files_api []" "''x''" "yaml_api (\<lambda>_. YNone)" empty_dbs]
    unreadable_file_is_success [of "files_api [(''e'', [])]" "''e''" "yaml_api (\<lambda>_. YNone)" empty_dbs]
  by (simp add: files_api_def)

end
