(* ===== verification/Session.thy ===== *)
theory Session
  imports Packet_Decoder Stack_Builder Protocol_Parser
begin

text \<open>
  \<^verbatim>\<open>Session\<close> (traffic-gen/inc/tsn/session.h, src/session.cpp): the facade over parser,
  builder, decoder and stack runtime. Generation of single packets, command/response chains and
  stacked frames, the decode paths, and the logic-driven stack runtime.

  The two overloads of \<^verbatim>\<open>generateStack\<close> and \<^verbatim>\<open>decodeStack\<close> are
  \<open>generateStack_ifaces\<close>, \<open>decodeStack_ifaces\<close> (a list of interfaces, no
  logic) and \<open>generateStack\<close>, \<open>decodeStack\<close> (a bound \<^verbatim>\<open>Stack\<close>).
  Log messages are not modelled.
\<close>

record 'g Session =
  mProtocolDir :: string
  mParser :: ProtocolParser
  mBuilder :: "'g PacketBuilder"

type_synonym Layer = "string \<times> BuiltPacket"

record StackedPacket =
  sp_bytes :: bytes
  sp_layers :: "Layer list"

definition varDatabase :: "'g Session \<Rightarrow> Var Database" where
  "varDatabase s = dbVars (mDbs (mParser s))"

definition interfaceDatabase :: "'g Session \<Rightarrow> ProtocolInterface Database" where
  "interfaceDatabase s = dbIfproto (mDbs (mParser s))"

definition serviceDatabase :: "'g Session \<Rightarrow> ProtocolService Database" where
  "serviceDatabase s = dbServices (mDbs (mParser s))"

definition Session_parse ::
    "filesystem \<Rightarrow> posix_files \<Rightarrow> 'n ryml \<Rightarrow> 'g Session \<Rightarrow> (bool \<times> 'g Session) run option" where
  "Session_parse fs px ry s = (case ProtocolParser_parse fs px ry (mParser s) of
       None \<Rightarrow> None
     | Some Throws \<Rightarrow> Some Throws
     | Some Undefined \<Rightarrow> Some Undefined
     | Some (Returns (err, p)) \<Rightarrow> Some (Returns (err = PROTOPARSER_SUCCESS, s\<lparr>mParser := p\<rparr>)))"

definition Session_seed :: "(u64 \<Rightarrow> 'g) \<Rightarrow> u64 \<Rightarrow> 'g Session \<Rightarrow> 'g Session" where
  "Session_seed seeded v s = s\<lparr>mBuilder := seed seeded v (mBuilder s)\<rparr>"

definition findInterface :: "'g Session \<Rightarrow> string \<Rightarrow> ProtocolInterface option" where
  "findInterface s name = getElement (interfaceDatabase s) name"

section \<open>Generation\<close>

definition generate ::
    "'g distribution \<Rightarrow> 'g Session \<Rightarrow> ProtocolInterface \<Rightarrow> BuiltPacket \<times> 'g Session" where
  "generate dist s iface =
     (let (pkt, b) = buildWithFields dist (mBuilder s) iface (varDatabase s)
      in (pkt, s\<lparr>mBuilder := b\<rparr>))"

fun collect_overrides :: "(string \<times> u64) list \<Rightarrow> overrides \<Rightarrow> overrides" where
  "collect_overrides [] ovr = ovr"
| "collect_overrides (f # fs) ovr = collect_overrides fs (ovr(fst f \<mapsto> snd f))"

fun chain_loop ::
    "'g distribution \<Rightarrow> Var Database \<Rightarrow> nat \<Rightarrow> ProtocolInterface list \<Rightarrow> overrides \<Rightarrow> Layer list
      \<Rightarrow> 'g PacketBuilder \<Rightarrow> Layer list \<times> 'g PacketBuilder" where
  "chain_loop dist db stage [] ovr acc b = (acc, b)"
| "chain_loop dist db stage (iface # ifaces) ovr acc b =
     (let (pkt, b') = (if stage = 0 then buildWithFields dist b iface db
                       else buildWithOverrides dist b iface db ovr)
      in chain_loop dist db (stage + 1) ifaces (collect_overrides (bp_fields pkt) Map.empty)
           (acc @ [(mInterfaceName iface, pkt)]) b')"

definition generateChain ::
    "'g distribution \<Rightarrow> 'g Session \<Rightarrow> ProtocolInterface list \<Rightarrow> Layer list \<times> 'g Session" where
  "generateChain dist s stages =
     (let (r, b) = chain_loop dist (varDatabase s) 0 stages Map.empty [] (mBuilder s)
      in (r, s\<lparr>mBuilder := b\<rparr>))"

fun stack_loop ::
    "'g distribution \<Rightarrow> Var Database \<Rightarrow> ProtocolInterface list \<Rightarrow> StackedPacket \<Rightarrow> 'g PacketBuilder
      \<Rightarrow> StackedPacket \<times> 'g PacketBuilder" where
  "stack_loop dist db [] result b = (result, b)"
| "stack_loop dist db (iface # ifaces) result b =
     (let (pkt, b') = buildWithFields dist b iface db
      in stack_loop dist db ifaces
           \<lparr>sp_bytes = sp_bytes result @ bp_bytes pkt,
            sp_layers = sp_layers result @ [(mInterfaceName iface, pkt)]\<rparr> b')"

definition generateStack_ifaces ::
    "'g distribution \<Rightarrow> 'g Session \<Rightarrow> ProtocolInterface list \<Rightarrow> StackedPacket \<times> 'g Session" where
  "generateStack_ifaces dist s layers =
     (let (r, b) = stack_loop dist (varDatabase s) layers \<lparr>sp_bytes = [], sp_layers = []\<rparr> (mBuilder s)
      in (r, s\<lparr>mBuilder := b\<rparr>))"

section \<open>Decode\<close>

definition Session_decode :: "'g Session \<Rightarrow> ProtocolInterface \<Rightarrow> bytes \<Rightarrow> BuiltPacket" where
  "Session_decode s iface bs = decode iface (varDatabase s) bs 0"

fun decodeStack_loop ::
    "Var Database \<Rightarrow> ProtocolInterface list \<Rightarrow> bytes \<Rightarrow> nat \<Rightarrow> Layer list \<Rightarrow> Layer list" where
  "decodeStack_loop db [] bs off acc = acc"
| "decodeStack_loop db (iface # ifaces) bs off acc =
     (let layer = decode iface db bs off
      in decodeStack_loop db ifaces bs (off + layerBytes iface db)
           (acc @ [(mInterfaceName iface, layer)]))"

definition decodeStack_ifaces :: "'g Session \<Rightarrow> ProtocolInterface list \<Rightarrow> bytes \<Rightarrow> StackedPacket" where
  "decodeStack_ifaces s layers bs =
     \<lparr>sp_bytes = bs, sp_layers = decodeStack_loop (varDatabase s) layers bs 0 []\<rparr>"

section \<open>The logic-driven stack runtime\<close>

definition loadStack ::
    "posix_files \<Rightarrow> 'n ryml \<Rightarrow> LogicRegistry \<Rightarrow> 'g Session \<Rightarrow> string \<Rightarrow> int \<times> Stack option" where
  "loadStack px ry reg s path = StackBuilder_build px ry (serviceDatabase s) reg path"

definition interfaceForLayer :: "'g Session \<Rightarrow> StackLayer \<Rightarrow> ProtocolInterface option" where
  "interfaceForLayer s layer =
     (let db = interfaceDatabase s in
      if interfaceName layer \<noteq> [] then
        getElement db (serviceName layer @ ''::'' @ entityName layer @ ''::'' @ interfaceName layer)
      else
        let pfx = (if entityName layer = [] then serviceName layer @ ''::''
                   else serviceName layer @ ''::'' @ entityName layer @ ''::'')
        in forEach db (\<lambda>name iface found.
             if found = None \<and> starts_with name pfx then Some iface else found) None)"

fun field_width :: "Var Database \<Rightarrow> string \<Rightarrow> string list \<Rightarrow> u32" where
  "field_width db name [] = 0"
| "field_width db name (ref # refs) =
     (if shortName ref = name
      then (case getElement db ref of Some var \<Rightarrow> getSize var | None \<Rightarrow> 0)
      else field_width db name refs)"

fun populate_loop ::
    "Var Database \<Rightarrow> string list \<Rightarrow> (string \<times> u64) list \<Rightarrow> LayerContext \<Rightarrow> LayerContext" where
  "populate_loop db refs [] ctx = ctx"
| "populate_loop db refs (fv # fvs) ctx =
     (let bits = field_width db (fst fv) refs
      in populate_loop db refs fvs (if bits \<noteq> 0 then addField (fst fv) (snd fv) bits ctx else ctx))"

definition populateContext ::
    "Var Database \<Rightarrow> ProtocolInterface \<Rightarrow> (string \<times> u64) list \<Rightarrow> LayerContext \<Rightarrow> LayerContext" where
  "populateContext db iface fieldValues ctx =
     populate_loop db (mVarRefs iface) fieldValues (clearFields ctx)"

text \<open>Phase 1 of \<^verbatim>\<open>generateStack\<close>: initial values, one layer.\<close>

definition load_layer ::
    "'g distribution \<Rightarrow> 'g Session \<Rightarrow> StackLayer \<Rightarrow> 'g PacketBuilder \<Rightarrow> StackLayer \<times> 'g PacketBuilder" where
  "load_layer dist s layer b = (case interfaceForLayer s layer of
       None \<Rightarrow> (layer, b)
     | Some iface \<Rightarrow>
         let (built, b') = buildWithFields dist b iface (varDatabase s)
         in (layer\<lparr>sl_context := populateContext (varDatabase s) iface (bp_fields built) (sl_context layer)\<rparr>, b'))"

fun load_layers ::
    "'g distribution \<Rightarrow> 'g Session \<Rightarrow> StackLayer list \<Rightarrow> 'g PacketBuilder
      \<Rightarrow> StackLayer list \<times> 'g PacketBuilder" where
  "load_layers dist s [] b = ([], b)"
| "load_layers dist s (l # ls) b =
     (let (l', b1) = load_layer dist s l b; (ls', b2) = load_layers dist s ls b1
      in (l' # ls', b2))"

text \<open>Phase 2: \<^verbatim>\<open>onEncode\<close> on every layer in order, each seeing the others' contexts.\<close>

fun encode_layers :: "nat list \<Rightarrow> StackLayer list \<Rightarrow> StackLayer list option" where
  "encode_layers [] ls = Some ls"
| "encode_layers (i # is) ls =
     (case onEncode (sl_logic (ls ! i)) (contexts ls) (sl_context (ls ! i)) of
        None \<Rightarrow> None
      | Some (m, ctx) \<Rightarrow> encode_layers is (ls[i := (ls ! i)\<lparr>sl_logic := m, sl_context := ctx\<rparr>]))"

text \<open>Phase 3: packing one context.\<close>

fun pack_loop :: "Field list \<Rightarrow> BuiltPacket \<Rightarrow> nat \<Rightarrow> BuiltPacket" where
  "pack_loop [] lp bitOffset = lp"
| "pack_loop (f # fs) lp bitOffset =
     (let (buf, off') = appendBits (bp_bytes lp) bitOffset (fld_value f) (fld_bits f)
      in pack_loop fs \<lparr>bp_bytes = buf, bp_fields = bp_fields lp @ [(fld_name f, fld_value f)]\<rparr> off')"

definition pack_layer :: "StackLayer \<Rightarrow> BuiltPacket" where
  "pack_layer l = pack_loop (mFields (sl_context l)) empty_packet 0"

fun pack_layers :: "StackLayer list \<Rightarrow> StackedPacket \<Rightarrow> StackedPacket" where
  "pack_layers [] result = result"
| "pack_layers (l # ls) result =
     (let lp = pack_layer l
      in pack_layers ls \<lparr>sp_bytes = sp_bytes result @ bp_bytes lp,
                        sp_layers = sp_layers result @ [(serviceName l, lp)]\<rparr>)"

definition generateStack ::
    "'g distribution \<Rightarrow> 'g Session \<Rightarrow> Stack \<Rightarrow> (StackedPacket \<times> Stack \<times> 'g Session) option" where
  "generateStack dist s stack =
     (let (ls, b) = load_layers dist s (mLayers stack) (mBuilder s)
      in case encode_layers [0..<length ls] ls of
           None \<Rightarrow> None
         | Some ls' \<Rightarrow> Some (pack_layers ls' \<lparr>sp_bytes = [], sp_layers = []\<rparr>,
                             stack\<lparr>mLayers := ls'\<rparr>, s\<lparr>mBuilder := b\<rparr>))"

text \<open>
  \<^verbatim>\<open>decodeStack(Stack&, bytes)\<close>. The \<^verbatim>\<open>nextLayer\<close> check only logs;
  \<open>demux_ok\<close> is its condition.
\<close>

definition demux_ok :: "nat \<Rightarrow> StackLayer list \<Rightarrow> bool" where
  "demux_ok i ls =
     (let nxt = nextLayer (sl_logic (ls ! i)) (contexts ls) (sl_context (ls ! i))
      in \<not> (nxt \<noteq> [] \<and> i + 1 < length ls \<and> nxt \<noteq> serviceName (ls ! (i + 1))))"

fun decode_layers ::
    "'g Session \<Rightarrow> bytes \<Rightarrow> nat list \<Rightarrow> StackLayer list \<Rightarrow> nat \<Rightarrow> Layer list
      \<Rightarrow> StackLayer list \<times> Layer list" where
  "decode_layers s bs [] ls off acc = (ls, acc)"
| "decode_layers s bs (i # is) ls off acc =
     (case interfaceForLayer s (ls ! i) of
        None \<Rightarrow> decode_layers s bs is ls off (acc @ [(serviceName (ls ! i), empty_packet)])
      | Some iface \<Rightarrow>
          let layer = decode iface (varDatabase s) bs off;
              ctx = populateContext (varDatabase s) iface (bp_fields layer) (sl_context (ls ! i));
              m = onDecode (sl_logic (ls ! i)) ctx
          in decode_layers s bs is (ls[i := (ls ! i)\<lparr>sl_logic := m, sl_context := ctx\<rparr>])
               (off + layerBytes iface (varDatabase s)) (acc @ [(serviceName (ls ! i), layer)]))"

definition decodeStack :: "'g Session \<Rightarrow> Stack \<Rightarrow> bytes \<Rightarrow> StackedPacket \<times> Stack" where
  "decodeStack s stack bs =
     (let (ls, layers) = decode_layers s bs [0..<length (mLayers stack)] (mLayers stack) 0 []
      in (\<lparr>sp_bytes = bs, sp_layers = layers\<rparr>, stack\<lparr>mLayers := ls\<rparr>))"

section \<open>Chains: propagation\<close>

lemma collect_overrides_eq: "collect_overrides fs ovr = ovr ++ map_of (rev fs)"
  by (induction fs arbitrary: ovr) (auto simp: map_add_def fun_eq_iff split: option.splits)

text \<open>\<open>chained\<close>: every packet of the round is the build of its stage under the previous fields.\<close>

fun chained ::
    "'g distribution \<Rightarrow> Var Database \<Rightarrow> overrides \<Rightarrow> ProtocolInterface list \<Rightarrow> Layer list \<Rightarrow> bool" where
  "chained dist db ovr [] ps \<longleftrightarrow> ps = []"
| "chained dist db ovr (iface # ifaces) ps \<longleftrightarrow>
     (\<exists>b pkt ps'. ps = (mInterfaceName iface, pkt) # ps' \<and>
        pkt = fst (buildWithOverrides dist b iface db ovr) \<and>
        chained dist db (map_of (rev (bp_fields pkt))) ifaces ps')"

lemma chain_loop_chained:
  assumes "stage = 0 \<longrightarrow> ovr = Map.empty"
  shows "\<exists>ps. fst (chain_loop dist db stage ifaces ovr acc b) = acc @ ps \<and> chained dist db ovr ifaces ps"
  using assms
proof (induction ifaces arbitrary: stage ovr acc b)
  case (Cons iface ifaces)
  obtain pkt b' where pkt: "buildWithOverrides dist b iface db ovr = (pkt, b')"
    by fastforce
  have eq: "(if stage = 0 then buildWithFields dist b iface db else buildWithOverrides dist b iface db ovr)
      = (pkt, b')"
    using Cons.prems pkt by (cases "stage = 0") (simp_all add: buildWithFields_eq)
  obtain ps where ps: "fst (chain_loop dist db (stage + 1) ifaces (map_of (rev (bp_fields pkt)))
        (acc @ [(mInterfaceName iface, pkt)]) b') = (acc @ [(mInterfaceName iface, pkt)]) @ ps"
      "chained dist db (map_of (rev (bp_fields pkt))) ifaces ps"
    using Cons.IH [of "stage + 1" "map_of (rev (bp_fields pkt))" "acc @ [(mInterfaceName iface, pkt)]" b']
    by auto
  have "pkt = fst (buildWithOverrides dist b iface db ovr)"
    by (simp add: pkt)
  then have "chained dist db ovr (iface # ifaces) ((mInterfaceName iface, pkt) # ps)"
    using ps(2) by auto
  moreover have "fst (chain_loop dist db stage (iface # ifaces) ovr acc b)
      = acc @ ((mInterfaceName iface, pkt) # ps)"
    using ps(1) by (simp add: eq collect_overrides_eq)
  ultimately show ?case by blast
qed simp

lemma generateChain_chained:
  "chained dist (varDatabase s) Map.empty stages (fst (generateChain dist s stages))"
  using chain_loop_chained [of 0 Map.empty dist "varDatabase s" stages "[]" "mBuilder s"]
  by (auto simp: generateChain_def split_beta)

lemma chained_length: "chained dist db ovr ifaces ps \<Longrightarrow> length ps = length ifaces"
  by (induction dist db ovr ifaces ps rule: chained.induct) auto

lemma chained_nth:
  "chained dist db ovr ifaces ps \<Longrightarrow> k < length ifaces \<Longrightarrow>
     \<exists>b. ps ! k = (mInterfaceName (ifaces ! k), fst (buildWithOverrides dist b (ifaces ! k) db
       (if k = 0 then ovr else map_of (rev (bp_fields (snd (ps ! (k - 1))))))))"
proof (induction ifaces arbitrary: ovr ps k)
  case (Cons iface ifaces)
  then obtain b pkt ps' where ps: "ps = (mInterfaceName iface, pkt) # ps'"
      "pkt = fst (buildWithOverrides dist b iface db ovr)"
      "chained dist db (map_of (rev (bp_fields pkt))) ifaces ps'" by auto
  show ?case
  proof (cases k)
    case 0
    then show ?thesis using ps by auto
  next
    case (Suc j)
    then show ?thesis
      using Cons.IH [OF ps(3), of j] Cons.prems(2) ps(1) by (cases j) auto
  qed
qed simp

section \<open>Stacked frames without logic\<close>

fun build_each ::
    "'g distribution \<Rightarrow> Var Database \<Rightarrow> ProtocolInterface list \<Rightarrow> 'g PacketBuilder
      \<Rightarrow> BuiltPacket list \<times> 'g PacketBuilder" where
  "build_each dist db [] b = ([], b)"
| "build_each dist db (iface # ifaces) b =
     (let (pkt, b1) = buildWithFields dist b iface db; (pkts, b2) = build_each dist db ifaces b1
      in (pkt # pkts, b2))"

lemma stack_loop_eq:
  "stack_loop dist db ifaces result b =
     (let (pkts, b') = build_each dist db ifaces b
      in (\<lparr>sp_bytes = sp_bytes result @ concat (map bp_bytes pkts),
           sp_layers = sp_layers result @ zip (map mInterfaceName ifaces) pkts\<rparr>, b'))"
  by (induction dist db ifaces result b rule: stack_loop.induct) (simp_all add: Let_def split_beta)

text \<open>A packet that decodes to itself wherever it sits in a frame.\<close>

definition exact_pkt :: "Var Database \<Rightarrow> ProtocolInterface \<Rightarrow> BuiltPacket \<Rightarrow> bool" where
  "exact_pkt db iface pkt \<longleftrightarrow> length (bp_bytes pkt) = layerBytes iface db \<and>
     (\<forall>pre post. decode iface db (pre @ bp_bytes pkt @ post) (length pre) = pkt)"

lemma buildWithFields_exact:
  assumes "uniform_dist dist" and "sane_widths db" and "consistent_db db"
  shows "exact_pkt db iface (fst (buildWithFields dist b iface db))"
proof -
  obtain vs g' where c: "choose_all dist Map.empty (layout db (mVarRefs iface)) (mRng b) = (vs, g')"
    by fastforce
  note fit = chosen_fit [OF assms c]
  show ?thesis
    using decode_built_exact [OF c fit refl assms(2)] built_length_sane [OF assms(2)]
    by (simp add: exact_pkt_def buildWithFields_eq)
qed

lemma build_each_exact:
  assumes "uniform_dist dist" and "sane_widths db" and "consistent_db db"
  shows "list_all2 (exact_pkt db) ifaces (fst (build_each dist db ifaces b))"
proof (induction ifaces arbitrary: b)
  case (Cons iface ifaces)
  then show ?case
    using buildWithFields_exact [OF assms, of iface b] by (simp add: split_beta)
qed simp

lemma decodeStack_loop_exact:
  "list_all2 (exact_pkt db) ifaces pkts \<Longrightarrow>
     decodeStack_loop db ifaces (pre @ concat (map bp_bytes pkts) @ post) (length pre) acc
       = acc @ zip (map mInterfaceName ifaces) pkts"
proof (induction ifaces pkts arbitrary: pre acc rule: list_all2_induct)
  case (Cons iface ifaces pkt pkts)
  have d: "decode iface db (pre @ bp_bytes pkt @ concat (map bp_bytes pkts) @ post) (length pre) = pkt"
    and l: "length pre + layerBytes iface db = length (pre @ bp_bytes pkt)"
    using Cons(1) by (simp_all add: exact_pkt_def)
  show ?case
    using Cons.IH [of "pre @ bp_bytes pkt" "acc @ [(mInterfaceName iface, pkt)]"] by (simp add: d l)
qed simp

lemma build_each_length:
  "sane_widths db \<Longrightarrow> map (length \<circ> bp_bytes) (fst (build_each dist db layers b)) = map (\<lambda>iface. layerBytes iface db) layers"
  by (induction layers arbitrary: b) (simp_all add: built_length_sane buildWithFields_eq split_beta)

lemma generateStack_ifaces_length:
  assumes "sane_widths (varDatabase s)"
  shows "length (sp_bytes (fst (generateStack_ifaces dist s layers))) = (\<Sum>iface\<leftarrow>layers. layerBytes iface (varDatabase s))"
  using build_each_length [OF assms, of dist layers "mBuilder s"]
  by (simp add: generateStack_ifaces_def stack_loop_eq split_beta length_concat comp_def)

lemma generateStack_ifaces_decodes:
  assumes "uniform_dist dist" and "sane_widths (varDatabase s)" and "consistent_db (varDatabase s)"
  shows "decodeStack_ifaces s layers (sp_bytes (fst (generateStack_ifaces dist s layers)))
    = fst (generateStack_ifaces dist s layers)"
proof -
  let ?pkts = "fst (build_each dist (varDatabase s) layers (mBuilder s))"
  have "list_all2 (exact_pkt (varDatabase s)) layers ?pkts"
    by (rule build_each_exact [OF assms])
  from decodeStack_loop_exact [OF this, of "[]" "[]"] show ?thesis
    by (simp add: decodeStack_ifaces_def generateStack_ifaces_def stack_loop_eq split_beta)
qed

section \<open>The stack runtime\<close>

definition loaded_fields :: "Var Database \<Rightarrow> string list \<Rightarrow> (string \<times> u64) list \<Rightarrow> Field list" where
  "loaded_fields db refs fvs = concat (map (\<lambda>fv. if field_width db (fst fv) refs = 0 then [] else
     [\<lparr>fld_name = fst fv, fld_value = snd fv, fld_bits = field_width db (fst fv) refs\<rparr>]) fvs)"

lemma populate_loop_eq:
  "populate_loop db refs fvs ctx = ctx\<lparr>mFields := mFields ctx @ loaded_fields db refs fvs\<rparr>"
  by (induction fvs arbitrary: ctx) (simp_all add: loaded_fields_def addField_def Let_def)

lemma populateContext_eq:
  "populateContext db iface fvs ctx = ctx\<lparr>mFields := loaded_fields db (mVarRefs iface) fvs\<rparr>"
  by (simp add: populateContext_def populate_loop_eq clearFields_def)

text \<open>The names that decide which interface a layer uses.\<close>

definition layer_key :: "StackLayer \<Rightarrow> string \<times> string \<times> string" where
  "layer_key l = (serviceName l, entityName l, interfaceName l)"

lemma interfaceForLayer_key: "layer_key l = layer_key l' \<Longrightarrow> interfaceForLayer s l = interfaceForLayer s l'"
  unfolding interfaceForLayer_def layer_key_def by (elim Pair_inject) (simp only:)

text \<open>Loading a layer changes the fields of its context and nothing else.\<close>

definition same_frame :: "StackLayer \<Rightarrow> StackLayer \<Rightarrow> bool" where
  "same_frame l l' \<longleftrightarrow> l' = l\<lparr>sl_context := (sl_context l)\<lparr>mFields := mFields (sl_context l')\<rparr>\<rparr>"

lemma load_layer_frame: "same_frame l (fst (load_layer dist s l b))"
  by (simp add: load_layer_def same_frame_def populateContext_eq split_beta split: option.split)

lemma load_layers_frame: "list_all2 same_frame ls (fst (load_layers dist s ls b))"
  by (induction ls arbitrary: b) (simp_all add: split_beta load_layer_frame)

lemma same_frameD:
  assumes "same_frame l l'"
  shows "serviceName l' = serviceName l" "sl_logic l' = sl_logic l"
    "mUpper (sl_context l') = mUpper (sl_context l)" "mLower (sl_context l') = mLower (sl_context l)"
    "mServiceName (sl_context l') = mServiceName (sl_context l)"
    "interfaceName l' = interfaceName l" "entityName l' = entityName l"
  using assms unfolding same_frame_def
  by (metis StackLayer.select_convs StackLayer.surjective StackLayer.update_convs(7)
      LayerContext.select_convs LayerContext.surjective LayerContext.update_convs(4))+

lemma wired_same_frame:
  assumes "list_all2 same_frame ls ls'" and "wired (contexts ls)"
  shows "wired (contexts ls')"
proof -
  have len: "length ls' = length ls"
    using list_all2_lengthD [OF assms(1)] by simp
  have "mUpper (sl_context (ls' ! i)) = mUpper (sl_context (ls ! i)) \<and>
        mLower (sl_context (ls' ! i)) = mLower (sl_context (ls ! i))" if "i < length ls" for i
    using same_frameD list_all2_nthD [OF assms(1) that] by simp
  then show ?thesis
    using assms(2) by (simp add: wired_def contexts_def len)
qed

subsection \<open>Running the modules\<close>

definition module_view :: "StackLayer list \<Rightarrow> (LogicModule \<times> LayerContext) list" where
  "module_view ls = map (\<lambda>l. (sl_logic l, sl_context l)) ls"

definition put_view :: "StackLayer list \<Rightarrow> (LogicModule \<times> LayerContext) list \<Rightarrow> StackLayer list" where
  "put_view ls ys = map2 (\<lambda>l y. l\<lparr>sl_logic := fst y, sl_context := snd y\<rparr>) ls ys"

lemma length_module_view [simp]: "length (module_view ls) = length ls"
  by (simp add: module_view_def)

lemma contexts_view: "contexts ls = map snd (module_view ls)"
  by (simp add: contexts_def module_view_def comp_def)

lemma module_view_update:
  "module_view (ls[i := l\<lparr>sl_logic := m, sl_context := c\<rparr>]) = (module_view ls)[i := (m, c)]"
  by (simp add: module_view_def map_update)

lemma put_view_self: "put_view ls (module_view ls) = ls"
  by (simp add: put_view_def module_view_def list_eq_iff_nth_eq)

lemma put_view_update:
  assumes "length ys = length ls" and "i < length ls"
  shows "put_view (ls[i := (ls ! i)\<lparr>sl_logic := m, sl_context := c\<rparr>]) ys = put_view ls ys"
  using assms by (auto simp: put_view_def list_eq_iff_nth_eq nth_list_update)

lemma length_encode_all: "logic.encode_all is xs = Some ys \<Longrightarrow> length ys = length xs"
  by (induction "is" arbitrary: xs) (auto simp: logic.encode_at_def split: option.splits)

lemma encode_layers_view:
  "set is \<subseteq> {..<length ls} \<Longrightarrow>
     encode_layers is ls = map_option (put_view ls) (logic.encode_all is (module_view ls))"
proof (induction "is" arbitrary: ls)
  case (Cons i "is")
  have i: "i < length ls" using Cons.prems by simp
  show ?case
  proof (cases "onEncode (sl_logic (ls ! i)) (contexts ls) (sl_context (ls ! i))")
    case None
    then show ?thesis
      using i by (simp add: logic.encode_at_def contexts_view module_view_def comp_def)
  next
    case (Some p)
    obtain m c where p: "p = (m, c)" by (cases p)
    let ?ls = "ls[i := (ls ! i)\<lparr>sl_logic := m, sl_context := c\<rparr>]"
    have at: "logic.encode_at i (module_view ls) = Some (module_view ?ls)"
      using i Some p by (simp add: logic.encode_at_def contexts_view module_view_def comp_def map_update)
    have "map_option (put_view ?ls) (logic.encode_all is (module_view ?ls))
        = map_option (put_view ls) (logic.encode_all is (module_view ?ls))"
      using length_encode_all i by (auto intro!: option.map_cong0 put_view_update
          simp: option.set_sel dest!: length_encode_all)
    moreover have "encode_layers is ?ls = map_option (put_view ?ls) (logic.encode_all is (module_view ?ls))"
      using Cons.prems by (intro Cons.IH) simp
    ultimately show ?thesis
      by (simp add: Some p at)
  qed
qed (simp add: put_view_self)

text \<open>
  On a wired stack every module returns, and each sees the contexts as phase 1 loaded them.
\<close>

lemma encode_layers_ok:
  assumes "wired (contexts ls)"
  shows "\<exists>ls'. encode_layers [0..<length ls] ls = Some ls' \<and> length ls' = length ls \<and>
     (\<forall>i<length ls. onEncode (sl_logic (ls ! i)) (contexts ls) (sl_context (ls ! i))
          = Some (sl_logic (ls' ! i), sl_context (ls' ! i)) \<and>
        ctx_shape (sl_context (ls' ! i)) = ctx_shape (sl_context (ls ! i)) \<and>
        layer_key (ls' ! i) = layer_key (ls ! i))"
proof -
  obtain ys where ys: "logic.encode_all [0..<length ls] (module_view ls) = Some ys"
      "logic.shapes ys = logic.shapes (module_view ls)"
      "\<forall>i<length ls. onEncode (sl_logic (ls ! i)) (contexts ls) (sl_context (ls ! i)) = Some (ys ! i)"
    using logic.encode_all_ok [of "module_view ls"] assms
    by (auto simp: contexts_view module_view_def comp_def)
  have len: "length ys = length ls"
    using length_encode_all [OF ys(1)] by simp
  have eq: "encode_layers [0..<length ls] ls = Some (put_view ls ys)"
    using encode_layers_view [of "[0..<length ls]" ls] ys(1) by (simp add: atLeast0LessThan)
  have "onEncode (sl_logic (ls ! i)) (contexts ls) (sl_context (ls ! i))
          = Some (sl_logic (put_view ls ys ! i), sl_context (put_view ls ys ! i)) \<and>
        ctx_shape (sl_context (put_view ls ys ! i)) = ctx_shape (sl_context (ls ! i)) \<and>
        layer_key (put_view ls ys ! i) = layer_key (ls ! i)" if i: "i < length ls" for i
    using ys(3) i len onEncode_shape [of "sl_logic (ls ! i)" "contexts ls" "sl_context (ls ! i)" "fst (ys ! i)" "snd (ys ! i)"]
    by (simp add: put_view_def layer_key_def)
  then show ?thesis
    using eq len by (auto simp: put_view_def)
qed

subsection \<open>Packing\<close>

definition context_codes :: "LayerContext \<Rightarrow> (u64 \<times> u32) list" where
  "context_codes ctx = map (\<lambda>f. (fld_value f, fld_bits f)) (mFields ctx)"

lemma pack_loop_eq:
  "pack_loop fs lp off =
     \<lparr>bp_bytes = fst (wire.put_all (map (\<lambda>f. (fld_value f, fld_bits f)) fs) (bp_bytes lp, off)),
      bp_fields = bp_fields lp @ map (\<lambda>f. (fld_name f, fld_value f)) fs\<rparr>"
  by (induction fs arbitrary: lp off) (simp_all add: wire.put_all.simps split_beta)

lemma pack_layer_eq:
  "pack_layer l =
     \<lparr>bp_bytes = fst (wire.put_all (context_codes (sl_context l)) ([], 0)),
      bp_fields = map (\<lambda>f. (fld_name f, fld_value f)) (mFields (sl_context l))\<rparr>"
  by (simp add: pack_layer_def pack_loop_eq empty_packet_def context_codes_def)

lemma pack_layers_eq:
  "pack_layers ls result =
     \<lparr>sp_bytes = sp_bytes result @ concat (map (bp_bytes \<circ> pack_layer) ls),
      sp_layers = sp_layers result @ map (\<lambda>l. (serviceName l, pack_layer l)) ls\<rparr>"
  by (induction ls arbitrary: result) (simp_all add: Let_def)

definition sane_context :: "LayerContext \<Rightarrow> bool" where
  "sane_context ctx \<longleftrightarrow> list_all (\<lambda>f. fld_bits f < 0x80000000) (mFields ctx)"

lemma sane_context_unat: "sane_context ctx \<longleftrightarrow> (\<forall>f\<in>set (mFields ctx). unat (fld_bits f) < 2 ^ 31)"
  by (simp add: sane_context_def list_all_iff word_less_nat_alt)

lemma total_width_context:
  "sane_context ctx \<Longrightarrow>
     wire.total_width (map snd (context_codes ctx)) = sum_list (map (unat \<circ> fld_bits) (mFields ctx))"
  unfolding context_codes_def sane_context_unat
  by (induction "mFields ctx" arbitrary: ctx)
    (auto simp: wire.total_width_def comp_def loopCount_unat intro!: arg_cong [where f = sum_list] map_cong)

lemma pack_layer_length:
  assumes "sane_context (sl_context l)"
  shows "length (bp_bytes (pack_layer l)) = byteSize (sl_context l)"
  using wire.put_all_pos [OF packed_empty, of "context_codes (sl_context l)"] total_width_context [OF assms]
  by (simp add: pack_layer_eq packed_length byteSize_eq)

subsection \<open>Generation on a wired stack\<close>

lemma generateStack_wired:
  assumes "wired (contexts (mLayers stack))"
  shows "\<exists>ls b ls'. load_layers dist s (mLayers stack) (mBuilder s) = (ls, b) \<and>
    list_all2 same_frame (mLayers stack) ls \<and> wired (contexts ls) \<and> length ls' = length ls \<and>
    (\<forall>i<length ls. onEncode (sl_logic (ls ! i)) (contexts ls) (sl_context (ls ! i))
          = Some (sl_logic (ls' ! i), sl_context (ls' ! i)) \<and>
        ctx_shape (sl_context (ls' ! i)) = ctx_shape (sl_context (ls ! i)) \<and>
        layer_key (ls' ! i) = layer_key (ls ! i)) \<and>
    generateStack dist s stack =
      Some (\<lparr>sp_bytes = concat (map (bp_bytes \<circ> pack_layer) ls'),
             sp_layers = map (\<lambda>l. (serviceName l, pack_layer l)) ls'\<rparr>,
            stack\<lparr>mLayers := ls'\<rparr>, s\<lparr>mBuilder := b\<rparr>)"
proof -
  obtain ls b where load: "load_layers dist s (mLayers stack) (mBuilder s) = (ls, b)"
    by fastforce
  have frame: "list_all2 same_frame (mLayers stack) ls"
    using load_layers_frame [of "mLayers stack" dist s "mBuilder s"] by (simp add: load)
  have w: "wired (contexts ls)"
    by (rule wired_same_frame [OF frame assms])
  from encode_layers_ok [OF w] obtain ls' where enc: "encode_layers [0..<length ls] ls = Some ls'"
    and len: "length ls' = length ls"
    and each: "\<forall>i<length ls. onEncode (sl_logic (ls ! i)) (contexts ls) (sl_context (ls ! i))
          = Some (sl_logic (ls' ! i), sl_context (ls' ! i)) \<and>
        ctx_shape (sl_context (ls' ! i)) = ctx_shape (sl_context (ls ! i)) \<and>
        layer_key (ls' ! i) = layer_key (ls ! i)"
    by auto
  have "generateStack dist s stack =
      Some (\<lparr>sp_bytes = concat (map (bp_bytes \<circ> pack_layer) ls'),
             sp_layers = map (\<lambda>l. (serviceName l, pack_layer l)) ls'\<rparr>,
            stack\<lparr>mLayers := ls'\<rparr>, s\<lparr>mBuilder := b\<rparr>)"
    by (simp add: generateStack_def load enc pack_layers_eq)
  then show ?thesis
    using load frame w len each by blast
qed

text \<open>The contexts a build can load have widths the packer treats as declared.\<close>

lemma field_width_sane: "sane_widths db \<Longrightarrow> unat (field_width db n refs) < 2 ^ 31"
  by (induction refs) (auto dest: sane_widthsD split: option.split)

lemma loaded_fields_sane: "sane_widths db \<Longrightarrow> f \<in> set (loaded_fields db refs fvs) \<Longrightarrow> unat (fld_bits f) < 2 ^ 31"
  using field_width_sane [of db] by (auto simp: loaded_fields_def split: if_splits)

lemma load_layer_sane:
  assumes "sane_widths (varDatabase s)" and "sane_context (sl_context l)"
  shows "sane_context (sl_context (fst (load_layer dist s l b)))"
  using assms loaded_fields_sane [OF assms(1)]
  by (auto simp: load_layer_def sane_context_unat populateContext_eq split_beta split: option.split)

lemma load_layers_sane:
  assumes "sane_widths (varDatabase s)"
  shows "list_all (sane_context \<circ> sl_context) ls \<Longrightarrow>
    list_all (sane_context \<circ> sl_context) (fst (load_layers dist s ls b))"
  by (induction ls arbitrary: b) (simp_all add: split_beta load_layer_sane [OF assms])

lemma sane_context_shape: "ctx_shape c = ctx_shape d \<Longrightarrow> sane_context c \<longleftrightarrow> sane_context d"
proof -
  have "sane_context c \<longleftrightarrow> (\<forall>w\<in>snd ` set (snd (snd (snd (ctx_shape c)))). unat w < 2 ^ 31)" for c
    by (auto simp: sane_context_unat ctx_shape_def)
  then show "ctx_shape c = ctx_shape d \<Longrightarrow> sane_context c \<longleftrightarrow> sane_context d"
    by metis
qed

text \<open>The length field of an AECP layer counts what is really packed after it.\<close>

lemma generateStack_aecp_length:
  assumes "wired (contexts (mLayers stack))" and "sane_widths (varDatabase s)"
    and "list_all (sane_context \<circ> sl_context) (mLayers stack)"
    and "generateStack dist s stack = Some (pkt, stack', s')"
    and "i < length (mLayers stack)" and "sl_logic (mLayers stack ! i) = AecpAemLogic c"
    and "''control_data_length'' \<in> set (field_names (sl_context (mLayers stack' ! i)))"
  shows "\<exists>nAfter. bytesAfter (sl_context (mLayers stack' ! i)) ''control_data_length'' = Some nAfter \<and>
     getValue (sl_context (mLayers stack' ! i)) ''control_data_length'' =
       Some (of_nat (nAfter + sum_list (map (length \<circ> bp_bytes \<circ> snd) (drop (Suc i) (sp_layers pkt)))))"
proof -
  obtain ls b ls' where load: "load_layers dist s (mLayers stack) (mBuilder s) = (ls, b)"
    and frame: "list_all2 same_frame (mLayers stack) ls" and w: "wired (contexts ls)"
    and len': "length ls' = length ls"
    and each: "\<forall>i<length ls. onEncode (sl_logic (ls ! i)) (contexts ls) (sl_context (ls ! i))
          = Some (sl_logic (ls' ! i), sl_context (ls' ! i)) \<and>
        ctx_shape (sl_context (ls' ! i)) = ctx_shape (sl_context (ls ! i)) \<and>
        layer_key (ls' ! i) = layer_key (ls ! i)"
    and gen: "generateStack dist s stack =
      Some (\<lparr>sp_bytes = concat (map (bp_bytes \<circ> pack_layer) ls'),
             sp_layers = map (\<lambda>l. (serviceName l, pack_layer l)) ls'\<rparr>,
            stack\<lparr>mLayers := ls'\<rparr>, s\<lparr>mBuilder := b\<rparr>)"
    using generateStack_wired [OF assms(1), of dist s] by blast
  note shape = each [rule_format, THEN conjunct2, THEN conjunct1]
  let ?ctx = "sl_context (ls ! i)" and ?ctx' = "sl_context (ls' ! i)"
  have len: "length ls = length (mLayers stack)"
    using list_all2_lengthD [OF frame] by simp
  then have i: "i < length ls"
    using assms(5) by simp
  have res: "mLayers stack' = ls'" "sp_layers pkt = map (\<lambda>l. (serviceName l, pack_layer l)) ls'"
    using assms(4) gen by auto
  have "sl_logic (ls ! i) = AecpAemLogic c"
    using same_frameD(2) list_all2_nthD [OF frame assms(5)] assms(6) by simp
  then have onenc: "aecp_onEncode c (contexts ls) ?ctx = Some (sl_logic (ls' ! i), ?ctx')"
    using each [rule_format, OF i] by simp
  have names: "''control_data_length'' \<in> set (field_names ?ctx)"
    using assms(7) res(1) shape_names [OF shape [OF i]] by simp
  have above: "bytesAbove (contexts ls) ?ctx = Some (sum_list (map byteSize (drop (Suc i) (contexts ls))))"
    using bytesAbove_wired [OF w, of i] i by (simp add: contexts_def)
  obtain nAfter where nAfter: "bytesAfter ?ctx ''control_data_length'' = Some nAfter"
      "getValue ?ctx' ''control_data_length''
        = Some (of_nat (nAfter + sum_list (map byteSize (drop (Suc i) (contexts ls)))))"
    using aecp_control_data_length [OF names above, of c] onenc by auto
  have sane: "list_all (sane_context \<circ> sl_context) ls"
    using load_layers_sane [OF assms(2,3), of dist "mBuilder s"] by (simp add: load)
  have size: "length (bp_bytes (pack_layer (ls' ! j))) = byteSize (sl_context (ls ! j))"
    if "j < length ls" for j
    using pack_layer_length [of "ls' ! j"] sane_context_shape [OF shape [OF that]]
      shape_byteSize [OF shape [OF that]] sane that by (simp add: list_all_length)
  have "map (length \<circ> bp_bytes \<circ> snd) (drop (Suc i) (sp_layers pkt))
      = map byteSize (drop (Suc i) (contexts ls))"
    by (rule nth_equalityI) (simp_all add: res len' contexts_def size)
  moreover have "bytesAfter ?ctx' ''control_data_length'' = bytesAfter ?ctx ''control_data_length''"
    by (rule shape_bytesAfter [OF shape [OF i]])
  ultimately show ?thesis
    using nAfter res(1) by simp
qed

subsection \<open>Decoding a generated frame\<close>

text \<open>What decoding recovers of a packed layer: the slice, and every value cut to its width.\<close>

definition truncated_layer :: "StackLayer \<Rightarrow> BuiltPacket" where
  "truncated_layer l =
     \<lparr>bp_bytes = bp_bytes (pack_layer l),
      bp_fields = map (\<lambda>f. (fld_name f, take_bit (loopCount (fld_bits f)) (fld_value f)))
        (mFields (sl_context l))\<rparr>"

fun decode_plain :: "'g Session \<Rightarrow> bytes \<Rightarrow> StackLayer list \<Rightarrow> nat \<Rightarrow> Layer list" where
  "decode_plain s bs [] off = []"
| "decode_plain s bs (l # ls) off = (case interfaceForLayer s l of
     None \<Rightarrow> (serviceName l, empty_packet) # decode_plain s bs ls off
   | Some iface \<Rightarrow> (serviceName l, decode iface (varDatabase s) bs off)
       # decode_plain s bs ls (off + layerBytes iface (varDatabase s)))"

lemma decode_layers_plain:
  "distinct is \<Longrightarrow> set is \<subseteq> {..<length ls} \<Longrightarrow>
     snd (decode_layers s bs is ls off acc) = acc @ decode_plain s bs (map (\<lambda>i. ls ! i) is) off"
proof (induction "is" arbitrary: ls off acc)
  case (Cons i "is")
  have upd: "map (\<lambda>j. ls[i := l] ! j) is = map (\<lambda>j. ls ! j) is" for l
    using Cons.prems by (intro map_cong refl nth_list_update_neq) auto
  show ?case
    using Cons by (simp add: Let_def upd split: option.split)
qed simp

lemma decodeStack_plain:
  "fst (decodeStack s stack bs) = \<lparr>sp_bytes = bs, sp_layers = decode_plain s bs (mLayers stack) 0\<rparr>"
  using decode_layers_plain [of "[0..<length (mLayers stack)]" "mLayers stack" s bs 0 "[]"]
  by (simp add: decodeStack_def split_beta map_nth atLeast0LessThan)

text \<open>
  A context agrees with an interface when it holds the fields of the layout, in order, with
  their declared widths.
\<close>

definition agrees :: "Var Database \<Rightarrow> ProtocolInterface \<Rightarrow> LayerContext \<Rightarrow> bool" where
  "agrees db iface ctx \<longleftrightarrow> map (\<lambda>f. (fld_name f, fld_bits f)) (mFields ctx)
     = map (\<lambda>f. (fst f, getSize (snd f))) (layout db (mVarRefs iface))"

lemma agrees_names: "agrees db iface ctx \<Longrightarrow> map fst (layout db (mVarRefs iface)) = map fld_name (mFields ctx)"
  unfolding agrees_def by (drule arg_cong [where f = "map fst"]) (simp add: comp_def)

lemma agrees_sizes: "agrees db iface ctx \<Longrightarrow> field_sizes (layout db (mVarRefs iface)) = map snd (context_codes ctx)"
  unfolding agrees_def by (drule arg_cong [where f = "map snd"]) (simp add: comp_def field_sizes_def context_codes_def)

lemma layout_sane:
  assumes "sane_widths db" and "agrees db iface ctx"
  shows "sane_context ctx"
proof -
  have "unat (getSize (snd f)) < 2 ^ 31" if "f \<in> set (layout db (mVarRefs iface))" for f
    using that assms(1) by (auto simp: layout_mem dest: sane_widthsD)
  then have "\<forall>w\<in>set (field_sizes (layout db (mVarRefs iface))). unat w < 2 ^ 31"
    by (auto simp: field_sizes_def)
  then show ?thesis
    unfolding agrees_sizes [OF assms(2)] by (auto simp: sane_context_unat context_codes_def)
qed

lemma pack_layer_layerBytes:
  assumes "sane_widths db" and "agrees db iface (sl_context l)"
  shows "length (bp_bytes (pack_layer l)) = layerBytes iface db"
proof -
  have "layer_bits (layout db (mVarRefs iface)) = sum_list (map (unat \<circ> fld_bits) (mFields (sl_context l)))"
    unfolding layer_bits_def agrees_sizes [OF assms(2)] by (simp add: context_codes_def comp_def)
  then show ?thesis
    using pack_layer_length [OF layout_sane [OF assms]] by (simp add: layerBytes_eq byteSize_eq)
qed

lemma decode_pack_layer:
  assumes "sane_widths db" and "agrees db iface (sl_context l)"
  shows "decode iface db (pre @ bp_bytes (pack_layer l) @ post) (length pre) = truncated_layer l"
proof -
  let ?bs = "bp_bytes (pack_layer l)" and ?ctx = "sl_context l"
  have "wire.get_all (map snd (context_codes ?ctx)) (pre @ ?bs @ post) (8 * length pre)
      = map (\<lambda>(v, n). take_bit (loopCount n) v) (context_codes ?ctx)"
    by (rule wire.get_all_put_all_framed [OF packed_empty]) (simp add: pack_layer_eq)
  then have "bp_fields (decode iface db (pre @ ?bs @ post) (length pre)) = bp_fields (truncated_layer l)"
    by (simp add: decode_def Let_def decode_loop_eq mult.commute agrees_names [OF assms(2)]
        agrees_sizes [OF assms(2)] truncated_layer_def context_codes_def comp_def zip_map1 zip_map2
        zip_same_conv_map)
  moreover have "bp_bytes (decode iface db (pre @ ?bs @ post) (length pre)) = ?bs"
    by (rule decode_slice_bytes [OF pack_layer_layerBytes [OF assms]])
  ultimately show ?thesis
    by (simp add: truncated_layer_def)
qed

lemma decode_plain_packed:
  assumes "sane_widths (varDatabase s)"
    and "list_all (\<lambda>l. \<exists>iface. interfaceForLayer s l = Some iface \<and>
          agrees (varDatabase s) iface (sl_context l)) ls"
  shows "decode_plain s (pre @ concat (map (bp_bytes \<circ> pack_layer) ls) @ post) ls (length pre)
     = map (\<lambda>l. (serviceName l, truncated_layer l)) ls"
  using assms(2)
proof (induction ls arbitrary: pre)
  case (Cons l ls)
  then obtain iface where iface: "interfaceForLayer s l = Some iface"
    and ag: "agrees (varDatabase s) iface (sl_context l)" by auto
  have "length pre + layerBytes iface (varDatabase s) = length (pre @ bp_bytes (pack_layer l))"
    using pack_layer_layerBytes [OF assms(1) ag] by simp
  then show ?case
    using Cons.IH [of "pre @ bp_bytes (pack_layer l)"] Cons.prems decode_pack_layer [OF assms(1) ag, of pre]
    by (simp add: iface)
qed simp

text \<open>
  With distinct short names per interface, a loaded context agrees with its interface. (The
  width of a field is looked up by its short name, so a repeated name would get the width of its
  first occurrence.)
\<close>

definition distinct_short_names :: "ProtocolInterface \<Rightarrow> bool" where
  "distinct_short_names iface \<longleftrightarrow> distinct (map shortName (mVarRefs iface))"

lemma field_width_layout:
  "distinct (map shortName refs) \<Longrightarrow> f \<in> set (layout db refs) \<Longrightarrow>
     field_width db (fst f) refs = getSize (snd f) \<and> getSize (snd f) \<noteq> 0"
proof (induction refs)
  case (Cons ref refs)
  show ?case
  proof (cases "f \<in> set (layout db refs)")
    case True
    then have "fst f \<in> shortName ` set refs"
      by (auto simp: layout_mem)
    then show ?thesis
      using Cons True by auto
  next
    case False
    then show ?thesis
      using Cons.prems by (auto split: option.splits if_splits)
  qed
qed simp

lemma loaded_fields_layout:
  assumes "\<And>f. f \<in> set L \<Longrightarrow> field_width db (fst f) refs = getSize (snd f) \<and> getSize (snd f) \<noteq> 0"
    and "length vs = length L"
  shows "map (\<lambda>f. (fld_name f, fld_bits f)) (loaded_fields db refs (zip (map fst L) vs))
     = map (\<lambda>f. (fst f, getSize (snd f))) L"
  using assms(2,1) by (induction vs L rule: list_induct2) (auto simp: loaded_fields_def)

lemma load_layer_agrees:
  assumes "interfaceForLayer s l = Some iface" and "distinct_short_names iface"
  shows "agrees (varDatabase s) iface (sl_context (fst (load_layer dist s l b)))"
proof -
  let ?L = "layout (varDatabase s) (mVarRefs iface)"
  obtain vs g' where c: "choose_all dist Map.empty ?L (mRng b) = (vs, g')"
    by fastforce
  have fields: "bp_fields (fst (buildWithFields dist b iface (varDatabase s))) = zip (map fst ?L) vs"
    using buildWithOverrides_eq [OF c] by (simp add: buildWithFields_eq)
  have "map (\<lambda>f. (fld_name f, fld_bits f)) (loaded_fields (varDatabase s) (mVarRefs iface) (zip (map fst ?L) vs))
      = map (\<lambda>f. (fst f, getSize (snd f))) ?L"
    using field_width_layout assms(2) choose_all_length [OF c]
    by (intro loaded_fields_layout) (auto simp: distinct_short_names_def)
  then show ?thesis
    by (simp add: agrees_def load_layer_def assms(1) split_beta populateContext_eq fields)
qed

lemma load_layers_agrees:
  "list_all (\<lambda>l. \<exists>iface. interfaceForLayer s l = Some iface \<and> distinct_short_names iface) ls \<Longrightarrow>
     list_all2 (\<lambda>l l'. \<exists>iface. interfaceForLayer s l = Some iface \<and>
       agrees (varDatabase s) iface (sl_context l')) ls (fst (load_layers dist s ls b))"
proof (induction ls arbitrary: b)
  case (Cons l ls)
  then show ?case
    using load_layer_agrees [of s l _ dist b] by (auto simp: split_beta)
qed simp

text \<open>
  After a generation every context still agrees with the interface of its layer: the modules
  change values, not the layout.
\<close>

lemma generateStack_agrees:
  assumes "wired (contexts (mLayers stack))"
    and "list_all (\<lambda>l. \<exists>iface. interfaceForLayer s l = Some iface \<and> distinct_short_names iface) (mLayers stack)"
    and "generateStack dist s stack = Some (pkt, stack', s')"
  shows "length (mLayers stack') = length (mLayers stack) \<and>
    (\<forall>i<length (mLayers stack). \<exists>iface. interfaceForLayer s (mLayers stack ! i) = Some iface \<and>
       layer_key (mLayers stack' ! i) = layer_key (mLayers stack ! i) \<and>
       agrees (varDatabase s) iface (sl_context (mLayers stack' ! i)))"
proof -
  obtain ls b ls' where load: "load_layers dist s (mLayers stack) (mBuilder s) = (ls, b)"
    and frame: "list_all2 same_frame (mLayers stack) ls" and len': "length ls' = length ls"
    and each: "\<forall>i<length ls. onEncode (sl_logic (ls ! i)) (contexts ls) (sl_context (ls ! i))
          = Some (sl_logic (ls' ! i), sl_context (ls' ! i)) \<and>
        ctx_shape (sl_context (ls' ! i)) = ctx_shape (sl_context (ls ! i)) \<and>
        layer_key (ls' ! i) = layer_key (ls ! i)"
    and gen: "generateStack dist s stack =
      Some (\<lparr>sp_bytes = concat (map (bp_bytes \<circ> pack_layer) ls'),
             sp_layers = map (\<lambda>l. (serviceName l, pack_layer l)) ls'\<rparr>,
            stack\<lparr>mLayers := ls'\<rparr>, s\<lparr>mBuilder := b\<rparr>)"
    using generateStack_wired [OF assms(1), of dist s] by blast
  have res: "mLayers stack' = ls'"
    using assms(3) gen by auto
  have len: "length ls = length (mLayers stack)"
    using list_all2_lengthD [OF frame] by simp
  have ag: "list_all2 (\<lambda>l l'. \<exists>iface. interfaceForLayer s l = Some iface \<and>
      agrees (varDatabase s) iface (sl_context l')) (mLayers stack) ls"
    using load_layers_agrees [OF assms(2), of dist "mBuilder s"] by (simp add: load)
  have "\<exists>iface. interfaceForLayer s (mLayers stack ! i) = Some iface \<and>
       layer_key (ls' ! i) = layer_key (mLayers stack ! i) \<and> agrees (varDatabase s) iface (sl_context (ls' ! i))"
    if i: "i < length (mLayers stack)" for i
  proof -
    obtain iface where "interfaceForLayer s (mLayers stack ! i) = Some iface"
      and "agrees (varDatabase s) iface (sl_context (ls ! i))"
      using list_all2_nthD [OF ag i] by blast
    then show ?thesis
      using each [rule_format, of i] same_frameD [OF list_all2_nthD [OF frame i]] i len
      by (simp add: agrees_def ctx_shape_def layer_key_def)
  qed
  then show ?thesis
    using res len len' by simp
qed

lemma generateStack_result:
  assumes "wired (contexts (mLayers stack))" and "generateStack dist s stack = Some (pkt, stack', s')"
  shows "sp_bytes pkt = concat (map (bp_bytes \<circ> pack_layer) (mLayers stack'))"
    "sp_layers pkt = map (\<lambda>l. (serviceName l, pack_layer l)) (mLayers stack')" "mParser s' = mParser s"
  using assms(2) by (auto simp: generateStack_def split_beta pack_layers_eq split: option.splits)

lemma interfaceForLayer_parser:
  "mParser s' = mParser s \<Longrightarrow> interfaceForLayer s' l = interfaceForLayer s l"
  "mParser s' = mParser s \<Longrightarrow> varDatabase s' = varDatabase s"
  by (simp_all add: interfaceForLayer_def interfaceDatabase_def varDatabase_def)

text \<open>The round trip of the stack runtime.\<close>

lemma generateStack_decodes:
  assumes "wired (contexts (mLayers stack))" and "sane_widths (varDatabase s)"
    and "list_all (\<lambda>l. \<exists>iface. interfaceForLayer s l = Some iface \<and> distinct_short_names iface) (mLayers stack)"
    and "generateStack dist s stack = Some (pkt, stack', s')"
  shows "fst (decodeStack s' stack' (sp_bytes pkt)) =
      \<lparr>sp_bytes = sp_bytes pkt, sp_layers = map (\<lambda>l. (serviceName l, truncated_layer l)) (mLayers stack')\<rparr>"
proof -
  note res = generateStack_result [OF assms(1,4)]
  have ag: "length (mLayers stack') = length (mLayers stack)"
    "\<forall>i<length (mLayers stack). \<exists>iface. interfaceForLayer s (mLayers stack ! i) = Some iface \<and>
       layer_key (mLayers stack' ! i) = layer_key (mLayers stack ! i) \<and>
       agrees (varDatabase s) iface (sl_context (mLayers stack' ! i))"
    using generateStack_agrees [OF assms(1,3,4)] by auto
  have "list_all (\<lambda>l. \<exists>iface. interfaceForLayer s' l = Some iface \<and>
      agrees (varDatabase s') iface (sl_context l)) (mLayers stack')"
    unfolding list_all_length interfaceForLayer_parser [OF res(3)] ag(1)
    using ag(2) interfaceForLayer_key by metis
  moreover have "sane_widths (varDatabase s')"
    using assms(2) by (simp add: interfaceForLayer_parser [OF res(3)])
  ultimately show ?thesis
    using decode_plain_packed [of s' "mLayers stack'" "[]" "[]"] by (simp add: decodeStack_plain res(1))
qed

text \<open>The fields of a generated layer have distinct names and widths the packing loop can count.\<close>

lemma layout_names_distinct: "distinct (map shortName refs) \<Longrightarrow> distinct (map fst (layout db refs))"
proof -
  have "set (map fst (layout db refs)) \<subseteq> shortName ` set refs" for refs
    by (induction refs) (auto split: option.splits if_splits)
  then show "distinct (map shortName refs) \<Longrightarrow> distinct (map fst (layout db refs))"
    by (induction refs) (auto split: option.splits if_splits)
qed

lemma generated_layer_fields:
  assumes "wired (contexts (mLayers stack))" and "sane_widths (varDatabase s)"
    and "list_all (\<lambda>l. \<exists>iface. interfaceForLayer s l = Some iface \<and> distinct_short_names iface) (mLayers stack)"
    and "generateStack dist s stack = Some (pkt, stack', s')" and "i < length (mLayers stack)"
  shows "distinct (map fld_name (mFields (sl_context (mLayers stack' ! i))))" "sane_context (sl_context (mLayers stack' ! i))"
    "i < length (mLayers stack')"
proof -
  obtain iface where iface: "interfaceForLayer s (mLayers stack ! i) = Some iface" "agrees (varDatabase s) iface (sl_context (mLayers stack' ! i))"
    and len: "length (mLayers stack') = length (mLayers stack)"
    using generateStack_agrees [OF assms(1,3,4)] assms(5) by blast
  have "distinct_short_names iface"
    using assms(3,5) iface(1) by (auto simp: list_all_length)
  then show "distinct (map fld_name (mFields (sl_context (mLayers stack' ! i))))"
    using layout_names_distinct agrees_names [OF iface(2)] by (metis distinct_short_names_def)
  show "sane_context (sl_context (mLayers stack' ! i))"
    by (rule layout_sane [OF assms(2) iface(2)])
  show "i < length (mLayers stack')"
    using assms(5) len by simp
qed

text \<open>A stack fresh from \<^verbatim>\<open>loadStack\<close> meets the conditions of the runtime.\<close>

lemma loadStack_success:
  assumes "loadStack px ry reg s path = (c, Some stack)"
  shows "c = STACK_SUCCESS" and "wired (contexts (mLayers stack))"
    and "list_all (layer_bound (serviceDatabase s) reg) (mLayers stack)"
    and "list_all (sane_context \<circ> sl_context) (mLayers stack)"
proof -
  obtain tree where tree: "build_tree ry (serviceDatabase s) reg tree = Inr stack" and c: "c = STACK_SUCCESS"
    using assms by (cases rule: build_cases [of px path ry "serviceDatabase s" reg]) (auto simp: loadStack_def)
  show "c = STACK_SUCCESS" "wired (contexts (mLayers stack))"
    "list_all (layer_bound (serviceDatabase s) reg) (mLayers stack)"
    using c build_tree_Inr(3,4) [OF tree] by auto
  then show "list_all (sane_context \<circ> sl_context) (mLayers stack)"
    by (simp add: list_all_iff layer_bound_def sane_context_unat)
qed

end
