(* ===== verification/Example_Protocols.thy ===== *)
theory Example_Protocols
  imports Session
begin

text \<open>
  A small protocol set on which the theorems are evaluated: an Ethernet frame, an AVTP control
  header and an AECP command, each a service with one interface and the logic module the shipped
  protocol files bind to it, and the stack document that binds the three layers.
\<close>

definition ex_var :: "string \<Rightarrow> u32 \<Rightarrow> u64 list \<Rightarrow> string \<times> Var" where
  "ex_var n w vs = (n, \<lparr>var_mName = n, mSize = w, mExpectedValues = vs, mRange = None, mMask = 0\<rparr>)"

definition ex_vars :: "Var Database" where
  "ex_vars = \<lparr>internalMaps =
     [ex_var ''atdecc_aecp::control_data_length'' 11 [],
      ex_var ''atdecc_aecp::message_type'' 4 [0],
      ex_var ''atdecc_aecp::status'' 5 [],
      ex_var ''atdecc_aecp::target'' 12 [],
      ex_var ''avtp::subtype'' 8 [],
      ex_var ''avtp::sv'' 1 [],
      ex_var ''avtp::version'' 3 [],
      ex_var ''eth::ethertype'' 16 [0],
      ex_var ''eth::vlan'' 12 []]\<rparr>"

definition ex_iface :: "string \<Rightarrow> string list \<Rightarrow> ProtocolInterface" where
  "ex_iface n refs = \<lparr>mInterfaceName = n, mDirection = OUT, mVarRefs = refs\<rparr>"

definition ex_eth :: ProtocolInterface where
  "ex_eth = ex_iface ''eth::mac::frame'' [''eth::ethertype'', ''eth::vlan'']"

definition ex_avtp :: ProtocolInterface where
  "ex_avtp = ex_iface ''avtp::ctl::hdr'' [''avtp::subtype'', ''avtp::sv'', ''avtp::version'']"

definition ex_aecp :: ProtocolInterface where
  "ex_aecp = ex_iface ''atdecc_aecp::aem::cmd''
     [''atdecc_aecp::message_type'', ''atdecc_aecp::status'', ''atdecc_aecp::control_data_length'',
      ''atdecc_aecp::target'']"

definition ex_ifaces :: "ProtocolInterface Database" where
  "ex_ifaces = \<lparr>internalMaps = map (\<lambda>i. (mInterfaceName i, i)) [ex_aecp, ex_avtp, ex_eth]\<rparr>"

definition ex_services :: "ProtocolService Database" where
  "ex_services = \<lparr>internalMaps =
     [(''atdecc_aecp'', \<lparr>svc_mName = ''atdecc_aecp'', mLogicName = ''aecp_aem''\<rparr>),
      (''avtp'', \<lparr>svc_mName = ''avtp'', mLogicName = ''avtp_control''\<rparr>),
      (''eth'', \<lparr>svc_mName = ''eth'', mLogicName = ''ethernet_mac_frame''\<rparr>)]\<rparr>"

text \<open>A distribution that always draws the upper bound, and counts the draws.\<close>

definition ex_dist :: "nat distribution" where
  "ex_dist g lo hi = (hi, g + 1)"

lemma ex_dist_uniform: "uniform_dist ex_dist"
  by (simp add: uniform_dist_def ex_dist_def)

definition ex_session :: "nat Session" where
  "ex_session = \<lparr>mProtocolDir = ''p'',
     mParser = (new_parser ''p'')\<lparr>mDbs := \<lparr>dbVars = ex_vars, dbIfproto = ex_ifaces, dbServices = ex_services\<rparr>\<rparr>,
     mBuilder = \<lparr>mRng = 0\<rparr>\<rparr>"

lemma ex_varDatabase: "varDatabase ex_session = ex_vars"
  by (simp add: varDatabase_def ex_session_def)

lemma ex_sane: "sane_widths ex_vars"
  by (simp add: sane_widths_def ex_vars_def ex_var_def getSize_def)

lemma ex_consistent: "consistent_db ex_vars"
  by (simp add: consistent_db_def consistent_var_def ex_vars_def ex_var_def)

definition ex_layer :: "string \<Rightarrow> string \<Rightarrow> yaml" where
  "ex_layer svc ent = YMap [(''service'', YVal svc), (''entity'', YVal ent)]"

definition ex_doc :: yaml where
  "ex_doc = YMap [(''stack'', YVal ''aecp_over_eth''),
     (''layers'', YSeq [ex_layer ''eth'' ''mac'', ex_layer ''avtp'' ''ctl'', ex_layer ''atdecc_aecp'' ''aem''])]"

definition ex_files :: posix_files where
  "ex_files = files_api [(''s.yaml'', ''doc'')]"

definition ex_ryml :: "yaml ryml" where
  "ex_ryml = yaml_api (\<lambda>txt. if txt = ''doc'' then ex_doc else YNone)"

definition ex_stack :: Stack where
  "ex_stack = the (snd (loadStack ex_files ex_ryml shipped_registry ex_session ''s.yaml''))"

lemma ex_stack_loaded:
  "loadStack ex_files ex_ryml shipped_registry ex_session ''s.yaml'' = (STACK_SUCCESS, Some ex_stack)"
  by code_simp

lemmas ex_stack_wired = loadStack_success(2) [OF ex_stack_loaded]
lemmas ex_stack_sane = loadStack_success(4) [OF ex_stack_loaded]

lemma ex_stack_layers:
  "map layer_key (mLayers ex_stack)
     = [(''eth'', ''mac'', ''''), (''avtp'', ''ctl'', ''''), (''atdecc_aecp'', ''aem'', '''')]"
  "map sl_logic (mLayers ex_stack) = [EthernetFrameLogic 0 0 0, AvtpControlLogic 0, AecpAemLogic 0]"
  "map (interfaceForLayer ex_session) (mLayers ex_stack) = [Some ex_eth, Some ex_avtp, Some ex_aecp]"
  by code_simp+

end
