(* ===== verification/Session_Format.thy ===== *)
theory Session_Format
  imports Session Cpp_Numbers
begin

text \<open>
  The text formats of \<^verbatim>\<open>Session\<close> (traffic-gen/src/session.cpp, lines 268-350): packets as
  hexadecimal text and as JSON. \<^verbatim>\<open>fromHex\<close> reports success and fills the caller's vector;
  the model passes the vector's old contents in and returns the new ones.
\<close>

section \<open>Hexadecimal text\<close>

definition kHex :: string where
  "kHex = ''0123456789abcdef''"

definition toHex :: "bytes \<Rightarrow> string" where
  "toHex bs = foldl (\<lambda>s byte. s @ [kHex ! unat (drop_bit 4 byte)] @ [kHex ! unat (byte AND 0xF)]) [] bs"

fun fromHex_loop :: "string \<Rightarrow> bytes \<Rightarrow> bool \<times> bytes" where
  "fromHex_loop (a # b # rest) out =
     (let r = strtoull [a, b] 16 in
      if st_consumed r \<noteq> 2 then (False, out)
      else fromHex_loop rest (out @ [ucast (st_value r)]))"
| "fromHex_loop _ out = (True, out)"

definition fromHex :: "string \<Rightarrow> bytes \<Rightarrow> bool \<times> bytes" where
  "fromHex hex out = (if length hex mod 2 \<noteq> 0 then (False, out) else fromHex_loop hex [])"

section \<open>JSON\<close>

fun json_fields :: "nat \<Rightarrow> (string \<times> u64) list \<Rightarrow> string \<Rightarrow> string" where
  "json_fields i [] s = s"
| "json_fields i ((n, v) # fs) s =
     json_fields (i + 1) fs
       ((if i \<noteq> 0 then s @ '','' else s) @ [CHR 0x22] @ n @ [CHR 0x22] @ '':'' @ to_string v)"

definition toJson_packet :: "BuiltPacket \<Rightarrow> string" where
  "toJson_packet pkt =
     json_fields 0 (bp_fields pkt) (''{'' @ [CHR 0x22] @ ''fields'' @ [CHR 0x22] @ '':{'')
       @ ''},'' @ [CHR 0x22] @ ''hex'' @ [CHR 0x22] @ '':'' @ [CHR 0x22]
       @ toHex (bp_bytes pkt) @ [CHR 0x22] @ ''}''"

fun json_chain :: "nat \<Rightarrow> Layer list \<Rightarrow> string \<Rightarrow> string" where
  "json_chain i [] s = s"
| "json_chain i ((n, pkt) # ls) s =
     json_chain (i + 1) ls
       ((if i \<noteq> 0 then s @ '','' else s)
         @ ''{'' @ [CHR 0x22] @ ''iface'' @ [CHR 0x22] @ '':'' @ [CHR 0x22] @ n @ [CHR 0x22] @ '',''
         @ drop 1 (toJson_packet pkt))"

definition toJson_chain :: "Layer list \<Rightarrow> string" where
  "toJson_chain chain = json_chain 0 chain ''['' @ '']''"

definition toJson_stack :: "StackedPacket \<Rightarrow> string" where
  "toJson_stack pkt =
     ''{'' @ [CHR 0x22] @ ''hex'' @ [CHR 0x22] @ '':'' @ [CHR 0x22] @ toHex (sp_bytes pkt)
       @ [CHR 0x22] @ '','' @ [CHR 0x22] @ ''layers'' @ [CHR 0x22] @ '':''
       @ toJson_chain (sp_layers pkt) @ ''}''"

section \<open>Hexadecimal text: lemmas\<close>

lemma toHex_Nil [simp]: "toHex [] = []"
  by (simp add: toHex_def)

lemma foldl_toHex: "foldl (\<lambda>s byte. s @ [f byte, g byte]) acc bs = acc @ concat (map (\<lambda>b. [f b, g b]) bs)"
  by (induction bs arbitrary: acc) simp_all

lemma toHex_Cons [simp]: "toHex (b # bs) = kHex ! unat (drop_bit 4 b) # kHex ! unat (b AND 0xF) # toHex bs"
  by (simp add: toHex_def foldl_toHex)

lemma length_toHex [simp]: "length (toHex bs) = 2 * length bs"
  by (induction bs) simp_all

lemma digit_of_kHex: "n < 16 \<Longrightarrow> digit_of (kHex ! n) = Some n"
proof -
  have "list_all (\<lambda>n. digit_of (kHex ! n) = Some n) [0..<16]" by code_simp
  then show "n < 16 \<Longrightarrow> digit_of (kHex ! n) = Some n" by (simp add: list_all_iff)
qed

definition hex_pair :: "char \<Rightarrow> char \<Rightarrow> u8 option" where
  "hex_pair a b =
     (if is_digit 16 a \<and> is_digit 16 b then Some (of_int (digits_value 16 [a, b]))
      else if (isspace a \<or> a = CHR ''+'') \<and> is_digit 16 b then Some (of_int (digits_value 16 [b]))
      else if a = CHR ''-'' \<and> is_digit 16 b then Some (- of_int (digits_value 16 [b]))
      else None)"


lemma is_digit_not_special:
  assumes "is_digit b c"
  shows "\<not> isspace c" and "c \<noteq> CHR ''-''" and "c \<noteq> CHR ''+''" and "c \<noteq> CHR 0x00"
  using assms by (auto simp: is_digit_def digit_of_def isspace_def Let_def split: if_splits)

lemma digits_value_simps [simp]:
  "digits_value b [] = 0"
  "digits_value b [c] = (case digit_of c of Some d \<Rightarrow> int d | None \<Rightarrow> 0)"
  by (simp_all add: digits_value_def)

lemma hex_digit_small: "is_digit 16 c \<Longrightarrow> \<exists>d. digit_of c = Some d \<and> d < 16"
  by (auto simp: is_digit_def split: option.splits)

lemma strtoull_one_digit:
  assumes "is_digit 16 b" and "isspace a \<or> a = CHR ''+'' \<or> a = CHR ''-''"
  shows "strtoull [a, b] 16 = \<lparr>st_value = (if a = CHR ''-'' then - of_int (digits_value 16 [b]) else of_int (digits_value 16 [b])),
    st_consumed = 2, st_range_error = False\<rparr>"
proof -
  obtain d where "digit_of b = Some d" "d < 16"
    using hex_digit_small [OF assms(1)] by blast
  moreover have "\<not> is_digit 16 a" "a \<noteq> CHR 0x00" "isspace a \<Longrightarrow> a \<noteq> CHR ''-''"
    using assms(2) by (auto simp: isspace_def is_digit_def digit_of_def)
  ultimately show ?thesis
    using assms is_digit_not_special [OF assms(1)]
    by (auto simp: strtoull_def c_str_def split_sign_def split_base_def has_hex_prefix_def isspace_def Let_def)
qed

lemma strtoull_two_digits:
  assumes "is_digit 16 a" and "is_digit 16 b"
  shows "strtoull [a, b] 16 = \<lparr>st_value = of_int (digits_value 16 [a, b]), st_consumed = 2, st_range_error = False\<rparr>"
proof -
  obtain d e where "digit_of a = Some d" "d < 16" "digit_of b = Some e" "e < 16"
    using hex_digit_small assms by metis
  then show ?thesis
    using assms is_digit_not_special [OF assms(1)] is_digit_not_special [OF assms(2)]
    by (simp add: strtoull_def c_str_def split_sign_def split_base_def has_hex_prefix_def digits_value_def)
qed

lemma strtoull_rejects:
  assumes "hex_pair a b = None"
  shows "st_consumed (strtoull [a, b] 16) \<noteq> 2"
proof -
  have "\<not> (is_digit 16 a \<and> is_digit 16 b)" "is_digit 16 b \<Longrightarrow> \<not> isspace a \<and> a \<noteq> CHR ''+'' \<and> a \<noteq> CHR ''-''"
    using assms by (auto simp: hex_pair_def split: if_splits)
  then show ?thesis
    by (auto simp: strtoull_def c_str_def split_sign_def split_base_def has_hex_prefix_def Let_def
        split: if_splits)
qed

lemma ucast_minus_word_of_int: "ucast (- word_of_int n :: u64) = (- word_of_int n :: u8)"
  using ucast_word_of_int [where 'a = 64 and 'b = 8, of "- n"] by simp

lemma strtoull_hex_pair:
  "(case hex_pair a b of
      Some v \<Rightarrow> st_consumed (strtoull [a, b] 16) = 2 \<and> ucast (st_value (strtoull [a, b] 16)) = v
    | None \<Rightarrow> st_consumed (strtoull [a, b] 16) \<noteq> 2)"
proof (cases "hex_pair a b")
  case (Some v)
  consider "is_digit 16 a" "is_digit 16 b" | "\<not> is_digit 16 a" "is_digit 16 b" "isspace a \<or> a = CHR ''+'' \<or> a = CHR ''-''"
    using Some by (auto simp: hex_pair_def split: if_splits)
  then show ?thesis
  proof cases
    case 1
    then show ?thesis using Some
      by (simp add: strtoull_two_digits hex_pair_def ucast_word_of_int)
  next
    case 2
    then show ?thesis using Some
      by (auto simp: strtoull_one_digit hex_pair_def isspace_def ucast_word_of_int ucast_minus_word_of_int split: if_splits)
  qed
qed (simp add: strtoull_rejects)


fun decode_pairs :: "string \<Rightarrow> bytes option" where
  "decode_pairs (a # b # rest) = (case hex_pair a b of
     None \<Rightarrow> None | Some v \<Rightarrow> map_option (\<lambda>bs. v # bs) (decode_pairs rest))"
| "decode_pairs [] = Some []"
| "decode_pairs [_] = None"

lemma fromHex_loop_pairs:
  "even (length hex) \<Longrightarrow>
     (case decode_pairs hex of
        Some bs \<Rightarrow> fromHex_loop hex out = (True, out @ bs)
      | None \<Rightarrow> \<not> fst (fromHex_loop hex out))"
proof (induction hex out rule: fromHex_loop.induct)
  case (1 a b rest out)
  then show ?case
    using strtoull_hex_pair [of a b] by (auto simp: Let_def split: option.splits)
qed simp_all

lemma nibbles_value: "of_int (int (unat (drop_bit 4 b)) * 16 + int (unat (b AND 0xF))) = (b :: u8)"
proof -
  have "b = push_bit 4 (drop_bit 4 b) + (b AND 0xF)"
    using bits_ident [of 4 b] by (simp add: take_bit_eq_mask mask_eq_exp_minus_1)
  then show ?thesis
    by (simp add: push_bit_eq_mult mult.commute)
qed

lemma nibble_bounds: "unat (drop_bit 4 (b :: u8)) < 16" "unat (b AND 0xF) < 16"
proof -
  show "unat (drop_bit 4 b) < 16"
    using unsigned_less [of b, where ?'a = nat] by (simp add: unat_drop_bit_eq drop_bit_eq_div unat_div)
  show "unat (b AND 0xF) < 16"
    using word_and_le1 [of b "0xF"] by (simp add: word_le_nat_alt)
qed

lemma hex_pair_byte: "hex_pair (kHex ! unat (drop_bit 4 b)) (kHex ! unat (b AND 0xF)) = Some b"
  using nibble_bounds [of b] nibbles_value [of b]
  by (simp add: hex_pair_def is_digit_def digit_of_kHex digits_value_def)

lemma decode_pairs_toHex: "decode_pairs (toHex bs) = Some bs"
  by (induction bs) (simp_all add: hex_pair_byte)

text \<open>Reading back what \<^verbatim>\<open>toHex\<close> wrote succeeds, whatever the caller's vector held.\<close>

lemma fromHex_toHex: "fromHex (toHex bs) out = (True, bs)"
  using fromHex_loop_pairs [of "toHex bs" "[]"] by (simp add: fromHex_def decode_pairs_toHex)

section \<open>JSON: the document behind the text\<close>

text \<open>
  The documents the three serialisers write, and their compact rendering: no white space, members
  in order. Strings are rendered as they are; the sources do not escape names.
\<close>

datatype json =
    JNumber nat
  | JString string
  | JArray "json list"
  | JObject "(string \<times> json) list"

definition quoted :: "string \<Rightarrow> string" where
  "quoted s = [CHR 0x22] @ s @ [CHR 0x22]"

fun comma_separated :: "string list \<Rightarrow> string" where
  "comma_separated [] = []"
| "comma_separated [s] = s"
| "comma_separated (s # ss) = s @ '','' @ comma_separated ss"

fun render :: "json \<Rightarrow> string" where
  "render (JNumber n) = dec_digits n"
| "render (JString s) = quoted s"
| "render (JArray js) = ''['' @ comma_separated (map render js) @ '']''"
| "render (JObject ms) = ''{'' @ comma_separated (map (\<lambda>(n, j). quoted n @ '':'' @ render j) ms) @ ''}''"

definition packet_members :: "BuiltPacket \<Rightarrow> (string \<times> json) list" where
  "packet_members pkt =
     [(''fields'', JObject (map (\<lambda>(n, v). (n, JNumber (unat v))) (bp_fields pkt))),
      (''hex'', JString (toHex (bp_bytes pkt)))]"

definition layer_document :: "Layer \<Rightarrow> json" where
  "layer_document l = JObject ((''iface'', JString (fst l)) # packet_members (snd l))"

definition stack_document :: "StackedPacket \<Rightarrow> json" where
  "stack_document pkt = JObject
     [(''hex'', JString (toHex (sp_bytes pkt))), (''layers'', JArray (map layer_document (sp_layers pkt)))]"

lemma comma_separated_snoc:
  "comma_separated (ss @ [s]) = (if ss = [] then s else comma_separated ss @ '','' @ s)"
  by (induction ss rule: comma_separated.induct) auto


lemma comma_separated_append:
  "ss \<noteq> [] \<Longrightarrow> ts \<noteq> [] \<Longrightarrow> comma_separated (ss @ ts) = comma_separated ss @ '','' @ comma_separated ts"
proof (induction ss rule: comma_separated.induct)
  case (2 s)
  then show ?case by (cases ts) simp_all
qed auto

lemma json_fields_render:
  "json_fields i fs s =
     (if i \<noteq> 0 \<and> fs \<noteq> [] then s @ '','' else s)
       @ comma_separated (map (\<lambda>(n, v). quoted n @ '':'' @ to_string v) fs)"
proof (induction i fs s rule: json_fields.induct)
  case (2 i n v fs s)
  then show ?case by (cases fs) (simp_all add: quoted_def)
qed simp

lemma toJson_packet_render: "toJson_packet pkt = render (JObject (packet_members pkt))"
proof -
  have "(\<lambda>(n, j). quoted n @ '':'' @ render j) \<circ> (\<lambda>(n, v :: u64). (n, JNumber (unat v)))
      = (\<lambda>(n, v). quoted n @ '':'' @ to_string v)"
    by (auto simp: to_string_def)
  then show ?thesis
    by (simp add: toJson_packet_def json_fields_render packet_members_def) (simp add: quoted_def)
qed

lemma layer_document_render:
  "render (layer_document l)
     = ''{'' @ quoted ''iface'' @ '':'' @ quoted (fst l) @ '','' @ drop 1 (toJson_packet (snd l))"
  by (simp add: layer_document_def toJson_packet_render packet_members_def)

lemma json_chain_render:
  "json_chain i ls s =
     (if i \<noteq> 0 \<and> ls \<noteq> [] then s @ '','' else s) @ comma_separated (map (render \<circ> layer_document) ls)"
proof (induction i ls s rule: json_chain.induct)
  case (2 i n pkt ls s)
  then show ?case by (cases ls) (simp_all add: layer_document_render quoted_def)
qed simp

lemma toJson_chain_render: "toJson_chain ls = render (JArray (map layer_document ls))"
  by (simp add: toJson_chain_def json_chain_render comp_def)

section \<open>Properties\<close>

text \<open>Exactly which texts \<^verbatim>\<open>fromHex\<close> accepts and what it returns for them: an even number of
  characters whose pairs are two hexadecimal digits of either case, or one digit after a white-space
  character or a sign (a minus sign negates modulo 256); everything else is rejected. The pairs with white space or a
  sign are not hexadecimal text as documented.\<close>

lemma fromHex_pairs:
  "fst (fromHex hex out) = (decode_pairs hex \<noteq> None) \<and>
   (case decode_pairs hex of Some bs \<Rightarrow> snd (fromHex hex out) = bs \<and> 2 * length bs = length hex | None \<Rightarrow> True)"
proof (cases "even (length hex)")
  case True
  moreover have "decode_pairs hex = Some bs \<Longrightarrow> 2 * length bs = length hex" for bs
    by (induction hex arbitrary: bs rule: decode_pairs.induct) (auto split: option.splits)
  ultimately show ?thesis
    using fromHex_loop_pairs [of hex "[]"] by (auto simp: fromHex_def even_iff_mod_2_eq_zero split: option.splits)
next
  case False
  moreover have "odd (length hex) \<Longrightarrow> decode_pairs hex = None"
    by (induction hex rule: decode_pairs.induct) (auto split: option.splits)
  ultimately show ?thesis
    by (simp add: fromHex_def even_iff_mod_2_eq_zero)
qed

text \<open>The bytes a text of hexadecimal digits stands for.\<close>

fun hex_bytes :: "string \<Rightarrow> bytes" where
  "hex_bytes (a # b # rest) = of_nat (16 * the (digit_of a) + the (digit_of b)) # hex_bytes rest"
| "hex_bytes _ = []"

lemma decode_pairs_digits:
  "even (length hex) \<Longrightarrow> list_all (is_digit 16) hex \<Longrightarrow> decode_pairs hex = Some (hex_bytes hex)"
proof (induction hex rule: decode_pairs.induct)
  case (1 a b rest)
  then obtain d e where "digit_of a = Some d" "digit_of b = Some e"
    using hex_digit_small [of a] hex_digit_small [of b] by auto
  then have "hex_pair a b = Some (of_nat (16 * d + e))"
    using 1 by (simp add: hex_pair_def digits_value_def mult.commute)
  then show ?case
    using 1 \<open>digit_of a = Some d\<close> \<open>digit_of b = Some e\<close> by simp
qed simp_all

lemma decode_pairs_chars:
  "decode_pairs hex = Some bs \<Longrightarrow> list_all (\<lambda>c. is_digit 16 c \<or> isspace c \<or> c = CHR ''+'' \<or> c = CHR ''-'') hex"
  by (induction hex arbitrary: bs rule: decode_pairs.induct) (auto simp: hex_pair_def split: option.splits if_splits)

text \<open>C38: \<^verbatim>\<open>fromHex\<close> reads hexadecimal text: an even number of hexadecimal digits of either case gives the bytes they stand
  for, whatever the caller's vector held, and so the text \<^verbatim>\<open>toHex\<close> writes gives the bytes back; a text of odd length
  is refused and leaves the vector alone; and a text with a character that is neither a
  hexadecimal digit nor white space nor a sign is refused.\<close>

theorem fromHex_result:
  "(even (length hex) \<and> list_all (is_digit 16) hex \<longrightarrow> fromHex hex out = (True, hex_bytes hex)) \<and>
   (odd (length hex) \<longrightarrow> fromHex hex out = (False, out)) \<and>
   (\<not> list_all (\<lambda>c. is_digit 16 c \<or> isspace c \<or> c = CHR ''+'' \<or> c = CHR ''-'') hex \<longrightarrow> \<not> fst (fromHex hex out)) \<and>
   fromHex (toHex bs) out = (True, bs)"
proof (intro conjI impI)
  assume "even (length hex) \<and> list_all (is_digit 16) hex"
  then have "decode_pairs hex = Some (hex_bytes hex)"
    using decode_pairs_digits by simp
  then show "fromHex hex out = (True, hex_bytes hex)"
    using fromHex_pairs [of hex out] by (simp add: prod_eq_iff)
next
  assume "\<not> list_all (\<lambda>c. is_digit 16 c \<or> isspace c \<or> c = CHR ''+'' \<or> c = CHR ''-'') hex"
  then show "\<not> fst (fromHex hex out)"
    using fromHex_pairs [of hex out] decode_pairs_chars [of hex] by auto
qed (simp_all add: fromHex_def [of hex] even_iff_mod_2_eq_zero fromHex_toHex)

theorem fromHex_result_witness:
  "fromHex ''0aFF'' [7] = (True, [0x0A, 0xFF]) \<and> fromHex ''0aF'' [7] = (False, [7]) \<and> \<not> fst (fromHex ''0x10'' [7])"
proof -
  have "even (length ''0aFF'') \<and> list_all (is_digit 16) ''0aFF''" "hex_bytes ''0aFF'' = [0x0A, 0xFF]"
    "\<not> list_all (\<lambda>c. is_digit 16 c \<or> isspace c \<or> c = CHR ''+'' \<or> c = CHR ''-'') ''0x10''"
    by code_simp+
  then show ?thesis
    using fromHex_result [of "''0aFF''" "[7]"] fromHex_result [of "''0aF''" "[7]"] fromHex_result [of "''0x10''" "[7]"] by simp
qed

text \<open>The JSON of a stacked frame is the rendering of the documented document: an object with the
  frame's hexadecimal text and one object per layer, in frame order, holding the layer's name, its
  fields as numbers in wire order and its own hexadecimal text.\<close>

lemma toJson_stack_document: "toJson_stack pkt = render (stack_document pkt)"
  by (simp add: toJson_stack_def stack_document_def toJson_chain_render quoted_def)

end
