(* ===== verification/Validator.thy ===== *)
theory Validator
  imports Protocol_Parser
begin

text \<open>
  \<^verbatim>\<open>ProtocolValidator\<close> (parser/inc/tsn/validator.h, src/validator.cpp): the structural
  check of protocol and stack documents.

  A document is read through a parameter \<open>read_file\<close> (\<^verbatim>\<open>std::ifstream\<close>;
  \<open>None\<close> is a file that cannot be opened) and walked through the rapidyaml accessors, of
  which the validator uses three more: keys and source locations. The only exception that leaves
  the validator is the one of \<^verbatim>\<open>std::stoll\<close> in \<^verbatim>\<open>asInt\<close>; it ends a call with
  \<open>Throws\<close>.
\<close>

section \<open>Findings and the validation context\<close>

record 'n ryml_keys =
  ry_has_key :: "'n \<Rightarrow> bool"
  ry_key :: "'n \<Rightarrow> string"
  ry_location :: "'n \<Rightarrow> nat \<times> nat"

datatype Severity = ERROR | WARNING

record ValidationFinding =
  vf_file :: string
  vf_line :: nat
  vf_col :: nat
  vf_severity :: Severity
  vf_message :: string

record Ctx =
  ctx_path :: string
  ctx_out :: "ValidationFinding list"
  ctx_errors :: nat

text \<open>\<open>None\<close> is a default-constructed node reference, which is invalid.\<close>

definition ctx_add ::
    "'n ryml \<Rightarrow> 'n ryml_keys \<Rightarrow> 'n option \<Rightarrow> Severity \<Rightarrow> string \<Rightarrow> Ctx \<Rightarrow> Ctx" where
  "ctx_add ry rk node sev txt ctx =
     (let (line, col) = (case node of
            None \<Rightarrow> (0, 0)
          | Some n \<Rightarrow> if ry_invalid ry n then (0, 0) else ry_location rk n);
          f = \<lparr>vf_file = ctx_path ctx, vf_line = line, vf_col = col, vf_severity = sev, vf_message = txt\<rparr>
      in ctx\<lparr>ctx_errors := (if sev = ERROR then ctx_errors ctx + 1 else ctx_errors ctx),
             ctx_out := ctx_out ctx @ [f]\<rparr>)"

text \<open>Message texts: concatenation, and a name in single quotes.\<close>

definition msg :: "string list \<Rightarrow> string" where
  "msg parts = concat parts"

definition sq :: "string \<Rightarrow> string" where
  "sq s = [CHR 0x27] @ s @ [CHR 0x27]"

section \<open>The checks\<close>

definition isNonEmptyScalar :: "'n ryml \<Rightarrow> 'n \<Rightarrow> bool" where
  "isNonEmptyScalar ry n \<longleftrightarrow> \<not> ry_invalid ry n \<and> ry_has_val ry n \<and> ry_val ry n \<noteq> []"

definition isUintScalar :: "'n ryml \<Rightarrow> 'n \<Rightarrow> bool" where
  "isUintScalar ry n =
     (if ry_invalid ry n \<or> \<not> ry_has_val ry n then False
      else
        let s = ry_val ry n in
        if s = [] \<or> hd s = CHR ''-'' \<or> hd s = CHR ''+'' then False
        else case stoull s 0 of
            Some (_, consumed) \<Rightarrow> consumed = length s
          | None \<Rightarrow> False)"

definition asInt :: "'n ryml \<Rightarrow> 'n \<Rightarrow> int run" where
  "asInt ry n = (case stoll (ry_val ry n) 0 of Some v \<Rightarrow> Returns v | None \<Rightarrow> Throws)"

definition checkAllowedKeys ::
    "'n ryml \<Rightarrow> 'n ryml_keys \<Rightarrow> 'n \<Rightarrow> string list \<Rightarrow> string \<Rightarrow> Ctx \<Rightarrow> Ctx" where
  "checkAllowedKeys ry rk node allowed loc ctx =
     fold (\<lambda>child ctx.
         if \<not> ry_has_key rk child then ctx
         else
           let key = ry_key rk child in
           if key \<notin> set allowed
           then ctx_add ry rk (Some child) ERROR
                  (msg [''unknown key '', sq key, '' in '', loc, '' (not part of the protocol schema)'']) ctx
           else ctx)
       (ry_children ry node) ctx"

definition add_if ::
    "'n ryml \<Rightarrow> 'n ryml_keys \<Rightarrow> bool \<Rightarrow> 'n \<Rightarrow> string \<Rightarrow> Ctx \<Rightarrow> Ctx" where
  "add_if ry rk c n txt ctx = (if c then ctx_add ry rk (Some n) ERROR txt ctx else ctx)"

fun check_value_items :: "'n ryml \<Rightarrow> 'n ryml_keys \<Rightarrow> string \<Rightarrow> 'n list \<Rightarrow> Ctx \<Rightarrow> Ctx" where
  "check_value_items ry rk varName [] ctx = ctx"
| "check_value_items ry rk varName (item # items) ctx =
     (if \<not> isUintScalar ry item
      then ctx_add ry rk (Some item) ERROR
             (msg [''expected.values of '', sq varName, '' must contain unsigned integers'']) ctx
      else check_value_items ry rk varName items ctx)"

definition check_value :: "'n ryml \<Rightarrow> 'n ryml_keys \<Rightarrow> 'n \<Rightarrow> string \<Rightarrow> Ctx \<Rightarrow> Ctx" where
  "check_value ry rk expected varName ctx =
     add_if ry rk (ry_has_child ry expected ''value'' \<and> \<not> isUintScalar ry (ry_child ry expected ''value''))
       (ry_child ry expected ''value'')
       (msg [''expected.value of '', sq varName, '' must be an unsigned integer'']) ctx"

definition check_values :: "'n ryml \<Rightarrow> 'n ryml_keys \<Rightarrow> 'n \<Rightarrow> string \<Rightarrow> Ctx \<Rightarrow> Ctx" where
  "check_values ry rk expected varName ctx =
     (if ry_has_child ry expected ''values'' then
        let v = ry_child ry expected ''values'' in
        if \<not> ry_is_seq ry v \<or> length (ry_children ry v) = 0
        then ctx_add ry rk (Some v) ERROR (msg [''expected.values of '', sq varName, '' must be a non-empty list'']) ctx
        else check_value_items ry rk varName (ry_children ry v) ctx
      else ctx)"

definition check_range :: "'n ryml \<Rightarrow> 'n ryml_keys \<Rightarrow> 'n \<Rightarrow> string \<Rightarrow> Ctx \<Rightarrow> Ctx" where
  "check_range ry rk expected varName ctx =
     (if ry_has_child ry expected ''range'' then
        let r = ry_child ry expected ''range'' in
        add_if ry rk (\<not> ry_is_seq ry r \<or> length (ry_children ry r) \<noteq> 2 \<or>
            \<not> isUintScalar ry (ry_children ry r ! 0) \<or> \<not> isUintScalar ry (ry_children ry r ! 1)) r
          (msg [''expected.range of '', sq varName, '' must be [min, max] unsigned integers'']) ctx
      else ctx)"

definition check_mask :: "'n ryml \<Rightarrow> 'n ryml_keys \<Rightarrow> 'n \<Rightarrow> string \<Rightarrow> Ctx \<Rightarrow> Ctx" where
  "check_mask ry rk expected varName ctx =
     (if ry_has_child ry expected ''mask'' then
        let m = ry_child ry expected ''mask'' in
        add_if ry rk (\<not> ry_is_seq ry m \<or> length (ry_children ry m) \<noteq> 1 \<or> \<not> isUintScalar ry (ry_children ry m ! 0)) m
          (msg [''expected.mask of '', sq varName, '' must be a single-element [M] list'']) ctx
      else ctx)"

definition validateExpected :: "'n ryml \<Rightarrow> 'n ryml_keys \<Rightarrow> 'n \<Rightarrow> string \<Rightarrow> Ctx \<Rightarrow> Ctx" where
  "validateExpected ry rk expected varName ctx =
     (if \<not> ry_is_map ry expected
      then ctx_add ry rk (Some expected) ERROR (msg [sq ''expected'', '' for var '', sq varName, '' must be a map'']) ctx
      else
        let ctx = checkAllowedKeys ry rk expected [''value'', ''values'', ''range'', ''mask'']
                    (msg [''expected of var '', sq varName]) ctx;
            ctx = check_value ry rk expected varName ctx;
            ctx = check_values ry rk expected varName ctx;
            ctx = check_range ry rk expected varName ctx
        in check_mask ry rk expected varName ctx)"

definition check_size :: "'n ryml \<Rightarrow> 'n ryml_keys \<Rightarrow> 'n \<Rightarrow> string \<Rightarrow> Ctx \<Rightarrow> Ctx run" where
  "check_size ry rk var name ctx =
     (if \<not> ry_has_child ry var ''size''
      then Returns (ctx_add ry rk (Some var) ERROR (msg [''var '', sq name, '' missing '', sq ''size'']) ctx)
      else
        let sz = ry_child ry var ''size'' in
        if \<not> isUintScalar ry sz
        then Returns (ctx_add ry rk (Some sz) ERROR (msg [''var '', sq name, '' size must be an unsigned integer'']) ctx)
        else run_bind (asInt ry sz) (\<lambda>bits.
          Returns (add_if ry rk (bits < 1 \<or> bits > 4096) sz
            (msg [''var '', sq name, '' size must be in 1..4096 bits'']) ctx)))"

text \<open>The name an entry is reported under, and the finding when it has none.\<close>

definition check_name ::
    "'n ryml \<Rightarrow> 'n ryml_keys \<Rightarrow> 'n \<Rightarrow> string \<Rightarrow> string \<Rightarrow> Ctx \<Rightarrow> string \<times> Ctx" where
  "check_name ry rk n key txt ctx =
     (if \<not> ry_has_child ry n key \<or> \<not> isNonEmptyScalar ry (ry_child ry n key)
      then (''?'', ctx_add ry rk (Some n) ERROR txt ctx)
      else (ry_val ry (ry_child ry n key), ctx))"

definition validateVar :: "'n ryml \<Rightarrow> 'n ryml_keys \<Rightarrow> 'n \<Rightarrow> Ctx \<Rightarrow> Ctx run" where
  "validateVar ry rk var ctx =
     (if \<not> ry_is_map ry var
      then Returns (ctx_add ry rk (Some var) ERROR (msg [''each '', sq ''vars'', '' entry must be a map'']) ctx)
      else
        let ctx = checkAllowedKeys ry rk var [''var'', ''size'', ''expected''] ''a vars entry'' ctx;
            (name, ctx) = check_name ry rk var ''var''
              (msg [''vars entry missing a non-empty '', sq ''var'', '' name'']) ctx
        in run_bind (check_size ry rk var name ctx) (\<lambda>ctx.
             Returns (if ry_has_child ry var ''expected''
                      then validateExpected ry rk (ry_child ry var ''expected'') name ctx else ctx)))"

fun check_refs :: "'n ryml \<Rightarrow> 'n ryml_keys \<Rightarrow> string \<Rightarrow> 'n list \<Rightarrow> Ctx \<Rightarrow> Ctx" where
  "check_refs ry rk name [] ctx = ctx"
| "check_refs ry rk name (ref # refs) ctx =
     (if \<not> ry_is_map ry ref \<or> \<not> ry_has_child ry ref ''var_ref''
      then ctx_add ry rk (Some ref) ERROR
             (msg [''interface '', sq name, '' vars entries must be '', sq ''{ var_ref: name }'']) ctx
      else check_refs ry rk name refs
             (checkAllowedKeys ry rk ref [''var_ref''] (msg [''a var_ref of interface '', sq name]) ctx))"

definition check_dir :: "'n ryml \<Rightarrow> 'n ryml_keys \<Rightarrow> 'n \<Rightarrow> string \<Rightarrow> Ctx \<Rightarrow> Ctx" where
  "check_dir ry rk iface name ctx =
     (if \<not> ry_has_child ry iface ''dir''
      then ctx_add ry rk (Some iface) ERROR (msg [''interface '', sq name, '' missing '', sq ''dir'']) ctx
      else
        let dir = ry_val ry (ry_child ry iface ''dir'') in
        add_if ry rk (dir \<noteq> ''in'' \<and> dir \<noteq> ''out'') (ry_child ry iface ''dir'')
          (msg [''interface '', sq name, '' dir must be '', sq ''in'', '' or '', sq ''out'', '' (got '', sq dir, '')'']) ctx)"

definition validateInterface :: "'n ryml \<Rightarrow> 'n ryml_keys \<Rightarrow> 'n \<Rightarrow> Ctx \<Rightarrow> Ctx" where
  "validateInterface ry rk iface ctx =
     (if \<not> ry_is_map ry iface
      then ctx_add ry rk (Some iface) ERROR ''each interface must be a map'' ctx
      else
        let ctx = checkAllowedKeys ry rk iface [''interface'', ''dir'', ''vars''] ''an interface'' ctx;
            (name, ctx) = check_name ry rk iface ''interface''
              (msg [''interface missing a non-empty '', sq ''interface'', '' name'']) ctx;
            ctx = check_dir ry rk iface name ctx
        in if ry_has_child ry iface ''vars'' then
             let vars = ry_child ry iface ''vars'' in
             if \<not> ry_is_seq ry vars
             then ctx_add ry rk (Some vars) ERROR (msg [''interface '', sq name, '' vars must be a list of var_ref'']) ctx
             else check_refs ry rk name (ry_children ry vars) ctx
           else ctx)"

definition validateEntity :: "'n ryml \<Rightarrow> 'n ryml_keys \<Rightarrow> 'n \<Rightarrow> Ctx \<Rightarrow> Ctx" where
  "validateEntity ry rk ent ctx =
     (if \<not> ry_is_map ry ent
      then ctx_add ry rk (Some ent) ERROR (msg [''each '', sq ''entities'', '' entry must be a map'']) ctx
      else
        let ctx = checkAllowedKeys ry rk ent [''entity'', ''interfaces''] ''an entities entry'' ctx;
            (name, ctx) = check_name ry rk ent ''entity''
              (msg [''entities entry missing a non-empty '', sq ''entity'', '' name'']) ctx
        in if \<not> ry_has_child ry ent ''interfaces''
           then ctx_add ry rk (Some ent) ERROR (msg [''entity '', sq name, '' missing '', sq ''interfaces'']) ctx
           else
             let ifaces = ry_child ry ent ''interfaces'' in
             if \<not> ry_is_seq ry ifaces \<or> length (ry_children ry ifaces) = 0
             then ctx_add ry rk (Some ifaces) ERROR
                    (msg [''entity '', sq name, '' interfaces must be a non-empty list'']) ctx
             else fold (validateInterface ry rk) (ry_children ry ifaces) ctx)"

section \<open>Files and directories\<close>

definition withRoot ::
    "(string \<Rightarrow> string option) \<Rightarrow> 'n ryml \<Rightarrow> 'n ryml_keys \<Rightarrow> ('n \<Rightarrow> Ctx \<Rightarrow> Ctx run) \<Rightarrow> string \<Rightarrow> Ctx \<Rightarrow> (bool \<times> Ctx) run" where
  "withRoot read_file ry rk body path ctx =
     (case read_file path of
        None \<Rightarrow> Returns (False, ctx_add ry rk None ERROR ''could not open file'' ctx)
      | Some buf \<Rightarrow>
          let tree = ry_parse_in_arena ry (c_str path) buf in
          if ry_tree_empty ry tree \<or> \<not> ry_is_map ry tree
          then Returns (False, ctx_add ry rk None ERROR ''file is empty or not a YAML map'' ctx)
          else run_bind (body tree ctx) (\<lambda>ctx. Returns (True, ctx)))"

definition check_top_level :: "'n ryml \<Rightarrow> 'n ryml_keys \<Rightarrow> 'n \<Rightarrow> Ctx \<Rightarrow> Ctx" where
  "check_top_level ry rk root ctx =
     (let ctx = checkAllowedKeys ry rk root [''service'', ''logic'', ''vars'', ''entities''] ''the top level'' ctx;
          ctx = add_if ry rk (\<not> ry_has_child ry root ''service'' \<or> \<not> isNonEmptyScalar ry (ry_child ry root ''service'')) root
                  (msg [''missing required non-empty '', sq ''service'']) ctx;
          ctx = add_if ry rk (ry_has_child ry root ''logic'' \<and> \<not> isNonEmptyScalar ry (ry_child ry root ''logic''))
                  (ry_child ry root ''logic'') (msg [sq ''logic'', '' must be a non-empty string'']) ctx
      in add_if ry rk (\<not> ry_has_child ry root ''vars'' \<and> \<not> ry_has_child ry root ''entities'') root
           (msg [''a protocol must define '', sq ''vars'', '' and/or '', sq ''entities'']) ctx)"

definition validate_vars :: "'n ryml \<Rightarrow> 'n ryml_keys \<Rightarrow> 'n \<Rightarrow> Ctx \<Rightarrow> Ctx run" where
  "validate_vars ry rk root ctx =
     (if ry_has_child ry root ''vars'' then
        let vars = ry_child ry root ''vars'' in
        if \<not> ry_is_seq ry vars
        then Returns (ctx_add ry rk (Some vars) ERROR (msg [sq ''vars'', '' must be a list'']) ctx)
        else run_fold (validateVar ry rk) (ry_children ry vars) ctx
      else Returns ctx)"

definition validate_entities :: "'n ryml \<Rightarrow> 'n ryml_keys \<Rightarrow> 'n \<Rightarrow> Ctx \<Rightarrow> Ctx" where
  "validate_entities ry rk root ctx =
     (if ry_has_child ry root ''entities'' then
        let ents = ry_child ry root ''entities'' in
        if \<not> ry_is_seq ry ents
        then ctx_add ry rk (Some ents) ERROR (msg [sq ''entities'', '' must be a list'']) ctx
        else fold (validateEntity ry rk) (ry_children ry ents) ctx
      else ctx)"

definition protocol_body :: "'n ryml \<Rightarrow> 'n ryml_keys \<Rightarrow> 'n \<Rightarrow> Ctx \<Rightarrow> Ctx run" where
  "protocol_body ry rk root ctx =
     run_bind (validate_vars ry rk root (check_top_level ry rk root ctx))
       (\<lambda>ctx. Returns (validate_entities ry rk root ctx))"

definition validateProtocolFile ::
    "(string \<Rightarrow> string option) \<Rightarrow> 'n ryml \<Rightarrow> 'n ryml_keys \<Rightarrow> string \<Rightarrow> ValidationFinding list
      \<Rightarrow> (nat \<times> ValidationFinding list) run" where
  "validateProtocolFile read_file ry rk path out =
     run_bind (withRoot read_file ry rk (protocol_body ry rk) path \<lparr>ctx_path = path, ctx_out = out, ctx_errors = 0\<rparr>)
       (\<lambda>(ok, ctx). Returns (ctx_errors ctx, ctx_out ctx))"

definition validate_layer :: "'n ryml \<Rightarrow> 'n ryml_keys \<Rightarrow> 'n \<Rightarrow> Ctx \<Rightarrow> Ctx" where
  "validate_layer ry rk layer ctx =
     (if \<not> ry_is_map ry layer then ctx_add ry rk (Some layer) ERROR ''each layer must be a map'' ctx
      else
        let ctx = checkAllowedKeys ry rk layer [''service'', ''entity'', ''interface'', ''bypass-logic''] ''a layer'' ctx
        in add_if ry rk (\<not> ry_has_child ry layer ''service'' \<or> \<not> isNonEmptyScalar ry (ry_child ry layer ''service'')) layer
             (msg [''layer missing a non-empty '', sq ''service'']) ctx)"

definition stack_body :: "'n ryml \<Rightarrow> 'n ryml_keys \<Rightarrow> 'n \<Rightarrow> Ctx \<Rightarrow> Ctx" where
  "stack_body ry rk root ctx =
     (let ctx = checkAllowedKeys ry rk root [''stack'', ''layers''] ''the top level'' ctx;
          ctx = add_if ry rk (\<not> ry_has_child ry root ''stack'' \<or> \<not> isNonEmptyScalar ry (ry_child ry root ''stack'')) root
                  (msg [''missing required non-empty '', sq ''stack'']) ctx
      in if \<not> ry_has_child ry root ''layers''
         then ctx_add ry rk (Some root) ERROR (msg [''missing '', sq ''layers'']) ctx
         else
           let layers = ry_child ry root ''layers'' in
           if \<not> ry_is_seq ry layers \<or> length (ry_children ry layers) = 0
           then ctx_add ry rk (Some layers) ERROR (msg [sq ''layers'', '' must be a non-empty list'']) ctx
           else fold (validate_layer ry rk) (ry_children ry layers) ctx)"

definition validateStackFile ::
    "(string \<Rightarrow> string option) \<Rightarrow> 'n ryml \<Rightarrow> 'n ryml_keys \<Rightarrow> string \<Rightarrow> ValidationFinding list
      \<Rightarrow> (nat \<times> ValidationFinding list) run" where
  "validateStackFile read_file ry rk path out =
     run_bind (withRoot read_file ry rk (\<lambda>root ctx. Returns (stack_body ry rk root ctx)) path
         \<lparr>ctx_path = path, ctx_out = out, ctx_errors = 0\<rparr>)
       (\<lambda>(ok, ctx). Returns (ctx_errors ctx, ctx_out ctx))"

text \<open>
  \<open>entries\<close> is \<^verbatim>\<open>recursive_directory_iterator(dir)\<close>: the paths under the directory in the
  order the system lists them.
\<close>

definition validate_entry ::
    "filesystem \<Rightarrow> (string \<Rightarrow> string option) \<Rightarrow> 'n ryml \<Rightarrow> 'n ryml_keys \<Rightarrow> string
      \<Rightarrow> nat \<times> ValidationFinding list \<Rightarrow> (nat \<times> ValidationFinding list) run" where
  "validate_entry fs read_file ry rk e st =
     (if \<not> fs_is_regular_file fs e then Returns st
      else
        let ext = path_extension e in
        if ext = ''.yaml'' \<or> ext = ''.yml''
        then run_bind (validateProtocolFile read_file ry rk e (snd st)) (\<lambda>(n, out). Returns (fst st + n, out))
        else Returns st)"

definition validateDirectory ::
    "filesystem \<Rightarrow> (string \<Rightarrow> string list option) \<Rightarrow> (string \<Rightarrow> string option) \<Rightarrow> 'n ryml \<Rightarrow> 'n ryml_keys
      \<Rightarrow> string \<Rightarrow> ValidationFinding list \<Rightarrow> (nat \<times> ValidationFinding list) run" where
  "validateDirectory fs entries read_file ry rk dir out =
     (if \<not> fs_exists fs dir
      then Returns (1, out @ [\<lparr>vf_file = dir, vf_line = 0, vf_col = 0, vf_severity = ERROR,
                               vf_message = ''directory does not exist''\<rparr>])
      else case entries dir of
          None \<Rightarrow> Throws
        | Some es \<Rightarrow> run_fold (validate_entry fs read_file ry rk) es (0, out))"


section \<open>What a check reports\<close>

text \<open>
  \<open>reports ctx ctx'\<close>: the findings of \<open>ctx'\<close> are those of \<open>ctx\<close> followed by
  errors in the file being checked, each of them counted.
\<close>

definition reports :: "Ctx \<Rightarrow> Ctx \<Rightarrow> bool" where
  "reports ctx ctx' \<longleftrightarrow> ctx_path ctx' = ctx_path ctx \<and> (\<exists>fs. ctx_out ctx' = ctx_out ctx @ fs \<and>
     ctx_errors ctx' = ctx_errors ctx + length fs \<and>
     list_all (\<lambda>f. vf_file f = ctx_path ctx \<and> vf_severity f = ERROR) fs)"

lemma reports_refl [intro, simp]: "reports ctx ctx"
  by (simp add: reports_def)

lemma reports_trans: "reports a b \<Longrightarrow> reports b c \<Longrightarrow> reports a c"
  by (fastforce simp: reports_def)

lemma reports_errors: "reports a b \<Longrightarrow> ctx_errors a \<le> ctx_errors b"
  by (auto simp: reports_def)

lemma reports_nothing: "reports a b \<Longrightarrow> ctx_errors b \<le> ctx_errors a \<Longrightarrow> b = a"
  by (auto simp: reports_def)

lemma reports_add [intro]: "reports ctx (ctx_add ry rk n ERROR txt ctx)"
  by (auto simp: reports_def ctx_add_def split: prod.split)

lemma reports_add_if [intro]: "reports ctx (add_if ry rk c n txt ctx)"
  by (auto simp: add_if_def)

lemma reports_fold:
  assumes "\<And>x ctx. reports ctx (f x ctx)"
  shows "reports ctx (fold f xs ctx)"
  by (induction xs arbitrary: ctx) (auto intro: reports_trans assms)

lemma reports_run_fold:
  assumes "\<And>x ctx ctx'. f x ctx = Returns ctx' \<Longrightarrow> reports ctx ctx'"
  shows "run_fold f xs ctx = Returns ctx' \<Longrightarrow> reports ctx ctx'"
  by (induction xs arbitrary: ctx) (auto simp: run_bind_Returns intro: reports_trans assms)

lemma reports_keys [intro]: "reports ctx (checkAllowedKeys ry rk node allowed loc ctx)"
  unfolding checkAllowedKeys_def by (rule reports_fold) (auto simp: Let_def)

lemma reports_value_items [intro]: "reports ctx (check_value_items ry rk name items ctx)"
  by (induction ry rk name items ctx rule: check_value_items.induct) auto

lemma reports_refs [intro]: "reports ctx (check_refs ry rk name refs ctx)"
  by (induction ry rk name refs ctx rule: check_refs.induct) (auto intro: reports_trans)

lemma reports_parts [intro]:
  "reports ctx (check_value ry rk e name ctx)"
  "reports ctx (check_values ry rk e name ctx)"
  "reports ctx (check_range ry rk e name ctx)"
  "reports ctx (check_mask ry rk e name ctx)"
  "reports ctx (check_dir ry rk i name ctx)"
  by (auto simp: check_value_def check_values_def check_range_def check_mask_def check_dir_def Let_def)

lemma reports_name [intro]: "reports ctx (snd (check_name ry rk n key txt ctx))"
  by (auto simp: check_name_def)

text \<open>The same facts as rules that walk back through a sequence of checks.\<close>

lemmas reports_after [intro] =
  reports_add [THEN reports_trans [rotated]] reports_add_if [THEN reports_trans [rotated]]
  reports_keys [THEN reports_trans [rotated]] reports_value_items [THEN reports_trans [rotated]]
  reports_refs [THEN reports_trans [rotated]] reports_parts [THEN reports_trans [rotated]]
  reports_name [THEN reports_trans [rotated]]

lemma reports_expected [intro]: "reports ctx (validateExpected ry rk e name ctx)"
  unfolding validateExpected_def Let_def by (auto intro!: reports_after)

lemma reports_size: "check_size ry rk var name ctx = Returns ctx' \<Longrightarrow> reports ctx ctx'"
  by (auto simp: check_size_def Let_def run_bind_Returns split: if_splits)

lemma validateVar_parts:
  assumes "validateVar ry rk var ctx = Returns ctx'" and "ry_is_map ry var"
  obtains name ctx0 ctx1 where "reports ctx ctx0" "check_size ry rk var name ctx0 = Returns ctx1" "reports ctx1 ctx'"
proof -
  define named where "named = check_name ry rk var ''var'' (msg [''vars entry missing a non-empty '', sq ''var'', '' name''])
      (checkAllowedKeys ry rk var [''var'', ''size'', ''expected''] ''a vars entry'' ctx)"
  have eq: "validateVar ry rk var ctx = run_bind (check_size ry rk var (fst named) (snd named)) (\<lambda>ctx.
      Returns (if ry_has_child ry var ''expected''
        then validateExpected ry rk (ry_child ry var ''expected'') (fst named) ctx else ctx))"
    using assms(2) unfolding named_def by (simp add: validateVar_def Let_def split_beta)
  obtain ctx1 where "check_size ry rk var (fst named) (snd named) = Returns ctx1"
      "(if ry_has_child ry var ''expected''
        then validateExpected ry rk (ry_child ry var ''expected'') (fst named) ctx1 else ctx1) = ctx'"
    using assms(1) [unfolded eq run_bind_Returns] by auto
  moreover have "reports ctx (snd named)"
    unfolding named_def by auto
  ultimately show ?thesis
    using that reports_expected by (metis reports_refl)
qed

lemma reports_var: "validateVar ry rk var ctx = Returns ctx' \<Longrightarrow> reports ctx ctx'"
proof (cases "ry_is_map ry var")
  case True
  assume "validateVar ry rk var ctx = Returns ctx'"
  then show ?thesis
    using True by (rule validateVar_parts) (metis reports_trans reports_size)
qed (auto simp: validateVar_def)

lemma reports_interface [intro]: "reports ctx (validateInterface ry rk iface ctx)"
  unfolding validateInterface_def Let_def split_beta by (auto intro!: reports_after)

lemma reports_entity [intro]: "reports ctx (validateEntity ry rk ent ctx)"
proof -
  note fold' = reports_fold [where f = "validateInterface ry rk", OF reports_interface, THEN reports_trans [rotated]]
  show ?thesis
    unfolding validateEntity_def Let_def split_beta by (auto intro!: reports_after fold')
qed

lemma reports_layer [intro]: "reports ctx (validate_layer ry rk layer ctx)"
  unfolding validate_layer_def Let_def by auto

lemma reports_top_level [intro]: "reports ctx (check_top_level ry rk root ctx)"
  unfolding check_top_level_def Let_def by (auto intro!: reports_after)

lemma reports_vars: "validate_vars ry rk root ctx = Returns ctx' \<Longrightarrow> reports ctx ctx'"
  using reports_run_fold [where f = "validateVar ry rk", OF reports_var]
  by (auto simp: validate_vars_def Let_def split: if_splits)

lemma reports_entities [intro]: "reports ctx (validate_entities ry rk root ctx)"
  using reports_fold [where f = "validateEntity ry rk", OF reports_entity]
  by (auto simp: validate_entities_def Let_def)

lemma reports_protocol_body: "protocol_body ry rk root ctx = Returns ctx' \<Longrightarrow> reports ctx ctx'"
  by (auto simp: protocol_body_def run_bind_Returns dest!: reports_vars
      intro: reports_trans [OF reports_trans [OF reports_top_level] reports_entities])

lemma reports_stack_body: "reports ctx (stack_body ry rk root ctx)"
proof -
  note layers = reports_fold [where f = "validate_layer ry rk", OF reports_layer, THEN reports_trans [rotated]]
  show ?thesis
    unfolding stack_body_def Let_def by (auto intro!: reports_after layers)
qed


section \<open>Clean documents\<close>

text \<open>A check that reports nothing leaves the context as it was, and so do all its parts.\<close>

lemma run_fold_clean:
  assumes "\<And>x ctx ctx'. f x ctx = Returns ctx' \<Longrightarrow> reports ctx ctx'"
    and "run_fold f xs ctx = Returns ctx'" and "ctx_errors ctx' \<le> ctx_errors ctx" and "x \<in> set xs"
  shows "f x ctx = Returns ctx"
  using assms(2-)
proof (induction xs)
  case (Cons y ys)
  obtain ctx1 where c1: "f y ctx = Returns ctx1" "run_fold f ys ctx1 = Returns ctx'"
    using Cons.prems(1) by (auto simp: run_bind_Returns)
  have "reports ctx ctx1"
    by (rule assms(1) [OF c1(1)])
  moreover have "reports ctx1 ctx'"
    using reports_run_fold [where f = f] assms(1) c1(2) by metis
  ultimately have "ctx1 = ctx"
    using reports_nothing [of ctx ctx1] reports_errors [of ctx1 ctx'] Cons.prems(2) by simp
  then show ?case
    using Cons c1 by auto
qed simp

lemma ctx_add_changes: "ctx_add ry rk n ERROR txt ctx \<noteq> ctx"
  by (auto simp: ctx_add_def split: prod.split dest: arg_cong [where f = ctx_errors])

lemma add_if_clean: "add_if ry rk c n txt ctx = ctx \<longleftrightarrow> \<not> c"
  using ctx_add_changes [of ry rk "Some n" _ ctx] by (auto simp: add_if_def)

lemma check_size_clean:
  assumes "check_size ry rk var name ctx = Returns ctx"
  shows "ry_has_child ry var ''size'' \<and> isUintScalar ry (ry_child ry var ''size'') \<and>
    (\<exists>bits. asInt ry (ry_child ry var ''size'') = Returns bits \<and> 1 \<le> bits \<and> bits \<le> 4096)"
  using assms by (auto simp: check_size_def Let_def ctx_add_changes run_bind_Returns add_if_clean split: if_splits)

lemma validateVar_clean:
  assumes "validateVar ry rk var ctx = Returns ctx"
  shows "ry_has_child ry var ''size'' \<and> isUintScalar ry (ry_child ry var ''size'') \<and>
    (\<exists>bits. asInt ry (ry_child ry var ''size'') = Returns bits \<and> 1 \<le> bits \<and> bits \<le> 4096)"
proof -
  have map: "ry_is_map ry var"
    using assms by (auto simp: validateVar_def ctx_add_changes split: if_splits)
  obtain name ctx0 ctx1 where r: "reports ctx ctx0" "check_size ry rk var name ctx0 = Returns ctx1" "reports ctx1 ctx"
    by (rule validateVar_parts [OF assms map])
  note r' = reports_size [OF r(2)]
  have "ctx0 = ctx" "ctx1 = ctx"
    using reports_nothing [OF r(1)] reports_nothing [OF reports_trans [OF r(1) r']] reports_errors [OF r'] reports_errors [OF r(3)]
    by auto
  then show ?thesis
    using check_size_clean r(2) by simp
qed

lemma digits_value_nonneg: "0 \<le> digits_value b ds"
  by (induction ds rule: rev_induct) (auto simp: digits_value_def split: option.split)

lemma stoull_stoll:
  assumes "stoll txt base = Some n" and "0 < n" and "stoull txt base = Some (v, k)"
  shows "v = of_int n"
  using assms digits_value_nonneg
  by (auto simp: stoll_def stoull_def strtoull_def Let_def split_beta not_le split: if_splits)


lemma validated_size:
  assumes "validateVar ry rk var ctx = Returns ctx"
  shows "1 \<le> unat (mSize (parse_var ry svc var)) \<and> unat (mSize (parse_var ry svc var)) \<le> 4096"
proof -
  let ?s = "ry_val ry (ry_child ry var ''size'')"
  obtain bits where bits: "ry_has_child ry var ''size''" "isUintScalar ry (ry_child ry var ''size'')"
      "stoll ?s 0 = Some bits" "1 \<le> bits" "bits \<le> 4096"
    using validateVar_clean [OF assms] by (auto simp: asInt_def split: option.splits)
  obtain v k where "stoull ?s 0 = Some (v, k)"
    using bits(2) by (auto simp: isUintScalar_def Let_def split: if_splits option.splits)
  then have "parseU64 ?s 0 = of_int bits"
    using stoull_stoll [OF bits(3)] bits(4) by (simp add: parseU64_def)
  then have "mSize (parse_var ry svc var) = ucast (of_int bits :: u64)"
    using bits(1) by (simp add: parse_var_def Let_def)
  also have "\<dots> = of_nat (nat bits)"
    using bits(4) by (simp add: ucast_word_of_int)
  finally have "unat (mSize (parse_var ry svc var)) = nat bits"
    using bits(5) by (simp add: unat_of_nat take_bit_nat_eq_self)
  then show ?thesis
    using bits(4,5) by linarith
qed

lemma vars_loop_new:
  "getElement (vars_loop ry svc items db) k = Some v \<Longrightarrow> getElement db k = Some v \<or>
     (\<exists>item\<in>set items. v = parse_var ry svc item)"
proof (induction ry svc items db rule: vars_loop.induct)
  case (2 ry svc item items db)
  then show ?case
    by (auto simp: Let_def db_simps split: if_splits)
qed simp

lemma protocol_body_clean:
  assumes "protocol_body ry rk root ctx = Returns ctx'" and "ctx_errors ctx' \<le> ctx_errors ctx"
  shows "check_top_level ry rk root ctx = ctx \<and> validate_vars ry rk root ctx = Returns ctx"
proof -
  obtain ctx1 where c: "validate_vars ry rk root (check_top_level ry rk root ctx) = Returns ctx1"
      "ctx' = validate_entities ry rk root ctx1"
    using assms(1) by (auto simp: protocol_body_def run_bind_Returns)
  note r = reports_top_level [of ctx ry rk root] reports_vars [OF c(1)] reports_entities [of ctx1 ry rk root, folded c(2)]
  have "check_top_level ry rk root ctx = ctx"
    using reports_nothing [OF r(1)] reports_errors [OF r(2)] reports_errors [OF r(3)] assms(2) by simp
  moreover have "ctx1 = ctx"
    using reports_nothing [OF reports_trans [OF r(1,2)]] reports_errors [OF r(3)] assms(2) by simp
  ultimately show ?thesis
    using c(1) by simp
qed

lemma validated_vars:
  assumes "validate_vars ry rk root ctx = Returns ctx" and "ry_has_child ry root ''vars''"
    and "item \<in> set (ry_children ry (ry_child ry root ''vars''))"
  shows "validateVar ry rk item ctx = Returns ctx"
proof -
  have "run_fold (validateVar ry rk) (ry_children ry (ry_child ry root ''vars'')) ctx = Returns ctx"
    using assms(1,2) by (auto simp: validate_vars_def Let_def ctx_add_changes split: if_splits)
  then show ?thesis
    using run_fold_clean [where f = "validateVar ry rk"] reports_var assms(3) by (metis order_refl)
qed


lemma top_level_service:
  assumes "check_top_level ry rk root ctx = ctx"
  shows "ry_has_child ry root ''service'' \<and> isNonEmptyScalar ry (ry_child ry root ''service'')"
proof -
  let ?c0 = "checkAllowedKeys ry rk root [''service'', ''logic'', ''vars'', ''entities''] ''the top level'' ctx"
  let ?bad = "\<not> ry_has_child ry root ''service'' \<or> \<not> isNonEmptyScalar ry (ry_child ry root ''service'')"
  let ?c1 = "add_if ry rk ?bad root (msg [''missing required non-empty '', sq ''service'']) ?c0"
  have r: "reports ctx ?c0" "reports ?c0 ?c1"
    by (rule reports_keys, rule reports_add_if)
  have "reports ?c1 (check_top_level ry rk root ctx)"
    unfolding check_top_level_def Let_def by (rule reports_trans [OF reports_add_if reports_add_if])
  then have "reports ?c1 ctx"
    unfolding assms .
  then have "ctx_errors ?c1 \<le> ctx_errors ctx"
    by (rule reports_errors)
  then have "?c0 = ctx" "?c1 = ctx"
    using reports_nothing [OF r(1)] reports_nothing [OF reports_trans [OF r]] reports_errors [OF r(2)] by linarith+
  then have "\<not> ?bad"
    using add_if_clean [of ry rk ?bad root _ ctx] by simp
  then show ?thesis
    by simp
qed

text \<open>What rapidyaml documents of child look-up and of scalar nodes.\<close>

definition ryml_node_laws :: "'n ryml \<Rightarrow> bool" where
  "ryml_node_laws ry \<longleftrightarrow>
     (\<forall>n k. ry_has_child ry n k \<longrightarrow> \<not> ry_id_none ry (ry_child ry n k) \<and> \<not> ry_invalid ry (ry_child ry n k) \<and>
        \<not> ry_key_is_null ry (ry_child ry n k)) \<and>
     (\<forall>n k. \<not> ry_has_child ry n k \<longrightarrow> ry_invalid ry (ry_child ry n k)) \<and>
     (\<forall>n. ry_has_val ry n \<longrightarrow> ry_type_has_any ry n NT_VAL)"

lemma parse_tree_new_var:
  assumes "ryml_node_laws ry" and "getElement (dbVars dbs) k = None"
    and "getElement (dbVars (snd (parse_tree ry tree dbs))) k = Some v"
  shows "ry_has_child ry tree ''vars'' \<and> (\<exists>item\<in>set (ry_children ry (ry_child ry tree ''vars'')).
    v = parse_var ry (ry_val ry (ry_child ry tree ''service'')) item)"
proof -
  let ?nm = "ry_child ry tree ''service''"
  have "dbVars (snd (parse_tree ry tree dbs)) \<in> {dbVars dbs, snd (getParsedProtocolVars ry tree ?nm (dbVars dbs))}"
    by (cases rule: getProtocolName_cases [of ry tree]) (auto simp: parse_tree_def Let_def split_beta)
  then have "getElement (snd (getParsedProtocolVars ry tree ?nm (dbVars dbs))) k = Some v"
    using assms(2,3) by auto
  then show ?thesis
    using assms(1,2) vars_loop_new [of ry "ry_val ry ?nm" "ry_children ry (ry_child ry tree ''vars'')" "dbVars dbs" k v]
    by (auto simp: getParsedProtocolVars_def Let_def ryml_node_laws_def split: if_splits)
qed

section \<open>Properties\<close>

lemma withRoot_reports:
  assumes "withRoot read_file ry rk body path ctx = Returns (ok, ctx')"
    and "\<And>root ctx ctx'. body root ctx = Returns ctx' \<Longrightarrow> reports ctx ctx'"
  shows "reports ctx ctx'"
  using assms by (auto simp: withRoot_def Let_def run_bind_Returns split: option.splits if_splits)

lemma validateProtocolFile_counts:
  assumes "validateProtocolFile read_file ry rk path out = Returns (n, out')"
  shows "\<exists>fs. out' = out @ fs \<and> n = length fs \<and> list_all (\<lambda>f. vf_file f = path \<and> vf_severity f = ERROR) fs"
proof -
  obtain ok ctx where "withRoot read_file ry rk (protocol_body ry rk) path \<lparr>ctx_path = path, ctx_out = out, ctx_errors = 0\<rparr>
      = Returns (ok, ctx)" "n = ctx_errors ctx" "out' = ctx_out ctx"
    using assms by (auto simp: validateProtocolFile_def run_bind_Returns)
  then show ?thesis
    using withRoot_reports [OF _ reports_protocol_body] by (fastforce simp: reports_def)
qed

lemma validateStackFile_counts:
  assumes "validateStackFile read_file ry rk path out = Returns (n, out')"
  shows "\<exists>fs. out' = out @ fs \<and> n = length fs \<and> list_all (\<lambda>f. vf_file f = path \<and> vf_severity f = ERROR) fs"
proof -
  obtain ok ctx where r: "withRoot read_file ry rk (\<lambda>root ctx. Returns (stack_body ry rk root ctx)) path
      \<lparr>ctx_path = path, ctx_out = out, ctx_errors = 0\<rparr> = Returns (ok, ctx)" "n = ctx_errors ctx" "out' = ctx_out ctx"
    using assms by (auto simp: validateStackFile_def run_bind_Returns)
  have "reports \<lparr>ctx_path = path, ctx_out = out, ctx_errors = 0\<rparr> ctx"
    by (rule withRoot_reports [OF r(1)]) (use reports_stack_body in auto)
  then show ?thesis
    using r(2,3) by (fastforce simp: reports_def)
qed

lemma validate_entry_counts:
  assumes "validate_entry fs read_file ry rk e (m, out) = Returns (n, out')"
  shows "\<exists>new. out' = out @ new \<and> n = m + length new \<and> list_all (\<lambda>f. vf_severity f = ERROR) new"
proof (cases "out' = out \<and> n = m")
  case False
  then obtain k where k: "validateProtocolFile read_file ry rk e out = Returns (k, out')" "n = m + k"
    using assms by (auto simp: validate_entry_def Let_def run_bind_Returns split: if_splits)
  show ?thesis
    using validateProtocolFile_counts [OF k(1)] k(2) by (auto simp: list_all_iff)
qed simp

lemma validate_entries_counts:
  assumes "run_fold (validate_entry fs read_file ry rk) es (m, out) = Returns (n, out')"
  shows "\<exists>new. out' = out @ new \<and> n = m + length new \<and> list_all (\<lambda>f. vf_severity f = ERROR) new"
  using assms
proof (induction es arbitrary: m out)
  case (Cons e es)
  obtain m1 out1 where "validate_entry fs read_file ry rk e (m, out) = Returns (m1, out1)"
      "run_fold (validate_entry fs read_file ry rk) es (m1, out1) = Returns (n, out')"
    using Cons.prems by (auto simp: run_bind_Returns)
  then show ?case
    using validate_entry_counts Cons.IH by (fastforce simp: list_all_iff)
qed simp

lemma validateDirectory_counts:
  assumes "validateDirectory fs entries read_file ry rk dir out = Returns (n, out')"
  shows "\<exists>new. out' = out @ new \<and> n = length new \<and> list_all (\<lambda>f. vf_severity f = ERROR) new"
  using assms validate_entries_counts by (fastforce simp: validateDirectory_def split: if_splits option.splits)

text \<open>A documents library and a validated protocol file on which the theorems are evaluated.\<close>

definition ex_keys :: "yaml ryml_keys" where
  "ex_keys = \<lparr>ry_has_key = (\<lambda>n. False), ry_key = (\<lambda>n. []), ry_location = (\<lambda>n. (1, 1))\<rparr>"

definition ex_var_doc :: "string \<Rightarrow> yaml" where
  "ex_var_doc sz = YMap [(''service'', YVal ''s''), (''vars'', YSeq [YMap [(''var'', YVal ''x''), (''size'', YVal sz)]])]"

lemma yaml_api_laws: "ryml_node_laws (yaml_api docs)"
  by (simp add: ryml_node_laws_def yaml_api_def)

text \<open>The validator keeps its books: whatever the document, when a call returns, the findings that
  were there before are still there, in place, everything appended is an error in the file
  that was checked, and the number returned is the number of findings appended.\<close>

lemma validator_counts_findings:
  "(validateProtocolFile read_file ry rk path out = Returns (n, out') \<longrightarrow>
     (\<exists>fs. out' = out @ fs \<and> n = length fs \<and> list_all (\<lambda>f. vf_file f = path \<and> vf_severity f = ERROR) fs)) \<and>
   (validateStackFile read_file ry rk path out = Returns (n, out') \<longrightarrow>
     (\<exists>fs. out' = out @ fs \<and> n = length fs \<and> list_all (\<lambda>f. vf_file f = path \<and> vf_severity f = ERROR) fs)) \<and>
   (validateDirectory fs entries read_file ry rk dir out = Returns (n, out') \<longrightarrow>
     (\<exists>fs. out' = out @ fs \<and> n = length fs \<and> list_all (\<lambda>f. vf_severity f = ERROR) fs))"
  using validateProtocolFile_counts [of read_file ry rk path out n out'] validateStackFile_counts [of read_file ry rk path out n out']
    validateDirectory_counts [of fs entries read_file ry rk dir out n out'] by blast

lemma validator_counts_findings_example:
  "validateProtocolFile (\<lambda>p. Some ''doc'') (yaml_api (\<lambda>d. ex_var_doc ''0'')) ex_keys ''f'' [] =
     Returns (1, [\<lparr>vf_file = ''f'', vf_line = 1, vf_col = 1, vf_severity = ERROR,
       vf_message = ''var '' @ sq ''x'' @ '' size must be in 1..4096 bits''\<rparr>]) \<and>
   list_all (\<lambda>f. vf_file f = ''f'' \<and> vf_severity f = ERROR) [\<lparr>vf_file = ''f'', vf_line = 1, vf_col = 1, vf_severity = ERROR,
       vf_message = ''var '' @ sq ''x'' @ '' size must be in 1..4096 bits''\<rparr>]"
proof -
  have r: "validateProtocolFile (\<lambda>p. Some ''doc'') (yaml_api (\<lambda>d. ex_var_doc ''0'')) ex_keys ''f'' [] =
     Returns (1, [\<lparr>vf_file = ''f'', vf_line = 1, vf_col = 1, vf_severity = ERROR,
       vf_message = ''var '' @ sq ''x'' @ '' size must be in 1..4096 bits''\<rparr>])"
    by code_simp
  then show ?thesis
    using validator_counts_findings [THEN conjunct1, rule_format, OF r] by auto
qed

text \<open>A protocol document the validator accepts is one the parser loads, with one exception the
  validator does not look for: the parser rejects a service name that reads as a number. And every
  variable such a document adds has a width between 1 and 4096 bits, so the bit packing
  of its packets is exact.\<close>

lemma validated_file_loads:
  assumes "ryml_node_laws ry" and "read_file path = Some buf"
    and "validateProtocolFile read_file ry rk path out = Returns (0, out')"
    and "tree = ry_parse_in_arena ry (c_str path) buf"
  shows "ry_val ry (ry_child ry tree ''service'') \<noteq> [] \<and>
    (fst (parse_tree ry tree dbs) = PROTO_SUCCESS \<longleftrightarrow> \<not> ry_val_is_number ry (ry_child ry tree ''service'')) \<and>
    (\<forall>k v. getElement (dbVars dbs) k = None \<longrightarrow> getElement (dbVars (snd (parse_tree ry tree dbs))) k = Some v \<longrightarrow>
       1 \<le> unat (getSize v) \<and> unat (getSize v) \<le> 4096)"
proof (intro conjI allI impI)
  define ctx where "ctx = \<lparr>ctx_path = path, ctx_out = out, ctx_errors = 0\<rparr>"
  have map: "\<not> ry_tree_empty ry tree" "ry_is_map ry tree"
    using assms(2-4) by (auto simp: validateProtocolFile_def withRoot_def ctx_add_def Let_def split: if_splits)
  then obtain ctx' where body: "protocol_body ry rk tree ctx = Returns ctx'" "ctx_errors ctx' = 0"
    using assms(2-4) by (auto simp: validateProtocolFile_def withRoot_def ctx_def run_bind_Returns)
  have clean: "check_top_level ry rk tree ctx = ctx" "validate_vars ry rk tree ctx = Returns ctx"
    using protocol_body_clean [OF body(1)] body(2) by simp_all
  have service: "ry_has_child ry tree ''service'' \<and> isNonEmptyScalar ry (ry_child ry tree ''service'')"
    by (rule top_level_service [OF clean(1)])
  then show "ry_val ry (ry_child ry tree ''service'') \<noteq> []"
    by (simp add: isNonEmptyScalar_def)
  from service have "checkNodeValidity ry (ry_child ry tree ''service'') NT_VAL False = 0 \<longleftrightarrow>
      \<not> ry_val_is_number ry (ry_child ry tree ''service'')"
    using assms(1) by (auto simp: checkNodeValidity_def ryml_node_laws_def isNonEmptyScalar_def proto_codes)
  then show "fst (parse_tree ry tree dbs) = PROTO_SUCCESS \<longleftrightarrow> \<not> ry_val_is_number ry (ry_child ry tree ''service'')"
    using map by (auto simp: parse_tree_def getProtocolName_def Let_def split_beta getParsedProtocolVars_ok
        getParsedProtocolInterface_ok getParsedProtocolService_ok proto_codes split: if_splits)
  fix k v
  assume "getElement (dbVars dbs) k = None" "getElement (dbVars (snd (parse_tree ry tree dbs))) k = Some v"
  then obtain item where item: "ry_has_child ry tree ''vars''" "item \<in> set (ry_children ry (ry_child ry tree ''vars''))"
      "v = parse_var ry (ry_val ry (ry_child ry tree ''service'')) item"
    using parse_tree_new_var [OF assms(1)] by blast
  show "1 \<le> unat (getSize v)" "unat (getSize v) \<le> 4096"
    using validated_size [OF validated_vars [OF clean(2) item(1,2)]] by (simp_all add: item(3) getSize_def)
qed


lemma validated_file_loads_example:
  "\<exists>dbs'. parse_tree (yaml_api (\<lambda>d. ex_var_doc ''0x10'')) (ex_var_doc ''0x10'') empty_dbs = (PROTO_SUCCESS, dbs') \<and>
     getElement (dbVars dbs') ''s::x'' = Some \<lparr>var_mName = ''s::x'', mSize = 16, mExpectedValues = [], mRange = None, mMask = 0\<rparr>"
proof -
  let ?ry = "yaml_api (\<lambda>d. ex_var_doc ''0x10'')"
  have clean: "validateProtocolFile (\<lambda>p. Some ''doc'') ?ry ex_keys ''f'' [] = Returns (0, [])"
    by code_simp
  have tree: "ex_var_doc ''0x10'' = ry_parse_in_arena ?ry (c_str ''f'') ''doc''"
    by (simp add: yaml_api_def)
  have num: "\<not> ry_val_is_number ?ry (ry_child ?ry (ex_var_doc ''0x10'') ''service'')"
    by code_simp
  have "getElement (dbVars (snd (parse_tree ?ry (ex_var_doc ''0x10'') empty_dbs))) ''s::x''
      = Some \<lparr>var_mName = ''s::x'', mSize = 16, mExpectedValues = [], mRange = None, mMask = 0\<rparr>"
    by code_simp
  then show ?thesis
    using validated_file_loads [OF yaml_api_laws _ clean tree, of empty_dbs] num by (metis prod.collapse)
qed

text \<open>The only way a check of a \<^verbatim>\<open>vars\<close> entry ends in an exception: its size is an unsigned
  integer by \<^verbatim>\<open>isUintScalar\<close>, which reads 64 bits, and does not fit the signed 64 bits that
  \<^verbatim>\<open>asInt\<close> reads it with. Such an entry throws instead of being reported as too wide.\<close>

lemma validateVar_throws:
  "(validateVar ry rk var ctx = Throws \<longleftrightarrow>
     ry_is_map ry var \<and> ry_has_child ry var ''size'' \<and> isUintScalar ry (ry_child ry var ''size'') \<and>
     stoll (ry_val ry (ry_child ry var ''size'')) 0 = None) \<and>
   validateProtocolFile (\<lambda>p. Some ''doc'') (yaml_api (\<lambda>d. ex_var_doc ''9223372036854775808'')) ex_keys ''f'' [] = Throws"
proof
  have bind: "run_bind r (\<lambda>x. Returns (g x)) = Throws \<longleftrightarrow> r = Throws" for r :: "Ctx run" and g :: "Ctx \<Rightarrow> Ctx"
    by (cases r) simp_all
  have "check_size ry rk var name c = Throws \<longleftrightarrow> ry_has_child ry var ''size'' \<and>
      isUintScalar ry (ry_child ry var ''size'') \<and> stoll (ry_val ry (ry_child ry var ''size'')) 0 = None" for name c
    by (auto simp: check_size_def asInt_def Let_def split: option.splits)
  then show "validateVar ry rk var ctx = Throws \<longleftrightarrow>
     ry_is_map ry var \<and> ry_has_child ry var ''size'' \<and> isUintScalar ry (ry_child ry var ''size'') \<and>
     stoll (ry_val ry (ry_child ry var ''size'')) 0 = None"
    by (simp add: validateVar_def Let_def split_beta bind)
  show "validateProtocolFile (\<lambda>p. Some ''doc'') (yaml_api (\<lambda>d. ex_var_doc ''9223372036854775808'')) ex_keys ''f'' [] = Throws"
    by code_simp
qed

end
