(* ===== verification/Command_Line.thy ===== *)
theory Command_Line
  imports Cpp_Strings Cpp_Numbers Diagnostics
begin

text \<open>
  The command line of \<^verbatim>\<open>packet_gen\<close> (traffic-gen/tools/packet_gen_main.cpp, lines
  40-343): the options and the record they fill.

  \<open>argv\<close> is the list of the arguments after the program name. Diagnostics and the usage text
  go to stderr and are not modelled; what is written to stdout is.
\<close>

section \<open>Arguments\<close>

record Args =
  yamlDir :: string
  a_iface :: string
  a_count :: u64
  a_seed :: u64
  seedSet :: bool
  a_output :: string
  a_transport :: string
  a_logLevel :: string
  listInterfaces :: bool
  a_validate :: bool
  a_decode :: bool
  hexInput :: string
  a_chain :: "string list"
  a_stack :: "string list"
  stackFile :: string

definition default_args :: Args where
  "default_args = \<lparr>yamlDir = [], a_iface = [], a_count = 1, a_seed = 0, seedSet = False, a_output = ''json'',
     a_transport = ''none'', a_logLevel = ''warn'', listInterfaces = False, a_validate = False, a_decode = False,
     hexInput = [], a_chain = [], a_stack = [], stackFile = []\<rparr>"

text \<open>
  \<^verbatim>\<open>nextVal\<close>: the value and the arguments that remain. Without one the value is the empty
  string and the loop goes on.
\<close>

definition nextVal :: "string list \<Rightarrow> string \<times> string list" where
  "nextVal rest = (case rest of [] \<Rightarrow> ([], []) | v # r \<Rightarrow> (v, r))"

text \<open>
  A list of interface names: \<^verbatim>\<open>::\<close> becomes the placeholder character 1 (the search goes on
  behind each replacement), the text is cut at the colons that are left, and the placeholder is
  replaced back in every piece.
\<close>

fun hide_sep :: "string \<Rightarrow> string" where
  "hide_sep (a # b # s) =
     (if a = CHR '':'' \<and> b = CHR '':'' then CHR 0x01 # hide_sep s else a # hide_sep (b # s))"
| "hide_sep s = s"

fun restore_sep :: "string \<Rightarrow> string" where
  "restore_sep [] = []"
| "restore_sep (c # s) = (if c = CHR 0x01 then ''::'' @ restore_sep s else c # restore_sep s)"

fun split_loop :: "string \<Rightarrow> string \<Rightarrow> string list \<Rightarrow> string list" where
  "split_loop [] seg target = target"
| "split_loop (c # s) seg target =
     (if c = CHR '':'' then
        let seg' = restore_sep seg
        in split_loop s [] (if seg' \<noteq> [] then target @ [seg'] else target)
      else split_loop s (seg @ [c]) target)"

definition split_spec :: "string \<Rightarrow> string list \<Rightarrow> string list" where
  "split_spec spec target = split_loop (hide_sep spec @ '':'') [] target"

text \<open>
  How the option loop ends: at the end of the arguments, at an unknown option, with
  \<^verbatim>\<open>std::exit(0)\<close> and what was written to stdout, or in an exception of
  \<^verbatim>\<open>std::stoull\<close> that nothing catches.
\<close>

datatype opts_end = Opts Args | Unknown_option | Exit0 "string list" | Uncaught

lemma nextVal_length [termination_simp]: "length (snd (nextVal rest)) \<le> length rest"
  by (simp add: nextVal_def split: list.splits)

function parse_opts :: "string list \<Rightarrow> Args \<Rightarrow> opts_end" where
  "parse_opts [] out = Opts out"
| "parse_opts (a # rest) out =
     (let (v, rest') = nextVal rest in
      if a = ''--yaml-dir'' then parse_opts rest' (out\<lparr>yamlDir := v\<rparr>)
      else if a = ''--interface'' then parse_opts rest' (out\<lparr>a_iface := v\<rparr>)
      else if a = ''--count'' then
        if v = [] then parse_opts rest' out
        else (case stoull v 10 of
                None \<Rightarrow> Uncaught
              | Some (n, _) \<Rightarrow> parse_opts rest' (out\<lparr>a_count := n\<rparr>))
      else if a = ''--seed'' then
        if v = [] then parse_opts rest' out
        else (case stoull v 10 of
                None \<Rightarrow> Uncaught
              | Some (n, _) \<Rightarrow> parse_opts rest' (out\<lparr>a_seed := n, seedSet := True\<rparr>))
      else if a = ''--output'' then parse_opts rest' (out\<lparr>a_output := v\<rparr>)
      else if a = ''--transport'' then parse_opts rest' (out\<lparr>a_transport := v\<rparr>)
      else if a = ''--stack-file'' then parse_opts rest' (out\<lparr>stackFile := v\<rparr>)
      else if a = ''--log-level'' then parse_opts rest' (out\<lparr>a_logLevel := v\<rparr>)
      else if a = ''--list-interfaces'' then parse_opts rest (out\<lparr>listInterfaces := True\<rparr>)
      else if a = ''--validate'' then parse_opts rest (out\<lparr>a_validate := True\<rparr>)
      else if a = ''--decode'' then parse_opts rest (out\<lparr>a_decode := True\<rparr>)
      else if a = ''--hex'' then parse_opts rest' (out\<lparr>hexInput := v\<rparr>)
      else if a = ''--connect'' then parse_opts rest' (out\<lparr>a_chain := split_spec v (a_chain out)\<rparr>)
      else if a = ''--stack'' then parse_opts rest' (out\<lparr>a_stack := split_spec v (a_stack out)\<rparr>)
      else if a = ''--version'' then Exit0 [''packet_gen '' @ PROTOCOL_PARSER_VERSION]
      else if a = ''--help'' then Exit0 []
      else Unknown_option)"
  by pat_completeness auto
termination
proof (relation "measure (length \<circ> fst)", goal_cases)
  case 1
  show ?case by simp
qed (auto simp: nextVal_def split: list.splits)

datatype args_end = Parsed Args LogLevel | Rejected LogLevel | Exits "string list" | Terminates

definition bool_int :: "bool \<Rightarrow> int" where
  "bool_int b = (if b then 1 else 0)"

text \<open>The implied options, then the checks after the loop.\<close>

definition normalise_args :: "Args \<Rightarrow> Args" where
  "normalise_args out =
     (let out1 = (if hexInput out \<noteq> [] then out\<lparr>a_decode := True\<rparr> else out);
          out2 = (if a_iface out1 \<noteq> [] \<and> a_chain out1 \<noteq> []
                  then out1\<lparr>a_chain := a_iface out1 # a_chain out1, a_iface := []\<rparr> else out1)
      in if a_iface out2 \<noteq> [] \<and> a_stack out2 \<noteq> []
         then out2\<lparr>a_stack := a_iface out2 # a_stack out2, a_iface := []\<rparr> else out2)"

definition finish_args :: "Args \<Rightarrow> LogLevel \<Rightarrow> args_end" where
  "finish_args out gLevel =
     (let (known, gLevel') = setLogLevel (a_logLevel out) gLevel in
      if \<not> known then Rejected gLevel'
      else if yamlDir out = [] then Rejected gLevel'
      else
        let pipelineFlags = bool_int (a_chain out \<noteq> []) + bool_int (a_stack out \<noteq> []) + bool_int (stackFile out \<noteq> []) in
        if pipelineFlags > 1 then Rejected gLevel'
        else if \<not> listInterfaces out \<and> \<not> a_validate out \<and> a_iface out = [] \<and>
            a_chain out = [] \<and> a_stack out = [] \<and> stackFile out = [] then Rejected gLevel'
        else
          let out' = normalise_args out in
          if a_output out' \<noteq> ''hex'' \<and> a_output out' \<noteq> ''json'' then Rejected gLevel'
          else Parsed out' gLevel')"

definition parseArgs :: "string list \<Rightarrow> LogLevel \<Rightarrow> args_end" where
  "parseArgs argv gLevel = (case parse_opts argv default_args of
       Opts out \<Rightarrow> finish_args out gLevel
     | Unknown_option \<Rightarrow> Rejected gLevel
     | Exit0 lines \<Rightarrow> Exits lines
     | Uncaught \<Rightarrow> Terminates)"

section \<open>Splitting a list of names\<close>

text \<open>
  Names that survive the splitting: not empty, no placeholder character, colons only in pairs and
  not at the start.
\<close>

definition plain_name :: "string \<Rightarrow> bool" where
  "plain_name n \<longleftrightarrow> n \<noteq> [] \<and> hd n \<noteq> CHR '':'' \<and> CHR 0x01 \<notin> set n \<and> CHR '':'' \<notin> set (hide_sep n)"

fun join_names :: "string list \<Rightarrow> string" where
  "join_names [] = []"
| "join_names [n] = n"
| "join_names (n # ns) = n @ '':'' @ join_names ns"

lemma restore_hide: "CHR 0x01 \<notin> set s \<Longrightarrow> restore_sep (hide_sep s) = s"
  by (induction s rule: hide_sep.induct) auto

lemma hide_sep_append:
  "CHR '':'' \<notin> set (hide_sep s) \<Longrightarrow> hide_sep (s @ t) = hide_sep s @ hide_sep t"
proof (induction s rule: hide_sep.induct, goal_cases)
  case (1 a b s)
  then show ?case by (auto split: if_splits)
next
  case (3 c)
  then show ?case by (cases t) auto
qed simp

lemma hide_sep_colon: "t \<noteq> [] \<Longrightarrow> hd t \<noteq> CHR '':'' \<Longrightarrow> hide_sep (CHR '':'' # t) = CHR '':'' # hide_sep t"
  by (cases t) auto

lemma hide_sep_ne: "s \<noteq> [] \<Longrightarrow> hide_sep s \<noteq> []"
  by (induction s rule: hide_sep.induct) auto

lemma split_loop_piece:
  assumes "CHR '':'' \<notin> set p" and "restore_sep (seg @ p) \<noteq> []"
  shows "split_loop (p @ CHR '':'' # rest) seg target = split_loop rest [] (target @ [restore_sep (seg @ p)])"
  using assms by (induction p arbitrary: seg) auto

lemma join_names_hd: "list_all plain_name ns \<Longrightarrow> ns \<noteq> [] \<Longrightarrow> join_names ns \<noteq> [] \<and> hd (join_names ns) \<noteq> CHR '':''"
  by (cases ns rule: join_names.cases) (auto simp: plain_name_def)

lemma split_join:
  "list_all plain_name ns \<Longrightarrow> split_loop (hide_sep (join_names ns) @ '':'') [] target = target @ ns"
proof (induction ns arbitrary: target rule: join_names.induct)
  case (2 n)
  then show ?case
    using split_loop_piece [of "hide_sep n" "[]" "[]" target] by (simp add: plain_name_def restore_hide)
next
  case (3 n m ns)
  have start: "join_names (m # ns) \<noteq> []" "hd (join_names (m # ns)) \<noteq> CHR '':''"
    using join_names_hd [of "m # ns"] "3.prems" by simp_all
  have "hide_sep (join_names (n # m # ns)) = hide_sep n @ CHR '':'' # hide_sep (join_names (m # ns))"
    using "3.prems" hide_sep_colon [OF start] by (simp add: plain_name_def hide_sep_append)
  moreover have "split_loop (hide_sep n @ CHR '':'' # hide_sep (join_names (m # ns)) @ '':'') [] target
      = split_loop (hide_sep (join_names (m # ns)) @ '':'') [] (target @ [n])"
    using split_loop_piece [of "hide_sep n" "[]" "hide_sep (join_names (m # ns)) @ '':''" target] 3
    by (simp add: plain_name_def restore_hide)
  ultimately show ?case
    using 3 by simp
qed simp

lemma normalise_args_frame:
  "yamlDir (normalise_args out) = yamlDir out" "a_logLevel (normalise_args out) = a_logLevel out"
  "stackFile (normalise_args out) = stackFile out" "hexInput (normalise_args out) = hexInput out"
  "listInterfaces (normalise_args out) = listInterfaces out" "a_validate (normalise_args out) = a_validate out"
  "a_chain (normalise_args out) = [] \<longleftrightarrow> a_chain out = []" "a_stack (normalise_args out) = [] \<longleftrightarrow> a_stack out = []"
  "a_iface (normalise_args out) = (if a_chain out \<noteq> [] \<or> a_stack out \<noteq> [] then [] else a_iface out)"
  "a_decode (normalise_args out) = (a_decode out \<or> hexInput out \<noteq> [])"
  by (simp_all add: normalise_args_def Let_def)

section \<open>Properties\<close>

text \<open>A list of qualified names given to \<^verbatim>\<open>--connect\<close> or \<^verbatim>\<open>--stack\<close>, joined with single
  colons, is split back into exactly those names, appended to the names of earlier options, although
  the names themselves contain \<^verbatim>\<open>::\<close>.\<close>

lemma split_spec_recovers_names:
  assumes "list_all plain_name names"
  shows "split_spec (join_names names) target = target @ names"
  using split_join [OF assms] by (simp add: split_spec_def)

lemma split_spec_recovers_names_example:
  "split_spec ''a::B::C:d::E::F:g'' [''x''] = [''x'', ''a::B::C'', ''d::E::F'', ''g'']"
  using split_spec_recovers_names [of "[''a::B::C'', ''d::E::F'', ''g'']" "[''x'']"]
  by (simp add: plain_name_def)

text \<open>C40: What the rest of the program can rely on when the arguments are accepted: a directory, one of
  the two output formats, at most one way of naming layers, something to work on unless the
  interfaces are only listed or the files only checked, a hexadecimal input only in decode mode,
  and a known log level.\<close>

theorem accepted_arguments:
  assumes "parseArgs argv gLevel = Parsed args lvl"
  shows "yamlDir args \<noteq> [] \<and> a_output args \<in> {''hex'', ''json''} \<and>
    (a_chain args = [] \<and> a_stack args = [] \<or> a_chain args = [] \<and> stackFile args = [] \<or> a_stack args = [] \<and> stackFile args = []) \<and>
    (listInterfaces args \<or> a_validate args \<or> a_iface args \<noteq> [] \<or> a_chain args \<noteq> [] \<or> a_stack args \<noteq> [] \<or> stackFile args \<noteq> []) \<and>
    (a_iface args \<noteq> [] \<longrightarrow> a_chain args = [] \<and> a_stack args = []) \<and>
    (hexInput args \<noteq> [] \<longrightarrow> a_decode args) \<and> (\<exists>l. setLogLevel (a_logLevel args) l = (True, lvl))"
proof -
  obtain out where fin: "finish_args out gLevel = Parsed args lvl"
    using assms by (auto simp: parseArgs_def split: opts_end.splits)
  note keep = normalise_args_frame [of out]
  have args: "args = normalise_args out" and level: "setLogLevel (a_logLevel out) gLevel = (True, lvl)"
    and dir: "yamlDir out \<noteq> []" and fmt: "a_output args \<in> {''hex'', ''json''}"
    using fin by (auto simp: finish_args_def Let_def split: if_splits prod.splits)
  have one: "a_chain out = [] \<and> a_stack out = [] \<or> a_chain out = [] \<and> stackFile out = [] \<or> a_stack out = [] \<and> stackFile out = []"
    using fin by (auto simp: finish_args_def Let_def bool_int_def split: if_splits prod.splits)
  have some: "listInterfaces out \<or> a_validate out \<or> a_iface out \<noteq> [] \<or> a_chain out \<noteq> [] \<or> a_stack out \<noteq> [] \<or> stackFile out \<noteq> []"
    using fin by (auto simp: finish_args_def Let_def split: if_splits prod.splits)
  show ?thesis
    using fmt level dir one some unfolding args by (auto simp: keep)
qed

theorem accepted_arguments_witness:
  "parseArgs [''--yaml-dir'', ''p'', ''--interface'', ''a::B::C'', ''--connect'', ''d::E::F'', ''--count'', ''3''] Warn =
     Parsed (default_args\<lparr>yamlDir := ''p'', a_count := 3, a_chain := [''a::B::C'', ''d::E::F'']\<rparr>) Warn \<and>
   a_output (default_args\<lparr>yamlDir := ''p'', a_count := 3, a_chain := [''a::B::C'', ''d::E::F'']\<rparr>) \<in> {''hex'', ''json''}"
proof -
  have r: "parseArgs [''--yaml-dir'', ''p'', ''--interface'', ''a::B::C'', ''--connect'', ''d::E::F'', ''--count'', ''3''] Warn =
     Parsed (default_args\<lparr>yamlDir := ''p'', a_count := 3, a_chain := [''a::B::C'', ''d::E::F'']\<rparr>) Warn"
    by code_simp
  show ?thesis
    using accepted_arguments [OF r] r by blast
qed

end
