(* ===== verification/Posix_Io.thy ===== *)
theory Posix_Io
  imports TSN_Prelude Error_Codes
begin

text \<open>
  The system calls of the transports and the three full-transfer loops built on them:
  \<^verbatim>\<open>writeAll\<close> of pcap_sender.cpp and verilator_sender.cpp, \<^verbatim>\<open>readAll\<close> of
  pcap_receiver.cpp and verilator_receiver.cpp.

  The operating system is a parameter: \<open>'w sys\<close> is the record of the calls on a world
  \<open>'w\<close>. A failed call carries its \<^verbatim>\<open>errno\<close>, of which the sources only look at
  \<^verbatim>\<open>EINTR\<close>. Because a call can be interrupted any number of times, the loops are partial
  functions; what POSIX documents of \<^verbatim>\<open>write\<close> and \<^verbatim>\<open>read\<close> (and that
  interruptions do not go on for ever) are the named hypotheses \<open>posix_write\<close> and
  \<open>posix_read\<close>.
\<close>

datatype errno = EINTR | EOTHER

record 'w sys =
  sys_write :: "int \<Rightarrow> bytes \<Rightarrow> 'w \<Rightarrow> (errno + nat) \<times> 'w"
  sys_read :: "int \<Rightarrow> nat \<Rightarrow> 'w \<Rightarrow> (errno + bytes) \<times> 'w"
  sys_open_write :: "string \<Rightarrow> 'w \<Rightarrow> int \<times> 'w"
  sys_open_read :: "string \<Rightarrow> 'w \<Rightarrow> int \<times> 'w"
  sys_close :: "int \<Rightarrow> 'w \<Rightarrow> 'w"
  sys_socket_unix :: "'w \<Rightarrow> int \<times> 'w"
  sys_connect :: "int \<Rightarrow> string \<Rightarrow> 'w \<Rightarrow> int \<times> 'w"
  sys_socket_packet :: "'w \<Rightarrow> int \<times> 'w"
  sys_ioctl_ifindex :: "int \<Rightarrow> string \<Rightarrow> 'w \<Rightarrow> (int \<times> int) \<times> 'w"
  sys_bind :: "int \<Rightarrow> int \<Rightarrow> 'w \<Rightarrow> int \<times> 'w"
  sys_sendto :: "int \<Rightarrow> int \<Rightarrow> bytes \<Rightarrow> 'w \<Rightarrow> int \<times> 'w"
  sys_recvfrom :: "int \<Rightarrow> nat \<Rightarrow> 'w \<Rightarrow> (errno + bytes) \<times> 'w"
  sys_clock :: "'w \<Rightarrow> (int \<times> int) \<times> 'w"

section \<open>The loops of the sources\<close>

text \<open>pcap_sender.cpp: any result that is not positive ends the loop with false.\<close>

partial_function (option) pcap_writeAll ::
    "'w sys \<Rightarrow> int \<Rightarrow> bytes \<Rightarrow> 'w \<Rightarrow> (bool \<times> 'w) option" where
  "pcap_writeAll sys fd data w =
     (if data = [] then Some (True, w)
      else case sys_write sys fd data w of
          (Inl e, w') \<Rightarrow> Some (False, w')
        | (Inr n, w') \<Rightarrow> if n = 0 then Some (False, w') else pcap_writeAll sys fd (drop n data) w')"

text \<open>verilator_sender.cpp: retries on EINTR.\<close>

partial_function (option) verilator_writeAll ::
    "'w sys \<Rightarrow> int \<Rightarrow> bytes \<Rightarrow> 'w \<Rightarrow> (int \<times> 'w) option" where
  "verilator_writeAll sys fd data w =
     (if data = [] then Some (SENDER_SUCCESS, w)
      else case sys_write sys fd data w of
          (Inl EINTR, w') \<Rightarrow> verilator_writeAll sys fd data w'
        | (Inl EOTHER, w') \<Rightarrow> Some (SENDER_ERR_SEND_FAILED, w')
        | (Inr n, w') \<Rightarrow> verilator_writeAll sys fd (drop n data) w')"

text \<open>
  verilator_receiver.cpp and pcap_receiver.cpp: read until the buffer is full; \<open>acc\<close> is
  what has been read so far. The pcap version folds both failures into false.
\<close>

partial_function (option) readAll_loop ::
    "'w sys \<Rightarrow> int \<Rightarrow> nat \<Rightarrow> bytes \<Rightarrow> 'w \<Rightarrow> ((int \<times> bytes) \<times> 'w) option" where
  "readAll_loop sys fd rem acc w =
     (if rem = 0 then Some ((RECEIVER_SUCCESS, acc), w)
      else case sys_read sys fd rem w of
          (Inl EINTR, w') \<Rightarrow> readAll_loop sys fd rem acc w'
        | (Inl EOTHER, w') \<Rightarrow> Some ((RECEIVER_ERR_RECV_FAILED, acc), w')
        | (Inr bs, w') \<Rightarrow>
            if bs = [] then Some ((RECEIVER_ERR_EOF, acc), w')
            else readAll_loop sys fd (rem - length bs) (acc @ bs) w')"

definition verilator_readAll ::
    "'w sys \<Rightarrow> int \<Rightarrow> nat \<Rightarrow> 'w \<Rightarrow> ((int \<times> bytes) \<times> 'w) option" where
  "verilator_readAll sys fd len w = readAll_loop sys fd len [] w"

definition pcap_readAll ::
    "'w sys \<Rightarrow> int \<Rightarrow> nat \<Rightarrow> 'w \<Rightarrow> ((bool \<times> bytes) \<times> 'w) option" where
  "pcap_readAll sys fd len w = (case readAll_loop sys fd len [] w of
       None \<Rightarrow> None
     | Some ((c, bs), w') \<Rightarrow> Some ((c = RECEIVER_SUCCESS, bs), w'))"

declare pcap_writeAll.simps [code] verilator_writeAll.simps [code] readAll_loop.simps [code]

section \<open>What POSIX documents\<close>

text \<open>
  \<open>out fd w\<close> is everything written to \<open>fd\<close> so far, \<open>src fd w\<close> what is still
  to be read from it, \<open>intr w\<close> bounds the interruptions that are still to come.
\<close>

definition posix_write :: "'w sys \<Rightarrow> (int \<Rightarrow> 'w \<Rightarrow> bytes) \<Rightarrow> ('w \<Rightarrow> nat) \<Rightarrow> bool" where
  "posix_write sys out intr \<longleftrightarrow> (\<forall>fd data w. data \<noteq> [] \<longrightarrow>
     (case sys_write sys fd data w of
        (Inl e, w') \<Rightarrow> out fd w' = out fd w \<and> (e = EINTR \<longrightarrow> intr w' < intr w)
      | (Inr n, w') \<Rightarrow> 0 < n \<and> n \<le> length data \<and> out fd w' = out fd w @ take n data \<and> intr w' \<le> intr w))"

definition posix_read :: "'w sys \<Rightarrow> (int \<Rightarrow> 'w \<Rightarrow> bytes) \<Rightarrow> ('w \<Rightarrow> nat) \<Rightarrow> bool" where
  "posix_read sys src intr \<longleftrightarrow> (\<forall>fd len w. 0 < len \<longrightarrow>
     (case sys_read sys fd len w of
        (Inl e, w') \<Rightarrow> src fd w' = src fd w \<and> (e = EINTR \<longrightarrow> intr w' < intr w)
      | (Inr bs, w') \<Rightarrow> length bs \<le> len \<and> src fd w = bs @ src fd w' \<and>
          (bs = [] \<longrightarrow> src fd w = []) \<and> intr w' \<le> intr w))"

text \<open>No hard failures: the only errors are interruptions.\<close>

definition only_interrupts :: "'w sys \<Rightarrow> bool" where
  "only_interrupts sys \<longleftrightarrow> (\<forall>fd data w. fst (sys_write sys fd data w) \<noteq> Inl EOTHER) \<and>
     (\<forall>fd len w. fst (sys_read sys fd len w) \<noteq> Inl EOTHER)"

lemma posix_write_ok:
  "posix_write sys out intr \<Longrightarrow> data \<noteq> [] \<Longrightarrow> sys_write sys fd data w = (Inr n, w') \<Longrightarrow>
     0 < n \<and> n \<le> length data \<and> out fd w' = out fd w @ take n data \<and> intr w' \<le> intr w"
  unfolding posix_write_def by (drule spec [of _ fd], drule spec [of _ data], drule spec [of _ w]) simp

lemma posix_write_err:
  "posix_write sys out intr \<Longrightarrow> data \<noteq> [] \<Longrightarrow> sys_write sys fd data w = (Inl e, w') \<Longrightarrow>
     out fd w' = out fd w \<and> (e = EINTR \<longrightarrow> intr w' < intr w)"
  unfolding posix_write_def by (drule spec [of _ fd], drule spec [of _ data], drule spec [of _ w]) simp

lemma posix_read_ok:
  "posix_read sys src intr \<Longrightarrow> 0 < len \<Longrightarrow> sys_read sys fd len w = (Inr bs, w') \<Longrightarrow>
     length bs \<le> len \<and> src fd w = bs @ src fd w' \<and> (bs = [] \<longrightarrow> src fd w = []) \<and> intr w' \<le> intr w"
  unfolding posix_read_def by (drule spec [of _ fd], drule spec [of _ len], drule spec [of _ w]) auto

lemma posix_read_err:
  "posix_read sys src intr \<Longrightarrow> 0 < len \<Longrightarrow> sys_read sys fd len w = (Inl e, w') \<Longrightarrow>
     src fd w' = src fd w \<and> (e = EINTR \<longrightarrow> intr w' < intr w)"
  unfolding posix_read_def by (drule spec [of _ fd], drule spec [of _ len], drule spec [of _ w]) simp

section \<open>Full transfers\<close>

text \<open>
  Every full write ends. On success exactly the data has been appended to the stream, on failure
  a proper prefix of it.
\<close>

definition wrote :: "(int \<Rightarrow> 'w \<Rightarrow> bytes) \<Rightarrow> int \<Rightarrow> bytes \<Rightarrow> 'w \<Rightarrow> bool \<Rightarrow> 'w \<Rightarrow> bool" where
  "wrote out fd data w ok w' \<longleftrightarrow>
     (if ok then out fd w' = out fd w @ data
      else \<exists>k<length data. out fd w' = out fd w @ take k data)"

lemma wrote_step:
  assumes "wrote out fd (drop n data) w1 ok w2" and "out fd w1 = out fd w @ take n data"
    and "0 < n" and "n \<le> length data"
  shows "wrote out fd data w ok w2"
proof (cases ok)
  case True
  then show ?thesis
    using assms by (simp add: wrote_def)
next
  case False
  then obtain k where k: "k < length (drop n data)" "out fd w2 = out fd w1 @ take k (drop n data)"
    using assms(1) by (auto simp: wrote_def)
  have "take n data @ take k (drop n data) = take (n + k) data"
    by (simp add: take_add)
  then show ?thesis
    using k False assms(2,4) by (auto simp: wrote_def intro!: exI [of _ "n + k"])
qed

lemma write_outcome:
  obtains (ok) n where "r = Inr n" | (again) "r = Inl EINTR" | (fail) "r = Inl EOTHER"
  by (metis errno.exhaust sum.exhaust)

lemma no_hard_failure:
  "sys_write sys fd data w = (Inl EOTHER, w') \<Longrightarrow> \<not> only_interrupts sys"
  "sys_read sys fd len w = (Inl EOTHER, w') \<Longrightarrow> \<not> only_interrupts sys"
  unfolding only_interrupts_def by (metis fst_conv)+

lemma verilator_writeAll_ends:
  assumes "posix_write sys out intr"
  shows "\<exists>c w'. verilator_writeAll sys fd data w = Some (c, w') \<and>
    c \<in> {SENDER_SUCCESS, SENDER_ERR_SEND_FAILED} \<and> wrote out fd data w (c = SENDER_SUCCESS) w' \<and>
    (only_interrupts sys \<longrightarrow> c = SENDER_SUCCESS)"
proof (induction "length data + intr w" arbitrary: data w rule: less_induct)
  case less
  show ?case
  proof (cases "data = []")
    case True
    then show ?thesis
      by (subst verilator_writeAll.simps) (simp add: wrote_def sender_codes)
  next
    case False
    obtain r w1 where r: "sys_write sys fd data w = (r, w1)" by fastforce
    show ?thesis
    proof (cases r rule: write_outcome)
      case (ok n)
      note step = posix_write_ok [OF assms False r [unfolded ok]]
      then have "length (drop n data) + intr w1 < length data + intr w" by auto
      then obtain c w2 where "verilator_writeAll sys fd (drop n data) w1 = Some (c, w2)"
          "c \<in> {SENDER_SUCCESS, SENDER_ERR_SEND_FAILED}" "wrote out fd (drop n data) w1 (c = SENDER_SUCCESS) w2"
          "only_interrupts sys \<longrightarrow> c = SENDER_SUCCESS"
        using less by blast
      then show ?thesis
        using wrote_step [of out fd n data w1 _ w2 w] step False r ok
        by (subst verilator_writeAll.simps) simp
    next
      case again
      note step = posix_write_err [OF assms False r [unfolded again]]
      then have "length data + intr w1 < length data + intr w" by simp
      then obtain c w2 where "verilator_writeAll sys fd data w1 = Some (c, w2)"
          "c \<in> {SENDER_SUCCESS, SENDER_ERR_SEND_FAILED}" "wrote out fd data w1 (c = SENDER_SUCCESS) w2"
          "only_interrupts sys \<longrightarrow> c = SENDER_SUCCESS"
        using less by blast
      then show ?thesis
        using step False r again
        by (subst verilator_writeAll.simps) (auto simp: wrote_def split: if_splits)
    next
      case fail
      then show ?thesis
        using no_hard_failure(1) [OF r [unfolded fail]] posix_write_err [OF assms False r [unfolded fail]] False r fail
        by (subst verilator_writeAll.simps) (auto simp: wrote_def sender_codes intro!: exI [of _ 0])
    qed
  qed
qed

lemma pcap_writeAll_ends:
  assumes "posix_write sys out intr"
  shows "\<exists>ok w'. pcap_writeAll sys fd data w = Some (ok, w') \<and> wrote out fd data w ok w'"
proof (induction "length data" arbitrary: data w rule: less_induct)
  case less
  show ?case
  proof (cases "data = []")
    case True
    then show ?thesis
      by (subst pcap_writeAll.simps) (auto simp: wrote_def)
  next
    case False
    obtain r w1 where r: "sys_write sys fd data w = (r, w1)" by fastforce
    show ?thesis
    proof (cases r)
      case (Inl e)
      then show ?thesis
        using posix_write_err [OF assms False r [unfolded Inl]] False r
        by (subst pcap_writeAll.simps) (auto simp: wrote_def intro!: exI [of _ 0])
    next
      case (Inr n)
      note step = posix_write_ok [OF assms False r [unfolded Inr]]
      then have "length (drop n data) < length data" by auto
      then obtain ok w2 where "pcap_writeAll sys fd (drop n data) w1 = Some (ok, w2)"
          "wrote out fd (drop n data) w1 ok w2"
        using less by blast
      then show ?thesis
        using wrote_step [of out fd n data w1 ok w2 w] step False r Inr
        by (subst pcap_writeAll.simps) simp
    qed
  qed
qed

lemma read_outcome:
  obtains (eof) "r = Inr []" | (ok) x xs where "r = Inr (x # xs)" | (again) "r = Inl EINTR" | (fail) "r = Inl EOTHER"
proof (cases r)
  case (Inl e)
  then show thesis using that by (cases e) auto
next
  case (Inr bs)
  then show thesis using that by (cases bs) auto
qed

text \<open>A full read of what is there returns it and leaves the rest of the stream.\<close>

lemma readAll_loop_ends:
  assumes "posix_read sys src intr"
  shows "\<exists>c bs w'. readAll_loop sys fd len acc w = Some ((c, acc @ bs), w') \<and>
    src fd w = bs @ src fd w' \<and> length bs \<le> len \<and>
    c \<in> {RECEIVER_SUCCESS, RECEIVER_ERR_EOF, RECEIVER_ERR_RECV_FAILED} \<and>
    (c = RECEIVER_SUCCESS \<longleftrightarrow> length bs = len) \<and> (c = RECEIVER_ERR_EOF \<longrightarrow> src fd w' = []) \<and>
    (only_interrupts sys \<longrightarrow> c \<noteq> RECEIVER_ERR_RECV_FAILED)"
proof (induction "len + intr w" arbitrary: len acc w rule: less_induct)
  case less
  show ?case
  proof (cases "len = 0")
    case True
    then show ?thesis
      by (subst readAll_loop.simps) (simp add: receiver_codes)
  next
    case False
    then have pos: "0 < len" by simp
    obtain r w1 where r: "sys_read sys fd len w = (r, w1)" by fastforce
    show ?thesis
    proof (cases r rule: read_outcome)
      case eof
      then show ?thesis
        using posix_read_ok [OF assms pos r [unfolded eof]] False r
        by (subst readAll_loop.simps) (auto simp: receiver_codes)
    next
      case (ok x xs)
      note step = posix_read_ok [OF assms pos r [unfolded ok]]
      then have "len - length (x # xs) + intr w1 < len + intr w" by auto
      then obtain c bs w2 where rec: "readAll_loop sys fd (len - length (x # xs)) (acc @ x # xs) w1
            = Some ((c, (acc @ x # xs) @ bs), w2)"
          "src fd w1 = bs @ src fd w2" "length bs \<le> len - length (x # xs)"
          "c \<in> {RECEIVER_SUCCESS, RECEIVER_ERR_EOF, RECEIVER_ERR_RECV_FAILED}"
          "c = RECEIVER_SUCCESS \<longleftrightarrow> length bs = len - length (x # xs)" "c = RECEIVER_ERR_EOF \<longrightarrow> src fd w2 = []"
          "only_interrupts sys \<longrightarrow> c \<noteq> RECEIVER_ERR_RECV_FAILED"
        using less by blast
      have "readAll_loop sys fd len acc w = Some ((c, acc @ (x # xs @ bs)), w2)"
        using rec(1) False r ok by (subst readAll_loop.simps) simp
      then show ?thesis
        using rec step by (intro exI [of _ c] exI [of _ "x # xs @ bs"] exI [of _ w2]) auto
    next
      case again
      note step = posix_read_err [OF assms pos r [unfolded again]]
      then have "len + intr w1 < len + intr w" by simp
      from less [OF this, of acc] show ?thesis
        using step False r again by (subst readAll_loop.simps) simp
    next
      case fail
      then show ?thesis
        using no_hard_failure(2) [OF r [unfolded fail]] posix_read_err [OF assms pos r [unfolded fail]] False r fail
        by (subst readAll_loop.simps) (simp add: receiver_codes)
    qed
  qed
qed

section \<open>A concrete world\<close>

text \<open>
  An instance on which the hypotheses hold: the world is the input still to come, the output so
  far and a number of interruptions; every transfer moves at most three bytes.
\<close>

type_synonym ex_world = "bytes \<times> bytes \<times> nat"

definition ex_sys :: "ex_world sys" where
  "ex_sys = \<lparr>
     sys_write = (\<lambda>fd data (i, out, k). if k > 0 then (Inl EINTR, (i, out, k - 1))
        else (Inr (min 3 (length data)), (i, out @ take 3 data, 0))),
     sys_read = (\<lambda>fd len (i, out, k). if k > 0 then (Inl EINTR, (i, out, k - 1))
        else (Inr (take (min 3 len) i), (drop (min 3 len) i, out, 0))),
     sys_open_write = (\<lambda>p w. (5, w)), sys_open_read = (\<lambda>p w. (5, w)), sys_close = (\<lambda>fd w. w),
     sys_socket_unix = (\<lambda>w. (5, w)), sys_connect = (\<lambda>fd p w. (0, w)), sys_socket_packet = (\<lambda>w. (5, w)),
     sys_ioctl_ifindex = (\<lambda>fd n w. ((0, 2), w)), sys_bind = (\<lambda>fd i w. (0, w)),
     sys_sendto = (\<lambda>fd i data w. (int (length data), w)),
     sys_recvfrom = (\<lambda>fd n (i, out, k). (Inr (take n i), (drop n i, out, k))),
     sys_clock = (\<lambda>w. ((1700000000, 5000), w))\<rparr>"

definition ex_out :: "int \<Rightarrow> ex_world \<Rightarrow> bytes" where
  "ex_out fd w = fst (snd w)"

definition ex_src :: "int \<Rightarrow> ex_world \<Rightarrow> bytes" where
  "ex_src fd w = fst w"

definition ex_intr :: "ex_world \<Rightarrow> nat" where
  "ex_intr w = snd (snd w)"

lemma ex_sys_write: "posix_write ex_sys ex_out ex_intr"
  by (simp add: posix_write_def ex_sys_def ex_out_def ex_intr_def split_beta min_def)

lemma ex_sys_read: "posix_read ex_sys ex_src ex_intr"
  by (auto simp: posix_read_def ex_sys_def ex_src_def ex_intr_def split_beta)

lemma ex_sys_only_interrupts: "only_interrupts ex_sys"
  by (simp add: only_interrupts_def ex_sys_def split_beta)

section \<open>Properties\<close>

text \<open>C37: The full-write loop of the Verilator transport returns whatever sequence of short writes and
  interruptions the system produces; on success exactly the data was appended to the stream, on
  failure a proper prefix of it.\<close>

theorem verilator_writeAll_transfers:
  assumes "posix_write sys out intr"
  shows "\<exists>c w'. verilator_writeAll sys fd data w = Some (c, w') \<and>
    ((c = SENDER_SUCCESS \<and> out fd w' = out fd w @ data) \<or>
     (c = SENDER_ERR_SEND_FAILED \<and> (\<exists>k<length data. out fd w' = out fd w @ take k data)))"
  using verilator_writeAll_ends [OF assms, of fd data w] by (auto simp: wrote_def sender_codes)

theorem verilator_writeAll_transfers_witness:
  "posix_write ex_sys ex_out ex_intr \<and>
   (\<exists>c w'. verilator_writeAll ex_sys 5 [1, 2, 3, 4] ([], [], 2) = Some (c, w'))"
  using verilator_writeAll_transfers [OF ex_sys_write, of 5 "[1, 2, 3, 4]" "([], [], 2)"] ex_sys_write
  by blast

end
