(* ===== verification/Axi_Stream.thy ===== *)
theory Axi_Stream
  imports TSN_Prelude
begin

text \<open>
  AXI-Stream framing (traffic-gen/inc/tsn/axi_stream_beat.h; the loops of
  \<^verbatim>\<open>VerilatorSender::send\<close> and \<^verbatim>\<open>VerilatorReceiver::receive\<close> without their
  socket calls): a packet becomes a sequence of 64-bit beats, each a ten-byte packed struct.

  \<open>beat_bytes\<close> is the memory image of the struct on the little-endian hosts the project
  targets.
\<close>

record AxiStreamBeat =
  tdata :: u64
  tkeep :: u8
  tlast :: u8

definition TDATA_BYTES :: nat where
  "TDATA_BYTES = 8"

definition sizeof_beat :: nat where
  "sizeof_beat = 10"

text \<open>\<^verbatim>\<open>for (i = 0; i < chunkSize; ++i) tdata |= packet[offset + i] << (i * 8)\<close>\<close>

fun tdata_loop :: "bytes \<Rightarrow> nat \<Rightarrow> nat \<Rightarrow> u64" where
  "tdata_loop packet offset 0 = 0"
| "tdata_loop packet offset (Suc i) =
     tdata_loop packet offset i OR push_bit (i * 8) (ucast (packet ! (offset + i)))"

definition chunk_size :: "bytes \<Rightarrow> nat \<Rightarrow> nat" where
  "chunk_size packet offset =
     (let remaining = length packet - offset
      in if remaining \<ge> TDATA_BYTES then TDATA_BYTES else remaining)"

definition make_beat :: "bytes \<Rightarrow> nat \<Rightarrow> AxiStreamBeat" where
  "make_beat packet offset =
     (let chunkSize = chunk_size packet offset;
          isLast = (offset + chunkSize \<ge> length packet)
      in \<lparr>tdata = tdata_loop packet offset chunkSize,
          tkeep = ucast (push_bit chunkSize (1 :: u32) - 1),
          tlast = (if isLast then 1 else 0)\<rparr>)"

function beats_from :: "bytes \<Rightarrow> nat \<Rightarrow> AxiStreamBeat list" where
  "beats_from packet offset =
     (if offset < length packet
      then make_beat packet offset # beats_from packet (offset + chunk_size packet offset) else [])"
  by pat_completeness auto
termination
  by (relation "measure (\<lambda>(packet, offset). length packet - offset)")
    (auto simp: chunk_size_def TDATA_BYTES_def Let_def)

declare beats_from.simps [simp del]

definition beat_bytes :: "AxiStreamBeat \<Rightarrow> bytes" where
  "beat_bytes b = map (\<lambda>i. ucast (drop_bit (8 * i) (tdata b))) [0..<8] @ [tkeep b, tlast b]"

fun tdata_of_bytes :: "bytes \<Rightarrow> u64" where
  "tdata_of_bytes [] = 0"
| "tdata_of_bytes (x # xs) = ucast x OR push_bit 8 (tdata_of_bytes xs)"

definition beat_of_bytes :: "bytes \<Rightarrow> AxiStreamBeat" where
  "beat_of_bytes bs = \<lparr>tdata = tdata_of_bytes (take 8 bs), tkeep = bs ! 8, tlast = bs ! 9\<rparr>"

text \<open>The extraction loop of \<^verbatim>\<open>receive\<close>.\<close>

definition beat_payload :: "AxiStreamBeat \<Rightarrow> bytes" where
  "beat_payload b = concat (map (\<lambda>i. if tkeep b AND push_bit i 1 \<noteq> 0
     then [ucast (drop_bit (i * 8) (tdata b))] else []) [0..<TDATA_BYTES])"

section \<open>Packing and unpacking bytes\<close>

lemma bit_tdata_loop:
  "n \<le> 8 \<Longrightarrow> bit (tdata_loop packet off n) k
     \<longleftrightarrow> k < 8 * n \<and> bit (packet ! (off + k div 8)) (k mod 8)"
proof (induction n)
  case (Suc n)
  have byte: "bit (push_bit (n * 8) (ucast (packet ! (off + n)) :: u64)) k
      \<longleftrightarrow> 8 * n \<le> k \<and> k < 8 * Suc n \<and> bit (packet ! (off + k div 8)) (k mod 8)"
  proof (cases "8 * n \<le> k \<and> k < 8 * Suc n")
    case True
    then have k: "k div 8 = n"
      by (simp add: div_nat_eqI)
    then have "k mod 8 = k - n * 8"
      by (simp add: modulo_nat_def)
    with True Suc.prems k show ?thesis
      by (auto simp: bit_simps)
  next
    case False
    then show ?thesis
      using bit_imp_le_length [of "packet ! (off + n)" "k - n * 8"] by (auto simp: bit_simps)
  qed
  show ?case
    using Suc by (auto simp: bit_or_iff byte)
qed simp

lemma tdata_byte:
  assumes "n \<le> 8" and "j < n"
  shows "ucast (drop_bit (j * 8) (tdata_loop packet off n)) = packet ! (off + j)"
proof (rule bit_word_eqI)
  fix i :: nat
  assume "i < LENGTH(8)"
  then have "(j * 8 + i) div 8 = j" "(j * 8 + i) mod 8 = i" "j * 8 + i < 8 * n" "i < 8"
    using assms by auto
  then show "bit (ucast (drop_bit (j * 8) (tdata_loop packet off n)) :: u8) i = bit (packet ! (off + j)) i"
    using assms by (simp add: bit_simps bit_tdata_loop add.commute)
qed

lemma keep_bit:
  assumes "n \<le> 8" and "i < 8"
  shows "(ucast (push_bit n (1 :: u32) - 1) :: u8) AND push_bit i 1 \<noteq> 0 \<longleftrightarrow> i < n"
proof -
  have m: "push_bit n (1 :: u32) - 1 = mask n"
    by (simp add: mask_eq_exp_minus_1 push_bit_eq_mult)
  have "bit (ucast (mask n :: u32) :: u8) i \<longleftrightarrow> i < n"
    using assms by (simp add: bit_simps)
  moreover have "x AND push_bit i 1 \<noteq> 0 \<longleftrightarrow> bit x i" for x :: u8
    using assms(2) by (simp add: bit_iff_and_push_bit_not_eq_0)
  ultimately show ?thesis
    by (simp only: m)
qed

lemma concat_filtered_upt:
  "n \<le> m \<Longrightarrow> concat (map (\<lambda>i. if i < n then [f i] else []) [0..<m]) = map f [0..<n]"
proof (induction m)
  case (Suc m)
  show ?case
  proof (cases "n \<le> m")
    case True
    then show ?thesis using Suc by simp
  next
    case False
    then have n: "n = Suc m" using Suc.prems by simp
    have "concat (map (\<lambda>i. if i < Suc m then [f i] else []) [0..<Suc m]) = map f [0..<Suc m]" for m
      by (rule trans [OF arg_cong [where f = concat] concat_map_singleton [of f]]) simp
    then show ?thesis by (simp only: n)
  qed
qed simp

lemma chunk_le: "chunk_size packet off \<le> 8" "chunk_size packet off \<le> length packet - off"
  by (simp_all add: chunk_size_def TDATA_BYTES_def Let_def)

text \<open>A beat carries exactly its chunk of the packet.\<close>

lemma payload_make_beat:
  "beat_payload (make_beat packet off) = take (chunk_size packet off) (drop off packet)"
proof -
  let ?n = "chunk_size packet off"
  have "beat_payload (make_beat packet off) =
      concat (map (\<lambda>i. if i < ?n then [packet ! (off + i)] else []) [0..<8])"
    unfolding beat_payload_def TDATA_BYTES_def
  proof (intro arg_cong [where f = concat] map_cong refl)
    fix i :: nat
    assume "i \<in> set [0..<8]"
    then have "tkeep (make_beat packet off) AND push_bit i 1 \<noteq> 0 \<longleftrightarrow> i < ?n"
      using keep_bit [OF chunk_le(1), of i packet off] by (simp only: make_beat_def Let_def AxiStreamBeat.simps) auto
    moreover have "ucast (drop_bit (i * 8) (tdata (make_beat packet off))) = packet ! (off + i)" if "i < ?n"
      using tdata_byte [OF chunk_le(1) that] by (simp add: make_beat_def Let_def)
    ultimately show "(if tkeep (make_beat packet off) AND push_bit i 1 \<noteq> 0
        then [ucast (drop_bit (i * 8) (tdata (make_beat packet off)))] else [])
        = (if i < ?n then [packet ! (off + i)] else [])"
      by (cases "i < ?n") (simp_all only: if_True if_False simp_thms)
  qed
  also have "\<dots> = map (\<lambda>i. packet ! (off + i)) [0..<?n]"
    by (rule concat_filtered_upt [OF chunk_le(1)])
  also have "\<dots> = take ?n (drop off packet)"
    using chunk_le(2) [of packet off] by (intro nth_equalityI) auto
  finally show ?thesis .
qed

lemma payload_beats_from:
  "concat (map beat_payload (beats_from packet off)) = drop off packet"
proof (induction packet off rule: beats_from.induct)
  case (1 packet off)
  show ?case
  proof (cases "off < length packet")
    case True
    have "beats_from packet off = make_beat packet off # beats_from packet (off + chunk_size packet off)"
      using True by (subst beats_from.simps) simp
    then show ?thesis
      using 1 True by (simp add: payload_make_beat) (metis add.commute append_take_drop_id drop_drop)
  next
    case False
    then show ?thesis
      by (subst beats_from.simps) simp
  qed
qed

lemma chunk_pos: "off < length packet \<Longrightarrow> 0 < chunk_size packet off"
  by (simp add: chunk_size_def TDATA_BYTES_def Let_def)

text \<open>Only the last beat of a packet has \<^verbatim>\<open>tlast\<close> set.\<close>

lemma tlast_beats_from:
  "off < length packet \<Longrightarrow>
     \<exists>bs b. beats_from packet off = bs @ [b] \<and> tlast b = 1 \<and> (\<forall>c\<in>set bs. tlast c = 0)"
proof (induction packet off rule: beats_from.induct)
  case (1 packet off)
  let ?off = "off + chunk_size packet off"
  have unfold: "beats_from packet off = make_beat packet off # beats_from packet ?off"
    using "1.prems" by (subst beats_from.simps) simp
  show ?case
  proof (cases "?off < length packet")
    case True
    then have "tlast (make_beat packet off) = 0"
      by (simp add: make_beat_def Let_def)
    with 1 True unfold show ?thesis
      by (metis append_Cons set_ConsD)
  next
    case False
    have "beats_from packet ?off = []"
      using False by (subst beats_from.simps) simp
    moreover have "tlast (make_beat packet off) = 1"
      using False by (simp add: make_beat_def Let_def)
    ultimately have "beats_from packet ?off = []" "tlast (make_beat packet off) = 1" .
    then show ?thesis
      using unfold by (intro exI [of _ "[]"]) simp
  qed
qed

lemma length_beats_from:
  "length (beats_from packet off) = ceil8 (length packet - off)"
proof (induction packet off rule: beats_from.induct)
  case (1 packet off)
  show ?case
  proof (cases "off < length packet")
    case True
    then have "length (beats_from packet off) = Suc (ceil8 (length packet - (off + chunk_size packet off)))"
      using 1 by (subst beats_from.simps) simp
    also have "\<dots> = ceil8 (length packet - off)"
      using True by (auto simp: chunk_size_def TDATA_BYTES_def Let_def ceil8_def)
    finally show ?thesis .
  next
    case False
    then show ?thesis
      by (subst beats_from.simps) simp
  qed
qed

section \<open>The memory image of a beat\<close>

lemma bit_tdata_of_bytes:
  "length bs \<le> 8 \<Longrightarrow> bit (tdata_of_bytes bs) k \<longleftrightarrow> k < 8 * length bs \<and> bit (bs ! (k div 8)) (k mod 8)"
proof (induction bs arbitrary: k)
  case (Cons x xs)
  show ?case
  proof (cases "k < 8")
    case True
    then show ?thesis
      using Cons.prems by (simp add: bit_simps)
  next
    case False
    then have "k div 8 = Suc ((k - 8) div 8)" "k mod 8 = (k - 8) mod 8" "\<not> bit x k"
      using bit_imp_le_length [of x k] by (auto simp: le_div_geq le_mod_geq)
    then show ?thesis
      using False Cons.prems Cons.IH [of "k - 8"] by (auto simp: bit_simps)
  qed
qed simp

lemma tdata_round_trip: "tdata_of_bytes (map (\<lambda>i. ucast (drop_bit (8 * i) v)) [0..<8]) = v"
proof (rule bit_word_eqI)
  fix k :: nat
  assume "k < LENGTH(64)"
  then have "k < 64" "k div 8 < 8" "k mod 8 < 8" "8 * (k div 8) + k mod 8 = k"
    by auto
  then show "bit (tdata_of_bytes (map (\<lambda>i. ucast (drop_bit (8 * i) v)) [0..<8])) k = bit v k"
    using bit_imp_le_length [of v k] by (auto simp: bit_tdata_of_bytes bit_simps simp del: upt_rec_numeral)
qed

lemma length_beat_bytes [simp]: "length (beat_bytes b) = sizeof_beat"
  by (simp add: beat_bytes_def sizeof_beat_def)

lemma beat_of_beat_bytes: "beat_of_bytes (beat_bytes b) = b"
  using tdata_round_trip [of "tdata b"]
  by (simp add: beat_of_bytes_def beat_bytes_def nth_append del: upt_rec_numeral)

section \<open>Properties\<close>

text \<open>Framing a packet into beats loses nothing and adds nothing: the payload bytes selected by
  \<^verbatim>\<open>tkeep\<close> in the beats, concatenated, are the packet; there is one beat per started group of
  eight bytes; the ten-byte memory image of a beat determines the beat.\<close>

lemma axi_framing_round_trip:
  "concat (map (beat_payload \<circ> beat_of_bytes \<circ> beat_bytes) (beats_from packet 0)) = packet \<and>
   length (beats_from packet 0) = (length packet + 7) div 8"
proof -
  have "beat_payload \<circ> beat_of_bytes \<circ> beat_bytes = beat_payload"
    by (simp add: fun_eq_iff beat_of_beat_bytes)
  then show ?thesis
    using payload_beats_from [of packet 0] length_beats_from [of packet 0]
    by (simp add: ceil8_def)
qed

text \<open>In the beats of a non-empty packet \<^verbatim>\<open>tlast\<close> is 1 on the last beat and 0 on all others, so a
  receiver can find the packet boundary.\<close>

lemma axi_tlast_marks_end:
  assumes "packet \<noteq> []"
  shows "\<exists>bs b. beats_from packet 0 = bs @ [b] \<and> tlast b = 1 \<and> (\<forall>c\<in>set bs. tlast c = 0)"
  using tlast_beats_from [of 0 packet] assms by simp

lemma axi_tlast_marks_end_example:
  "\<exists>bs b. beats_from [1, 2, 3, 4, 5, 6, 7, 8, 9] 0 = bs @ [b] \<and> tlast b = 1 \<and> (\<forall>c\<in>set bs. tlast c = 0)"
  by (rule axi_tlast_marks_end) simp

end
