(* ===== verification/Senders.thy ===== *)
theory Senders
  imports Posix_Io Axi_Stream Cpp_Numbers
begin

text \<open>
  The senders: the interface \<^verbatim>\<open>ISender\<close> (traffic-gen/inc/tsn/sender.h) and its three
  implementations \<^verbatim>\<open>PcapSender\<close>, \<^verbatim>\<open>VerilatorSender\<close> and
  \<^verbatim>\<open>RawSocketSender\<close>.

  A sender object is a record with the members of its class and the world it acts on; an
  \<^verbatim>\<open>ISender*\<close> is the record of its three virtual operations. \<open>None\<close> as a result is
  a call that does not return (only the write loop of \<^verbatim>\<open>VerilatorSender\<close> can do that). The
  locale \<open>packet_sender\<close> is the contract of the interface, interpreted for all three.
\<close>

record 's isender =
  isender_open :: "'s \<Rightarrow> (int \<times> 's) option"
  isender_send :: "bytes \<Rightarrow> 's \<Rightarrow> (int \<times> 's) option"
  isender_close :: "'s \<Rightarrow> 's"

section \<open>Little-endian struct members\<close>

definition le32 :: "u32 \<Rightarrow> bytes" where
  "le32 v = map (\<lambda>i. ucast (drop_bit (8 * i) v)) [0, 1, 2, 3]"

definition le16 :: "u16 \<Rightarrow> bytes" where
  "le16 v = map (\<lambda>i. ucast (drop_bit (8 * i) v)) [0, 1]"

lemma length_le32 [simp]: "length (le32 v) = 4"
  by (simp add: le32_def)

lemma length_le16 [simp]: "length (le16 v) = 2"
  by (simp add: le16_def)

section \<open>PcapSender\<close>

record 'w PcapSender =
  pcs_mFilePath :: string
  pcs_mFd :: int
  pcs_world :: 'w

definition PcapGlobalHeader :: bytes where
  "PcapGlobalHeader = le32 0xA1B2C3D4 @ le16 2 @ le16 4 @ le32 0 @ le32 0 @ le32 65535 @ le32 1"

definition PcapPacketHeader :: "u32 \<Rightarrow> u32 \<Rightarrow> u32 \<Rightarrow> u32 \<Rightarrow> bytes" where
  "PcapPacketHeader ts_sec ts_usec incl_len orig_len =
     le32 ts_sec @ le32 ts_usec @ le32 incl_len @ le32 orig_len"

definition new_PcapSender :: "string \<Rightarrow> 'w \<Rightarrow> 'w PcapSender" where
  "new_PcapSender filePath w = \<lparr>pcs_mFilePath = filePath, pcs_mFd = - 1, pcs_world = w\<rparr>"

definition PcapSender_open :: "'w sys \<Rightarrow> 'w PcapSender \<Rightarrow> (int \<times> 'w PcapSender) option" where
  "PcapSender_open sys s =
     (let (fd, w1) = sys_open_write sys (c_str (pcs_mFilePath s)) (pcs_world s) in
      if fd < 0 then Some (SENDER_ERR_OPEN_FAILED, s\<lparr>pcs_mFd := fd, pcs_world := w1\<rparr>)
      else case pcap_writeAll sys fd PcapGlobalHeader w1 of
          None \<Rightarrow> None
        | Some (ok, w2) \<Rightarrow>
            if \<not> ok then Some (SENDER_ERR_OPEN_FAILED, s\<lparr>pcs_mFd := - 1, pcs_world := sys_close sys fd w2\<rparr>)
            else Some (SENDER_SUCCESS, s\<lparr>pcs_mFd := fd, pcs_world := w2\<rparr>))"

definition PcapSender_send :: "'w sys \<Rightarrow> bytes \<Rightarrow> 'w PcapSender \<Rightarrow> (int \<times> 'w PcapSender) option" where
  "PcapSender_send sys packet s =
     (if pcs_mFd s < 0 then Some (SENDER_ERR_NOT_OPEN, s)
      else
        let ((tv_sec, tv_nsec), w1) = sys_clock sys (pcs_world s);
            incl_len = of_nat (length packet);
            phdr = PcapPacketHeader (of_int tv_sec) (of_int (tv_nsec div 1000)) incl_len incl_len
        in case pcap_writeAll sys (pcs_mFd s) phdr w1 of
             None \<Rightarrow> None
           | Some (ok, w2) \<Rightarrow>
               if \<not> ok then Some (SENDER_ERR_SEND_FAILED, s\<lparr>pcs_world := w2\<rparr>)
               else case pcap_writeAll sys (pcs_mFd s) packet w2 of
                   None \<Rightarrow> None
                 | Some (ok, w3) \<Rightarrow>
                     Some (if ok then SENDER_SUCCESS else SENDER_ERR_SEND_FAILED, s\<lparr>pcs_world := w3\<rparr>))"

definition PcapSender_close :: "'w sys \<Rightarrow> 'w PcapSender \<Rightarrow> 'w PcapSender" where
  "PcapSender_close sys s =
     (if pcs_mFd s \<ge> 0
      then s\<lparr>pcs_world := sys_close sys (pcs_mFd s) (pcs_world s), pcs_mFd := - 1\<rparr> else s)"

definition PcapSender_destroy :: "'w sys \<Rightarrow> 'w PcapSender \<Rightarrow> 'w PcapSender" where
  "PcapSender_destroy sys s = PcapSender_close sys s"

definition PcapSender_ops :: "'w sys \<Rightarrow> 'w PcapSender isender" where
  "PcapSender_ops sys = \<lparr>isender_open = PcapSender_open sys, isender_send = PcapSender_send sys,
     isender_close = PcapSender_close sys\<rparr>"

section \<open>VerilatorSender\<close>

record 'w VerilatorSender =
  vls_mSocketPath :: string
  vls_mSockFd :: int
  vls_world :: 'w

text \<open>\<^verbatim>\<open>strncpy\<close> into the 108 bytes of \<^verbatim>\<open>sun_path\<close>, keeping the final NUL.\<close>

definition sun_path :: "string \<Rightarrow> string" where
  "sun_path p = take 107 (c_str p)"

definition new_VerilatorSender :: "string \<Rightarrow> 'w \<Rightarrow> 'w VerilatorSender" where
  "new_VerilatorSender socketPath w = \<lparr>vls_mSocketPath = socketPath, vls_mSockFd = - 1, vls_world = w\<rparr>"

definition VerilatorSender_open :: "'w sys \<Rightarrow> 'w VerilatorSender \<Rightarrow> (int \<times> 'w VerilatorSender) option" where
  "VerilatorSender_open sys s =
     (let (fd, w1) = sys_socket_unix sys (vls_world s) in
      if fd < 0 then Some (SENDER_ERR_OPEN_FAILED, s\<lparr>vls_mSockFd := fd, vls_world := w1\<rparr>)
      else
        let (rc, w2) = sys_connect sys fd (sun_path (vls_mSocketPath s)) w1 in
        if rc < 0 then Some (SENDER_ERR_OPEN_FAILED, s\<lparr>vls_mSockFd := - 1, vls_world := sys_close sys fd w2\<rparr>)
        else Some (SENDER_SUCCESS, s\<lparr>vls_mSockFd := fd, vls_world := w2\<rparr>))"

partial_function (option) verilator_send_loop ::
    "'w sys \<Rightarrow> int \<Rightarrow> bytes \<Rightarrow> nat \<Rightarrow> 'w \<Rightarrow> (int \<times> 'w) option" where
  "verilator_send_loop sys fd packet offset w =
     (if offset < length packet then
        (case verilator_writeAll sys fd (beat_bytes (make_beat packet offset)) w of
           None \<Rightarrow> None
         | Some (err, w') \<Rightarrow>
             if err \<noteq> SENDER_SUCCESS then Some (err, w')
             else verilator_send_loop sys fd packet (offset + chunk_size packet offset) w')
      else Some (SENDER_SUCCESS, w))"

declare verilator_send_loop.simps [code]

definition VerilatorSender_send :: "'w sys \<Rightarrow> bytes \<Rightarrow> 'w VerilatorSender \<Rightarrow> (int \<times> 'w VerilatorSender) option" where
  "VerilatorSender_send sys packet s =
     (if vls_mSockFd s < 0 then Some (SENDER_ERR_NOT_OPEN, s)
      else if packet = [] then Some (SENDER_SUCCESS, s)
      else case verilator_send_loop sys (vls_mSockFd s) packet 0 (vls_world s) of
          None \<Rightarrow> None
        | Some (err, w) \<Rightarrow> Some (err, s\<lparr>vls_world := w\<rparr>))"

definition VerilatorSender_close :: "'w sys \<Rightarrow> 'w VerilatorSender \<Rightarrow> 'w VerilatorSender" where
  "VerilatorSender_close sys s =
     (if vls_mSockFd s \<ge> 0
      then s\<lparr>vls_world := sys_close sys (vls_mSockFd s) (vls_world s), vls_mSockFd := - 1\<rparr> else s)"

definition VerilatorSender_destroy :: "'w sys \<Rightarrow> 'w VerilatorSender \<Rightarrow> 'w VerilatorSender" where
  "VerilatorSender_destroy sys s = VerilatorSender_close sys s"

definition VerilatorSender_ops :: "'w sys \<Rightarrow> 'w VerilatorSender isender" where
  "VerilatorSender_ops sys = \<lparr>isender_open = VerilatorSender_open sys, isender_send = VerilatorSender_send sys,
     isender_close = VerilatorSender_close sys\<rparr>"

section \<open>RawSocketSender\<close>

record 'w RawSocketSender =
  rws_mIfName :: string
  rws_mSockFd :: int
  rws_mIfIndex :: int
  rws_world :: 'w

text \<open>\<^verbatim>\<open>strncpy\<close> into the \<^verbatim>\<open>IFNAMSIZ\<close> = 16 bytes of \<^verbatim>\<open>ifr_name\<close>.\<close>

definition ifr_name :: "string \<Rightarrow> string" where
  "ifr_name n = take 15 (c_str n)"

definition new_RawSocketSender :: "string \<Rightarrow> 'w \<Rightarrow> 'w RawSocketSender" where
  "new_RawSocketSender ifName w = \<lparr>rws_mIfName = ifName, rws_mSockFd = - 1, rws_mIfIndex = - 1, rws_world = w\<rparr>"

definition RawSocketSender_open :: "'w sys \<Rightarrow> 'w RawSocketSender \<Rightarrow> (int \<times> 'w RawSocketSender) option" where
  "RawSocketSender_open sys s =
     (let (fd, w1) = sys_socket_packet sys (rws_world s) in
      if fd < 0 then Some (SENDER_ERR_OPEN_FAILED, s\<lparr>rws_mSockFd := fd, rws_world := w1\<rparr>)
      else
        let ((rc, ifindex), w2) = sys_ioctl_ifindex sys fd (ifr_name (rws_mIfName s)) w1 in
        if rc < 0 then Some (SENDER_ERR_OPEN_FAILED, s\<lparr>rws_mSockFd := - 1, rws_world := sys_close sys fd w2\<rparr>)
        else
          let (rc, w3) = sys_bind sys fd ifindex w2 in
          if rc < 0 then Some (SENDER_ERR_OPEN_FAILED,
              s\<lparr>rws_mSockFd := - 1, rws_mIfIndex := ifindex, rws_world := sys_close sys fd w3\<rparr>)
          else Some (SENDER_SUCCESS, s\<lparr>rws_mSockFd := fd, rws_mIfIndex := ifindex, rws_world := w3\<rparr>))"

definition RawSocketSender_send :: "'w sys \<Rightarrow> bytes \<Rightarrow> 'w RawSocketSender \<Rightarrow> (int \<times> 'w RawSocketSender) option" where
  "RawSocketSender_send sys packet s =
     (if rws_mSockFd s < 0 then Some (SENDER_ERR_NOT_OPEN, s)
      else
        let (sent, w) = sys_sendto sys (rws_mSockFd s) (rws_mIfIndex s) packet (rws_world s) in
        Some (if sent < 0 then SENDER_ERR_SEND_FAILED else SENDER_SUCCESS, s\<lparr>rws_world := w\<rparr>))"

definition RawSocketSender_close :: "'w sys \<Rightarrow> 'w RawSocketSender \<Rightarrow> 'w RawSocketSender" where
  "RawSocketSender_close sys s =
     (if rws_mSockFd s \<ge> 0
      then s\<lparr>rws_world := sys_close sys (rws_mSockFd s) (rws_world s), rws_mSockFd := - 1, rws_mIfIndex := - 1\<rparr>
      else s)"

definition RawSocketSender_destroy :: "'w sys \<Rightarrow> 'w RawSocketSender \<Rightarrow> 'w RawSocketSender" where
  "RawSocketSender_destroy sys s = RawSocketSender_close sys s"

definition RawSocketSender_ops :: "'w sys \<Rightarrow> 'w RawSocketSender isender" where
  "RawSocketSender_ops sys = \<lparr>isender_open = RawSocketSender_open sys, isender_send = RawSocketSender_send sys,
     isender_close = RawSocketSender_close sys\<rparr>"

section \<open>The contract of ISender\<close>

locale packet_sender =
  fixes ops :: "'s isender"
    and opened :: "'s \<Rightarrow> bool"
  assumes send_closed: "\<not> opened s \<Longrightarrow> isender_send ops p s = Some (SENDER_ERR_NOT_OPEN, s)"
    and send_opened: "opened s \<Longrightarrow> isender_send ops p s = Some (c, s') \<Longrightarrow>
        opened s' \<and> c \<in> {SENDER_SUCCESS, SENDER_ERR_SEND_FAILED}"
    and open_result: "isender_open ops s = Some (c, s') \<Longrightarrow>
        (opened s' \<longleftrightarrow> c = SENDER_SUCCESS) \<and> c \<in> {SENDER_SUCCESS, SENDER_ERR_OPEN_FAILED}"
    and close_closes: "\<not> opened (isender_close ops s)"
begin

text \<open>A run of sends; it stops where a call does not return.\<close>

fun send_each :: "bytes list \<Rightarrow> 's \<Rightarrow> (int list \<times> 's) option" where
  "send_each [] s = Some ([], s)"
| "send_each (p # ps) s = (case isender_send ops p s of
     None \<Rightarrow> None
   | Some (c, s1) \<Rightarrow> map_option (\<lambda>(cs, s2). (c # cs, s2)) (send_each ps s1))"

lemma send_each_opened:
  "opened s \<Longrightarrow> send_each ps s = Some (cs, s') \<Longrightarrow>
     opened s' \<and> set cs \<subseteq> {SENDER_SUCCESS, SENDER_ERR_SEND_FAILED} \<and> length cs = length ps"
proof (induction ps arbitrary: s cs)
  case (Cons p ps)
  then show ?case
    using send_opened by (fastforce split: option.splits)
qed simp

lemma send_each_closed:
  "\<not> opened s \<Longrightarrow> send_each ps s = Some (replicate (length ps) SENDER_ERR_NOT_OPEN, s)"
  by (induction ps) (simp_all add: send_closed)

text \<open>The lifecycle: open, any number of sends, close; afterwards nothing is sent.\<close>

lemma lifecycle:
  assumes "isender_open ops s = Some (SENDER_SUCCESS, s1)" and "send_each ps s1 = Some (cs, s2)"
  shows "SENDER_ERR_NOT_OPEN \<notin> set cs \<and>
    isender_send ops p (isender_close ops s2) = Some (SENDER_ERR_NOT_OPEN, isender_close ops s2)"
proof -
  have "opened s1"
    using open_result [OF assms(1)] by simp
  then have "set cs \<subseteq> {SENDER_SUCCESS, SENDER_ERR_SEND_FAILED}"
    using send_each_opened [OF _ assms(2)] by simp
  then show ?thesis
    using send_closed [OF close_closes] by (auto simp: sender_codes)
qed

end

lemma verilator_writeAll_code:
  assumes "verilator_writeAll sys fd data w = Some r"
  shows "fst r \<in> {SENDER_SUCCESS, SENDER_ERR_SEND_FAILED}"
proof (rule verilator_writeAll.raw_induct [OF _ assms,
      where P = "\<lambda>sys fd data w r. fst r \<in> {SENDER_SUCCESS, SENDER_ERR_SEND_FAILED}"], goal_cases)
  case (1 writeAll sys fd data w r)
  note IH = 1(1)
  from 1(2) show ?case
    by (auto split: if_splits prod.splits sum.splits errno.splits dest!: IH)
qed

lemma verilator_send_loop_code:
  assumes "verilator_send_loop sys fd packet off w = Some r"
  shows "fst r \<in> {SENDER_SUCCESS, SENDER_ERR_SEND_FAILED}"
proof (rule verilator_send_loop.raw_induct [OF _ assms,
      where P = "\<lambda>sys fd packet off w r. fst r \<in> {SENDER_SUCCESS, SENDER_ERR_SEND_FAILED}"], goal_cases)
  case (1 loop sys fd packet off w r)
  note IH = 1(1)
  from 1(2) show ?case
    by (auto split: if_splits prod.splits option.splits dest!: IH dest: verilator_writeAll_code)
qed

interpretation pcap_sender: packet_sender "PcapSender_ops sys" "\<lambda>s. 0 \<le> pcs_mFd s" for sys
  by unfold_locales
    (auto simp: PcapSender_ops_def PcapSender_send_def PcapSender_open_def PcapSender_close_def
      sender_codes Let_def split: if_splits prod.splits option.splits)

interpretation verilator_sender: packet_sender "VerilatorSender_ops sys" "\<lambda>s. 0 \<le> vls_mSockFd s" for sys
proof (unfold_locales, goal_cases)
  case (2 s p c s')
  then show ?case
    using verilator_send_loop_code
    by (fastforce simp: VerilatorSender_ops_def VerilatorSender_send_def split: if_splits option.splits)
qed (auto simp: VerilatorSender_ops_def VerilatorSender_send_def VerilatorSender_open_def
    VerilatorSender_close_def sender_codes Let_def split: if_splits prod.splits)

interpretation raw_sender: packet_sender "RawSocketSender_ops sys" "\<lambda>s. 0 \<le> rws_mSockFd s" for sys
  by unfold_locales
    (auto simp: RawSocketSender_ops_def RawSocketSender_send_def RawSocketSender_open_def
      RawSocketSender_close_def sender_codes Let_def split: if_splits prod.splits)

section \<open>What reaches the wire\<close>

text \<open>
  The send loop of \<^verbatim>\<open>VerilatorSender\<close> returns, and on success it has written the memory
  images of exactly the packet's beats, in order.
\<close>

lemma verilator_send_loop_writes:
  assumes "posix_write sys out intr"
  shows "\<exists>c w'. verilator_send_loop sys fd packet off w = Some (c, w') \<and>
    (c = SENDER_SUCCESS \<longrightarrow> out fd w' = out fd w @ concat (map beat_bytes (beats_from packet off))) \<and>
    (only_interrupts sys \<longrightarrow> c = SENDER_SUCCESS)"
proof (induction packet off arbitrary: w rule: beats_from.induct)
  case (1 packet off)
  show ?case
  proof (cases "off < length packet")
    case False
    then show ?thesis
      by (subst verilator_send_loop.simps, subst beats_from.simps) simp
  next
    case True
    let ?bs = "beat_bytes (make_beat packet off)"
    obtain c w1 where w1: "verilator_writeAll sys fd ?bs w = Some (c, w1)"
        "wrote out fd ?bs w (c = SENDER_SUCCESS) w1" "only_interrupts sys \<longrightarrow> c = SENDER_SUCCESS"
      using verilator_writeAll_ends [OF assms, of fd ?bs w] by blast
    show ?thesis
    proof (cases "c = SENDER_SUCCESS")
      case False
      with True w1 show ?thesis
        by (subst verilator_send_loop.simps) simp
    next
      case ok: True
      obtain c' w2 where rec: "verilator_send_loop sys fd packet (off + chunk_size packet off) w1 = Some (c', w2)"
          "c' = SENDER_SUCCESS \<longrightarrow> out fd w2 =
            out fd w1 @ concat (map beat_bytes (beats_from packet (off + chunk_size packet off)))"
          "only_interrupts sys \<longrightarrow> c' = SENDER_SUCCESS"
        using 1 [OF True, of w1] by blast
      have "beats_from packet off = make_beat packet off # beats_from packet (off + chunk_size packet off)"
        using True by (subst beats_from.simps) simp
      then show ?thesis
        using True w1 ok rec by (subst verilator_send_loop.simps) (simp add: wrote_def)
    qed
  qed
qed

lemma PcapSender_send_writes:
  assumes "posix_write sys out intr" and "\<And>w. out fd (snd (sys_clock sys w)) = out fd w"
    and "pcs_mFd s = fd" and "0 \<le> fd"
  shows "\<exists>c s' ts us. PcapSender_send sys packet s = Some (c, s') \<and> pcs_mFd s' = fd \<and>
    (c = SENDER_SUCCESS \<longrightarrow> out fd (pcs_world s') = out fd (pcs_world s) @
       PcapPacketHeader ts us (of_nat (length packet)) (of_nat (length packet)) @ packet)"
proof -
  obtain sec nsec w1 where clk: "sys_clock sys (pcs_world s) = ((sec, nsec), w1)"
    by (metis prod.collapse)
  let ?h = "PcapPacketHeader (of_int sec) (of_int (nsec div 1000)) (of_nat (length packet)) (of_nat (length packet))"
  have o1: "out fd w1 = out fd (pcs_world s)"
    using assms(2) [of "pcs_world s"] by (simp add: clk)
  obtain ok2 w2 where w2: "pcap_writeAll sys fd ?h w1 = Some (ok2, w2)" "wrote out fd ?h w1 ok2 w2"
    using pcap_writeAll_ends [OF assms(1), of fd ?h w1] by blast
  obtain ok3 w3 where w3: "pcap_writeAll sys fd packet w2 = Some (ok3, w3)" "wrote out fd packet w2 ok3 w3"
    using pcap_writeAll_ends [OF assms(1), of fd packet w2] by blast
  show ?thesis
    using assms(3,4) clk w2 w3 o1
    by (intro exI [of _ "if ok2 \<and> ok3 then SENDER_SUCCESS else SENDER_ERR_SEND_FAILED"]
        exI [of _ "s\<lparr>pcs_world := if ok2 then w3 else w2\<rparr>"] exI [of _ "of_int sec"] exI [of _ "of_int (nsec div 1000)"])
      (auto simp: PcapSender_send_def Let_def wrote_def sender_codes)
qed

end
