(* ===== verification/Receivers.thy ===== *)
theory Receivers
  imports Senders
begin

text \<open>
  The receivers: the interface \<^verbatim>\<open>IReceiver\<close> (traffic-gen/inc/tsn/receiver.h) and its
  implementations \<^verbatim>\<open>PcapReceiver\<close>, \<^verbatim>\<open>VerilatorReceiver\<close> and
  \<^verbatim>\<open>RawSocketReceiver\<close>.

  \<^verbatim>\<open>receive\<close> gets the caller's vector by reference; the model passes its old contents in
  and returns the new ones. The theorems relate the receivers to what the senders write.
\<close>

record 's ireceiver =
  ireceiver_open :: "'s \<Rightarrow> (int \<times> 's) option"
  ireceiver_receive :: "bytes \<Rightarrow> 's \<Rightarrow> (int \<times> bytes \<times> 's) option"
  ireceiver_close :: "'s \<Rightarrow> 's"

definition vector_resize :: "nat \<Rightarrow> bytes \<Rightarrow> bytes" where
  "vector_resize n v = take n v @ replicate (n - length v) 0"

definition overwrite :: "bytes \<Rightarrow> bytes \<Rightarrow> bytes" where
  "overwrite bs v = bs @ drop (length bs) v"

section \<open>PcapReceiver\<close>

record 'w PcapReceiver =
  pcr_mFilePath :: string
  pcr_mFd :: int
  pcr_mSwap :: bool
  pcr_world :: 'w

definition PCAP_MAGIC_LE :: u32 where
  "PCAP_MAGIC_LE = 0xA1B2C3D4"

definition PCAP_MAGIC_BE :: u32 where
  "PCAP_MAGIC_BE = 0xD4C3B2A1"

definition swap32 :: "u32 \<Rightarrow> u32" where
  "swap32 v = drop_bit 24 (v AND 0xFF000000) OR drop_bit 8 (v AND 0x00FF0000)
     OR push_bit 8 (v AND 0x0000FF00) OR push_bit 24 (v AND 0x000000FF)"

text \<open>A \<^verbatim>\<open>uint32_t\<close> read from four bytes of memory, on a little-endian host.\<close>

definition u32_at :: "bytes \<Rightarrow> nat \<Rightarrow> u32" where
  "u32_at bs i = ucast (bs ! i) OR push_bit 8 (ucast (bs ! (i + 1)))
     OR push_bit 16 (ucast (bs ! (i + 2))) OR push_bit 24 (ucast (bs ! (i + 3)))"

definition new_PcapReceiver :: "string \<Rightarrow> 'w \<Rightarrow> 'w PcapReceiver" where
  "new_PcapReceiver filePath w = \<lparr>pcr_mFilePath = filePath, pcr_mFd = - 1, pcr_mSwap = False, pcr_world = w\<rparr>"

definition PcapReceiver_open :: "'w sys \<Rightarrow> 'w PcapReceiver \<Rightarrow> (int \<times> 'w PcapReceiver) option" where
  "PcapReceiver_open sys s =
     (let (fd, w1) = sys_open_read sys (c_str (pcr_mFilePath s)) (pcr_world s) in
      if fd < 0 then Some (RECEIVER_ERR_OPEN_FAILED, s\<lparr>pcr_mFd := fd, pcr_world := w1\<rparr>)
      else case pcap_readAll sys fd 24 w1 of
          None \<Rightarrow> None
        | Some ((ok, gh), w2) \<Rightarrow>
            if \<not> ok then Some (RECEIVER_ERR_OPEN_FAILED, s\<lparr>pcr_mFd := - 1, pcr_world := sys_close sys fd w2\<rparr>)
            else
              let magic = u32_at gh 0 in
              if magic = PCAP_MAGIC_BE
              then Some (RECEIVER_SUCCESS, s\<lparr>pcr_mFd := fd, pcr_mSwap := True, pcr_world := w2\<rparr>)
              else if magic \<noteq> PCAP_MAGIC_LE
              then Some (RECEIVER_ERR_OPEN_FAILED, s\<lparr>pcr_mFd := - 1, pcr_world := sys_close sys fd w2\<rparr>)
              else Some (RECEIVER_SUCCESS, s\<lparr>pcr_mFd := fd, pcr_world := w2\<rparr>))"

definition PcapReceiver_receive ::
    "'w sys \<Rightarrow> bytes \<Rightarrow> 'w PcapReceiver \<Rightarrow> (int \<times> bytes \<times> 'w PcapReceiver) option" where
  "PcapReceiver_receive sys packet s =
     (if pcr_mFd s < 0 then Some (RECEIVER_ERR_NOT_OPEN, packet, s)
      else case pcap_readAll sys (pcr_mFd s) 16 (pcr_world s) of
          None \<Rightarrow> None
        | Some ((ok, ph), w1) \<Rightarrow>
            if \<not> ok then Some (RECEIVER_ERR_EOF, packet, s\<lparr>pcr_world := w1\<rparr>)
            else
              let inclLen = (if pcr_mSwap s then swap32 (u32_at ph 8) else u32_at ph 8) in
              if inclLen = 0 then Some (RECEIVER_SUCCESS, [], s\<lparr>pcr_world := w1\<rparr>)
              else
                let buf = vector_resize (unat inclLen) packet
                in case pcap_readAll sys (pcr_mFd s) (unat inclLen) w1 of
                     None \<Rightarrow> None
                   | Some ((ok, bs), w2) \<Rightarrow>
                       Some (if ok then RECEIVER_SUCCESS else RECEIVER_ERR_RECV_FAILED,
                             overwrite bs buf, s\<lparr>pcr_world := w2\<rparr>))"

definition PcapReceiver_close :: "'w sys \<Rightarrow> 'w PcapReceiver \<Rightarrow> 'w PcapReceiver" where
  "PcapReceiver_close sys s =
     (if pcr_mFd s \<ge> 0
      then s\<lparr>pcr_world := sys_close sys (pcr_mFd s) (pcr_world s), pcr_mFd := - 1\<rparr> else s)"

definition PcapReceiver_destroy :: "'w sys \<Rightarrow> 'w PcapReceiver \<Rightarrow> 'w PcapReceiver" where
  "PcapReceiver_destroy sys s = PcapReceiver_close sys s"

definition PcapReceiver_ops :: "'w sys \<Rightarrow> 'w PcapReceiver ireceiver" where
  "PcapReceiver_ops sys = \<lparr>ireceiver_open = PcapReceiver_open sys,
     ireceiver_receive = PcapReceiver_receive sys, ireceiver_close = PcapReceiver_close sys\<rparr>"

section \<open>VerilatorReceiver\<close>

record 'w VerilatorReceiver =
  vlr_mSocketPath :: string
  vlr_mSockFd :: int
  vlr_world :: 'w

definition new_VerilatorReceiver :: "string \<Rightarrow> 'w \<Rightarrow> 'w VerilatorReceiver" where
  "new_VerilatorReceiver socketPath w = \<lparr>vlr_mSocketPath = socketPath, vlr_mSockFd = - 1, vlr_world = w\<rparr>"

definition VerilatorReceiver_open :: "'w sys \<Rightarrow> 'w VerilatorReceiver \<Rightarrow> (int \<times> 'w VerilatorReceiver) option" where
  "VerilatorReceiver_open sys s =
     (let (fd, w1) = sys_socket_unix sys (vlr_world s) in
      if fd < 0 then Some (RECEIVER_ERR_OPEN_FAILED, s\<lparr>vlr_mSockFd := fd, vlr_world := w1\<rparr>)
      else
        let (rc, w2) = sys_connect sys fd (sun_path (vlr_mSocketPath s)) w1 in
        if rc < 0 then Some (RECEIVER_ERR_OPEN_FAILED, s\<lparr>vlr_mSockFd := - 1, vlr_world := sys_close sys fd w2\<rparr>)
        else Some (RECEIVER_SUCCESS, s\<lparr>vlr_mSockFd := fd, vlr_world := w2\<rparr>))"

partial_function (option) verilator_receive_loop ::
    "'w sys \<Rightarrow> int \<Rightarrow> bytes \<Rightarrow> 'w \<Rightarrow> (int \<times> bytes \<times> 'w) option" where
  "verilator_receive_loop sys fd packet w =
     (case verilator_readAll sys fd sizeof_beat w of
        None \<Rightarrow> None
      | Some ((err, bs), w') \<Rightarrow>
          if err \<noteq> RECEIVER_SUCCESS then Some (err, packet, w')
          else
            let beat = beat_of_bytes bs;
                packet' = packet @ beat_payload beat
            in if tlast beat \<noteq> 0 then Some (RECEIVER_SUCCESS, packet', w')
               else verilator_receive_loop sys fd packet' w')"

declare verilator_receive_loop.simps [code]

definition VerilatorReceiver_receive ::
    "'w sys \<Rightarrow> bytes \<Rightarrow> 'w VerilatorReceiver \<Rightarrow> (int \<times> bytes \<times> 'w VerilatorReceiver) option" where
  "VerilatorReceiver_receive sys packet s =
     (if vlr_mSockFd s < 0 then Some (RECEIVER_ERR_NOT_OPEN, packet, s)
      else case verilator_receive_loop sys (vlr_mSockFd s) [] (vlr_world s) of
          None \<Rightarrow> None
        | Some (err, p, w) \<Rightarrow> Some (err, p, s\<lparr>vlr_world := w\<rparr>))"

definition VerilatorReceiver_close :: "'w sys \<Rightarrow> 'w VerilatorReceiver \<Rightarrow> 'w VerilatorReceiver" where
  "VerilatorReceiver_close sys s =
     (if vlr_mSockFd s \<ge> 0
      then s\<lparr>vlr_world := sys_close sys (vlr_mSockFd s) (vlr_world s), vlr_mSockFd := - 1\<rparr> else s)"

definition VerilatorReceiver_destroy :: "'w sys \<Rightarrow> 'w VerilatorReceiver \<Rightarrow> 'w VerilatorReceiver" where
  "VerilatorReceiver_destroy sys s = VerilatorReceiver_close sys s"

definition VerilatorReceiver_ops :: "'w sys \<Rightarrow> 'w VerilatorReceiver ireceiver" where
  "VerilatorReceiver_ops sys = \<lparr>ireceiver_open = VerilatorReceiver_open sys,
     ireceiver_receive = VerilatorReceiver_receive sys, ireceiver_close = VerilatorReceiver_close sys\<rparr>"

section \<open>RawSocketReceiver\<close>

record 'w RawSocketReceiver =
  rwr_mIfName :: string
  rwr_mSockFd :: int
  rwr_world :: 'w

definition MAX_FRAME_BYTES :: nat where
  "MAX_FRAME_BYTES = 65535"

definition new_RawSocketReceiver :: "string \<Rightarrow> 'w \<Rightarrow> 'w RawSocketReceiver" where
  "new_RawSocketReceiver ifName w = \<lparr>rwr_mIfName = ifName, rwr_mSockFd = - 1, rwr_world = w\<rparr>"

definition RawSocketReceiver_open :: "'w sys \<Rightarrow> 'w RawSocketReceiver \<Rightarrow> (int \<times> 'w RawSocketReceiver) option" where
  "RawSocketReceiver_open sys s =
     (let (fd, w1) = sys_socket_packet sys (rwr_world s) in
      if fd < 0 then Some (RECEIVER_ERR_OPEN_FAILED, s\<lparr>rwr_mSockFd := fd, rwr_world := w1\<rparr>)
      else
        let ((rc, ifindex), w2) = sys_ioctl_ifindex sys fd (ifr_name (rwr_mIfName s)) w1 in
        if rc < 0 then Some (RECEIVER_ERR_OPEN_FAILED, s\<lparr>rwr_mSockFd := - 1, rwr_world := sys_close sys fd w2\<rparr>)
        else
          let (rc, w3) = sys_bind sys fd ifindex w2 in
          if rc < 0 then Some (RECEIVER_ERR_OPEN_FAILED, s\<lparr>rwr_mSockFd := - 1, rwr_world := sys_close sys fd w3\<rparr>)
          else Some (RECEIVER_SUCCESS, s\<lparr>rwr_mSockFd := fd, rwr_world := w3\<rparr>))"

definition RawSocketReceiver_receive ::
    "'w sys \<Rightarrow> bytes \<Rightarrow> 'w RawSocketReceiver \<Rightarrow> (int \<times> bytes \<times> 'w RawSocketReceiver) option" where
  "RawSocketReceiver_receive sys packet s =
     (if rwr_mSockFd s < 0 then Some (RECEIVER_ERR_NOT_OPEN, packet, s)
      else
        let buf = vector_resize MAX_FRAME_BYTES packet in
        Some (case sys_recvfrom sys (rwr_mSockFd s) (length buf) (rwr_world s) of
            (Inl EINTR, w) \<Rightarrow> (RECEIVER_ERR_EOF, [], s\<lparr>rwr_world := w\<rparr>)
          | (Inl EOTHER, w) \<Rightarrow> (RECEIVER_ERR_RECV_FAILED, buf, s\<lparr>rwr_world := w\<rparr>)
          | (Inr bs, w) \<Rightarrow>
              (RECEIVER_SUCCESS, vector_resize (length bs) (overwrite bs buf), s\<lparr>rwr_world := w\<rparr>)))"

definition RawSocketReceiver_close :: "'w sys \<Rightarrow> 'w RawSocketReceiver \<Rightarrow> 'w RawSocketReceiver" where
  "RawSocketReceiver_close sys s =
     (if rwr_mSockFd s \<ge> 0
      then s\<lparr>rwr_world := sys_close sys (rwr_mSockFd s) (rwr_world s), rwr_mSockFd := - 1\<rparr> else s)"

definition RawSocketReceiver_destroy :: "'w sys \<Rightarrow> 'w RawSocketReceiver \<Rightarrow> 'w RawSocketReceiver" where
  "RawSocketReceiver_destroy sys s = RawSocketReceiver_close sys s"

definition RawSocketReceiver_ops :: "'w sys \<Rightarrow> 'w RawSocketReceiver ireceiver" where
  "RawSocketReceiver_ops sys = \<lparr>ireceiver_open = RawSocketReceiver_open sys,
     ireceiver_receive = RawSocketReceiver_receive sys, ireceiver_close = RawSocketReceiver_close sys\<rparr>"

section \<open>The contract of IReceiver\<close>

locale packet_receiver =
  fixes ops :: "'s ireceiver"
    and opened :: "'s \<Rightarrow> bool"
  assumes receive_closed: "\<not> opened s \<Longrightarrow> ireceiver_receive ops p s = Some (RECEIVER_ERR_NOT_OPEN, p, s)"
    and receive_opened: "opened s \<Longrightarrow> ireceiver_receive ops p s = Some (c, p', s') \<Longrightarrow>
        opened s' \<and> c \<in> {RECEIVER_SUCCESS, RECEIVER_ERR_RECV_FAILED, RECEIVER_ERR_EOF}"
    and open_result: "ireceiver_open ops s = Some (c, s') \<Longrightarrow>
        (opened s' \<longleftrightarrow> c = RECEIVER_SUCCESS) \<and> c \<in> {RECEIVER_SUCCESS, RECEIVER_ERR_OPEN_FAILED}"
    and close_closes: "\<not> opened (ireceiver_close ops s)"
begin

text \<open>Successive receives into the same vector, as the command line tool does.\<close>

fun receive_each :: "nat \<Rightarrow> bytes \<Rightarrow> 's \<Rightarrow> ((int \<times> bytes) list \<times> 's) option" where
  "receive_each 0 p s = Some ([], s)"
| "receive_each (Suc n) p s = (case ireceiver_receive ops p s of
     None \<Rightarrow> None
   | Some (c, p', s') \<Rightarrow> map_option (\<lambda>(rs, s2). ((c, p') # rs, s2)) (receive_each n p' s'))"

lemma receive_each_opened: "opened s \<Longrightarrow> receive_each n p s = Some (rs, s') \<Longrightarrow> opened s' \<and> length rs = n"
proof (induction n arbitrary: p s rs)
  case (Suc n)
  then show ?case
    using receive_opened by (fastforce split: option.splits)
qed simp

lemma closed_after_close:
  "ireceiver_receive ops p (ireceiver_close ops s) = Some (RECEIVER_ERR_NOT_OPEN, p, ireceiver_close ops s)"
  by (rule receive_closed [OF close_closes])

end

lemma readAll_loop_code:
  assumes "readAll_loop sys fd rem acc w = Some r"
  shows "fst (fst r) \<in> {RECEIVER_SUCCESS, RECEIVER_ERR_RECV_FAILED, RECEIVER_ERR_EOF}"
proof (rule readAll_loop.raw_induct [OF _ assms,
      where P = "\<lambda>sys fd rem acc w r. fst (fst r) \<in> {RECEIVER_SUCCESS, RECEIVER_ERR_RECV_FAILED, RECEIVER_ERR_EOF}"], goal_cases)
  case (1 loop sys fd rem acc w r)
  note IH = 1(1)
  from 1(2) show ?case
    by (auto split: if_splits prod.splits sum.splits errno.splits dest!: IH)
qed

lemma verilator_receive_loop_code:
  assumes "verilator_receive_loop sys fd packet w = Some r"
  shows "fst r \<in> {RECEIVER_SUCCESS, RECEIVER_ERR_RECV_FAILED, RECEIVER_ERR_EOF}"
proof (rule verilator_receive_loop.raw_induct [OF _ assms,
      where P = "\<lambda>sys fd packet w r. fst r \<in> {RECEIVER_SUCCESS, RECEIVER_ERR_RECV_FAILED, RECEIVER_ERR_EOF}"], goal_cases)
  case (1 loop sys fd packet w r)
  note IH = 1(1)
  from 1(2) show ?case
    by (auto simp: verilator_readAll_def Let_def split: if_splits prod.splits option.splits dest!: IH dest: readAll_loop_code)
qed

interpretation pcap_receiver: packet_receiver "PcapReceiver_ops sys" "\<lambda>s. 0 \<le> pcr_mFd s" for sys
  by unfold_locales
    (auto simp: PcapReceiver_ops_def PcapReceiver_receive_def PcapReceiver_open_def PcapReceiver_close_def
      receiver_codes Let_def split: if_splits prod.splits option.splits)

interpretation verilator_receiver: packet_receiver "VerilatorReceiver_ops sys" "\<lambda>s. 0 \<le> vlr_mSockFd s" for sys
  by unfold_locales
    (auto simp: VerilatorReceiver_ops_def VerilatorReceiver_receive_def VerilatorReceiver_open_def
      VerilatorReceiver_close_def receiver_codes Let_def split: if_splits prod.splits option.splits
      dest: verilator_receive_loop_code [unfolded receiver_codes])

interpretation raw_receiver: packet_receiver "RawSocketReceiver_ops sys" "\<lambda>s. 0 \<le> rwr_mSockFd s" for sys
  by unfold_locales
    (auto simp: RawSocketReceiver_ops_def RawSocketReceiver_receive_def RawSocketReceiver_open_def
      RawSocketReceiver_close_def receiver_codes Let_def
      split: if_splits prod.splits option.splits sum.splits errno.splits)

section \<open>Reading what is there\<close>

lemma readAll_loop_exact:
  assumes "posix_read sys src intr" and "only_interrupts sys" and "src fd w = bs @ rest"
  shows "\<exists>w'. readAll_loop sys fd (length bs) [] w = Some ((RECEIVER_SUCCESS, bs), w') \<and> src fd w' = rest"
proof -
  obtain c ds w' where r: "readAll_loop sys fd (length bs) [] w = Some ((c, [] @ ds), w')"
      "src fd w = ds @ src fd w'" "length ds \<le> length bs"
      "c \<in> {RECEIVER_SUCCESS, RECEIVER_ERR_EOF, RECEIVER_ERR_RECV_FAILED}"
      "c = RECEIVER_SUCCESS \<longleftrightarrow> length ds = length bs" "c = RECEIVER_ERR_EOF \<longrightarrow> src fd w' = []"
      "only_interrupts sys \<longrightarrow> c \<noteq> RECEIVER_ERR_RECV_FAILED"
    using readAll_loop_ends [OF assms(1), of fd "length bs" "[]" w] by blast
  have "c \<noteq> RECEIVER_ERR_EOF \<or> length ds = length bs"
    using r(2,3,6) assms(3) by (metis append_Nil2 le_add1 le_antisym length_append)
  then have "length ds = length bs" and c: "c = RECEIVER_SUCCESS"
    using r(4,5,7) assms(2) by auto
  then have "ds = bs" and "src fd w' = rest"
    using r(2) assms(3) by auto
  with r(1) c show ?thesis by simp
qed

lemma pcap_readAll_exact:
  assumes "posix_read sys src intr" and "only_interrupts sys" and "src fd w = bs @ rest" and "n = length bs"
  shows "\<exists>w'. pcap_readAll sys fd n w = Some ((True, bs), w') \<and> src fd w' = rest"
  using readAll_loop_exact [OF assms(1-3)] assms(4) by (auto simp: pcap_readAll_def)

lemma verilator_readAll_exact:
  assumes "posix_read sys src intr" and "only_interrupts sys" and "src fd w = bs @ rest" and "n = length bs"
  shows "\<exists>w'. verilator_readAll sys fd n w = Some ((RECEIVER_SUCCESS, bs), w') \<and> src fd w' = rest"
  using readAll_loop_exact [OF assms(1-3)] assms(4) by (auto simp: verilator_readAll_def)

lemma pcap_readAll_short:
  assumes "posix_read sys src intr" and "length (src fd w) < n"
  shows "\<exists>bs w'. pcap_readAll sys fd n w = Some ((False, bs), w')"
proof -
  obtain c ds w' where r: "readAll_loop sys fd n [] w = Some ((c, [] @ ds), w')"
      "src fd w = ds @ src fd w'" "c = RECEIVER_SUCCESS \<longleftrightarrow> length ds = n"
    using readAll_loop_ends [OF assms(1), of fd n "[]" w] by blast
  then have "length ds \<noteq> n"
    using assms(2) by auto
  with r show ?thesis
    by (auto simp: pcap_readAll_def)
qed

section \<open>AXI-Stream: send and receive\<close>

lemma verilator_receive_loop_beats:
  assumes "posix_read sys src intr" and "only_interrupts sys"
    and "src fd w = concat (map beat_bytes (bs @ [b])) @ rest"
    and "tlast b = 1" and "\<forall>c\<in>set bs. tlast c = 0"
  shows "\<exists>w'. verilator_receive_loop sys fd acc w =
     Some (RECEIVER_SUCCESS, acc @ concat (map beat_payload (bs @ [b])), w') \<and> src fd w' = rest"
  using assms(3,5)
proof (induction bs arbitrary: acc w)
  case Nil
  obtain w' where w': "verilator_readAll sys fd sizeof_beat w = Some ((RECEIVER_SUCCESS, beat_bytes b), w')"
      "src fd w' = rest"
    using verilator_readAll_exact [OF assms(1,2), of fd w "beat_bytes b" rest] Nil by auto
  then show ?case
    using assms(4) by (subst verilator_receive_loop.simps) (simp add: beat_of_beat_bytes)
next
  case (Cons c cs)
  obtain w1 where w1: "verilator_readAll sys fd sizeof_beat w = Some ((RECEIVER_SUCCESS, beat_bytes c), w1)"
      "src fd w1 = concat (map beat_bytes (cs @ [b])) @ rest"
    using verilator_readAll_exact [OF assms(1,2), of fd w "beat_bytes c" "concat (map beat_bytes (cs @ [b])) @ rest"]
      Cons.prems by auto
  obtain w2 where "verilator_receive_loop sys fd (acc @ beat_payload c) w1 =
      Some (RECEIVER_SUCCESS, (acc @ beat_payload c) @ concat (map beat_payload (cs @ [b])), w2)" "src fd w2 = rest"
    using Cons.IH [OF w1(2), of "acc @ beat_payload c"] Cons.prems by auto
  then show ?case
    using w1 Cons.prems(2) by (subst verilator_receive_loop.simps) (simp add: beat_of_beat_bytes)
qed

lemma verilator_receive_packet:
  assumes "posix_read sys src intr" and "only_interrupts sys" and "packet \<noteq> []"
    and "src (vlr_mSockFd s) (vlr_world s) = concat (map beat_bytes (beats_from packet 0)) @ rest"
    and "0 \<le> vlr_mSockFd s"
  shows "\<exists>s'. VerilatorReceiver_receive sys old s = Some (RECEIVER_SUCCESS, packet, s') \<and>
    vlr_mSockFd s' = vlr_mSockFd s \<and> src (vlr_mSockFd s') (vlr_world s') = rest"
proof -
  obtain bs b where b: "beats_from packet 0 = bs @ [b]" "tlast b = 1" "\<forall>c\<in>set bs. tlast c = 0"
    using tlast_beats_from [of 0 packet] assms(3) by auto
  have "concat (map beat_payload (bs @ [b])) = packet"
    using payload_beats_from [of packet 0] by (simp add: b(1))
  then show ?thesis
    using verilator_receive_loop_beats [OF assms(1,2) assms(4) [unfolded b(1)] b(2,3), of "[]"] assms(5)
    by (auto simp: VerilatorReceiver_receive_def)
qed

section \<open>Pcap: the two byte orders\<close>

lemma u32_at_append: "length pre = i \<Longrightarrow> u32_at (pre @ bs) i = u32_at bs 0"
  by (simp add: u32_at_def nth_append numeral_2_eq_2)

lemma bit_u32_at:
  assumes "k < 32"
  shows "bit (u32_at bs 0) k \<longleftrightarrow> bit (bs ! (k div 8)) (k mod 8)"
proof -
  have byte: "bit (push_bit m (ucast b) :: u32) k \<longleftrightarrow> m \<le> k \<and> k < m + 8 \<and> bit b (k - m)" for m and b :: u8
    using assms bit_imp_le_length [of b "k - m"] by (auto simp: bit_simps)
  have byte0: "bit (ucast b :: u32) k \<longleftrightarrow> k < 8 \<and> bit b k" for b :: u8
    using byte [of 0 b] by simp
  consider "k < 8" | "8 \<le> k" "k < 16" | "16 \<le> k" "k < 24" | "24 \<le> k"
    by fastforce
  then show ?thesis
  proof cases
    case 1
    then show ?thesis by (simp add: u32_at_def bit_or_iff byte byte0)
  next
    case 2
    then have d: "k div 8 = 1" by (simp add: div_nat_eqI)
    then have "k mod 8 = k - 8" by (simp add: modulo_nat_def)
    with 2 d show ?thesis by (simp add: u32_at_def bit_or_iff byte byte0)
  next
    case 3
    then have d: "k div 8 = 2" by (simp add: div_nat_eqI)
    then have "k mod 8 = k - 16" by (simp add: modulo_nat_def)
    with 3 d show ?thesis by (simp add: u32_at_def bit_or_iff byte byte0 numeral_2_eq_2)
  next
    case 4
    then have d: "k div 8 = 3" using assms by (simp add: div_nat_eqI)
    then have "k mod 8 = k - 24" by (simp add: modulo_nat_def)
    with 4 d assms show ?thesis by (simp add: u32_at_def bit_or_iff byte byte0)
  qed
qed

lemma nth_le32: "j < 4 \<Longrightarrow> le32 v ! j = ucast (drop_bit (8 * j) v)"
  unfolding le32_def by (cases j; cases "j - 1"; cases "j - 2") auto

lemma u32_at_le32: "u32_at (le32 v @ post) 0 = v"
proof (rule bit_word_eqI)
  fix k :: nat
  assume "k < LENGTH(32)"
  then have k: "k < 32" "k div 8 < 4" "8 * (k div 8) + k mod 8 = k"
    by auto
  have "(le32 v @ post) ! (k div 8) = ucast (drop_bit (8 * (k div 8)) v)"
    by (simp only: nth_append length_le32 k(2) if_True nth_le32 [OF k(2)])
  then show "bit (u32_at (le32 v @ post) 0) k = bit v k"
    using k by (simp add: bit_u32_at bit_simps)
qed

lemma bit_swap32:
  assumes "k < 32"
  shows "bit (swap32 v) k \<longleftrightarrow> bit v (8 * (3 - k div 8) + k mod 8)"
proof -
  have masks: "(0xFF000000 :: u32) = push_bit 24 (mask 8)" "(0x00FF0000 :: u32) = push_bit 16 (mask 8)"
    "(0x0000FF00 :: u32) = push_bit 8 (mask 8)" "(0x000000FF :: u32) = mask 8"
    by code_simp+
  have m: "bit (v AND push_bit m (mask 8)) j \<longleftrightarrow> bit v j \<and> m \<le> j \<and> j < m + 8" for m j
    using bit_imp_le_length [of v j] by (auto simp: bit_simps)
  have m0: "bit (v AND mask 8) j \<longleftrightarrow> bit v j \<and> j < 8" for j
    using m [of 0 j] by simp
  have t1: "bit (drop_bit 24 (v AND push_bit 24 (mask 8))) k \<longleftrightarrow> k < 8 \<and> bit v (24 + k)"
    by (simp only: bit_drop_bit_eq comp_def m) linarith
  have t2: "bit (drop_bit 8 (v AND push_bit 16 (mask 8))) k \<longleftrightarrow> 8 \<le> k \<and> k < 16 \<and> bit v (8 + k)"
    by (simp only: bit_drop_bit_eq comp_def m) linarith
  have t3: "bit (push_bit 8 (v AND push_bit 8 (mask 8))) k \<longleftrightarrow> 16 \<le> k \<and> k < 24 \<and> bit v (k - 8)"
    using assms by (auto simp only: bit_push_bit_iff m possible_bit_word) simp_all
  have t4: "bit (push_bit 24 (v AND mask 8)) k \<longleftrightarrow> 24 \<le> k \<and> bit v (k - 24)"
    using assms by (auto simp only: bit_push_bit_iff m0 possible_bit_word) simp_all
  have eq: "bit (swap32 v) k \<longleftrightarrow> (k < 8 \<and> bit v (24 + k)) \<or> (8 \<le> k \<and> k < 16 \<and> bit v (8 + k)) \<or>
      (16 \<le> k \<and> k < 24 \<and> bit v (k - 8)) \<or> (24 \<le> k \<and> bit v (k - 24))"
    unfolding swap32_def masks bit_or_iff t1 t2 t3 t4 by blast
  consider "k < 8" | "8 \<le> k" "k < 16" | "16 \<le> k" "k < 24" | "24 \<le> k"
    by fastforce
  then show ?thesis
  proof cases
    case 1
    then show ?thesis by (simp add: eq add.commute)
  next
    case 2
    then have "k div 8 = 1" by (simp add: div_nat_eqI)
    with 2 show ?thesis by (simp add: eq modulo_nat_def add.commute)
  next
    case 3
    then have "k div 8 = 2" by (simp add: div_nat_eqI)
    with 3 show ?thesis by (simp add: eq modulo_nat_def)
  next
    case 4
    then have "k div 8 = 3" using assms by (simp add: div_nat_eqI)
    with 4 show ?thesis by (simp add: eq modulo_nat_def)
  qed
qed

lemma swap32_at_be32: "swap32 (u32_at (rev (le32 v) @ post) 0) = v"
proof (rule bit_word_eqI)
  fix k :: nat
  assume "k < LENGTH(32)"
  then have k: "k < 32" "k div 8 < 4" "8 * (k div 8) + k mod 8 = k" "8 * (3 - k div 8) + k mod 8 < 32"
    by auto
  moreover have "(8 * (3 - k div 8) + k mod 8) div 8 = 3 - k div 8" "(8 * (3 - k div 8) + k mod 8) mod 8 = k mod 8"
    by simp_all
  moreover have "(rev (le32 v) @ post) ! (3 - k div 8) = ucast (drop_bit (8 * (k div 8)) v)"
    using k(2) nth_le32 [of "k div 8" v] by (simp add: nth_append rev_nth) linarith
  ultimately show "bit (swap32 (u32_at (rev (le32 v) @ post) 0)) k = bit v k"
    by (simp add: bit_swap32 bit_u32_at bit_simps)
qed

section \<open>Replaying a capture\<close>

text \<open>
  A capture file in either byte order: the global header starts with the magic number, its other
  twenty bytes do not matter to the receiver; a record has two time stamps, the stored length, the
  original length and the packet.
\<close>

definition ord32 :: "bool \<Rightarrow> u32 \<Rightarrow> bytes" where
  "ord32 be v = (if be then rev (le32 v) else le32 v)"

definition capture_record :: "bool \<Rightarrow> u32 \<times> u32 \<times> u32 \<times> bytes \<Rightarrow> bytes" where
  "capture_record be r = (case r of (sec, usec, orig, p) \<Rightarrow>
     ord32 be sec @ ord32 be usec @ ord32 be (of_nat (length p)) @ ord32 be orig @ p)"

definition record_packet :: "u32 \<times> u32 \<times> u32 \<times> bytes \<Rightarrow> bytes" where
  "record_packet r = snd (snd (snd r))"

definition capture_file :: "bool \<Rightarrow> bytes \<Rightarrow> (u32 \<times> u32 \<times> u32 \<times> bytes) list \<Rightarrow> bytes" where
  "capture_file be hdr rs = ord32 be PCAP_MAGIC_LE @ hdr @ concat (map (capture_record be) rs)"

lemma length_ord32 [simp]: "length (ord32 be v) = 4"
  by (simp add: ord32_def)

lemma swap_magic: "swap32 PCAP_MAGIC_BE = PCAP_MAGIC_LE" "swap32 PCAP_MAGIC_LE = PCAP_MAGIC_BE"
  by code_simp+

lemma ord32_read: "(if be then swap32 (u32_at (ord32 be v @ post) 0) else u32_at (ord32 be v @ post) 0) = v"
  by (simp add: ord32_def u32_at_le32 swap32_at_be32)

lemma magic_read: "u32_at (ord32 be PCAP_MAGIC_LE @ post) 0 = (if be then PCAP_MAGIC_BE else PCAP_MAGIC_LE)"
proof -
  have "u32_at (rev (le32 PCAP_MAGIC_LE) @ post) 0 = PCAP_MAGIC_BE"
    by (simp add: u32_at_def le32_def PCAP_MAGIC_LE_def PCAP_MAGIC_BE_def)
  then show ?thesis
    by (simp add: ord32_def u32_at_le32)
qed

lemma PcapReceiver_open_capture:
  assumes "posix_read sys src intr" and "only_interrupts sys"
    and "sys_open_read sys (c_str (pcr_mFilePath s)) (pcr_world s) = (fd, w)" and "0 \<le> fd"
    and "src fd w = capture_file be hdr rs" and "length hdr = 20" and "\<not> pcr_mSwap s"
  shows "\<exists>s'. PcapReceiver_open sys s = Some (RECEIVER_SUCCESS, s') \<and> pcr_mFd s' = fd \<and> pcr_mSwap s' = be \<and>
    src fd (pcr_world s') = concat (map (capture_record be) rs)"
proof -
  obtain w' where w': "pcap_readAll sys fd 24 w = Some ((True, ord32 be PCAP_MAGIC_LE @ hdr), w')"
      "src fd w' = concat (map (capture_record be) rs)"
    using pcap_readAll_exact [OF assms(1,2), of fd w "ord32 be PCAP_MAGIC_LE @ hdr"] assms(5,6)
    by (auto simp: capture_file_def)
  have "PCAP_MAGIC_LE \<noteq> PCAP_MAGIC_BE"
    by code_simp
  then show ?thesis
    using assms(3,4,7) w' by (cases be) (simp_all add: PcapReceiver_open_def magic_read)
qed

lemma PcapReceiver_receive_body:
  assumes "0 \<le> pcr_mFd s" and "pcap_readAll sys (pcr_mFd s) 16 (pcr_world s) = Some ((True, h), w1)"
    and "(if pcr_mSwap s then swap32 (u32_at h 8) else u32_at h 8) = n" and "unat n = length p"
    and "pcap_readAll sys (pcr_mFd s) (unat n) w1 = Some ((True, p), w2)"
  shows "PcapReceiver_receive sys old s =
    Some (RECEIVER_SUCCESS, p, s\<lparr>pcr_world := if n = 0 then w1 else w2\<rparr>)"
proof -
  have "\<not> pcr_mFd s < 0" and "n = 0 \<Longrightarrow> p = []"
    using assms(1,4) by auto
  then show ?thesis
    by (simp add: PcapReceiver_receive_def assms(2,3,4) assms(5) [unfolded assms(4)] Let_def overwrite_def vector_resize_def)
qed

lemma PcapReceiver_receive_record:
  assumes "posix_read sys src intr" and "only_interrupts sys" and "0 \<le> pcr_mFd s"
    and "src (pcr_mFd s) (pcr_world s) = capture_record (pcr_mSwap s) r @ rest"
    and "length (record_packet r) < 2 ^ 32"
  shows "\<exists>s'. PcapReceiver_receive sys old s = Some (RECEIVER_SUCCESS, record_packet r, s') \<and>
    pcr_mFd s' = pcr_mFd s \<and> pcr_mSwap s' = pcr_mSwap s \<and> src (pcr_mFd s) (pcr_world s') = rest"
proof -
  obtain sec usec orig p where r: "r = (sec, usec, orig, p)" by (cases r)
  let ?be = "pcr_mSwap s" and ?n = "of_nat (length p) :: u32"
  let ?h = "ord32 ?be sec @ ord32 ?be usec @ ord32 ?be ?n @ ord32 ?be orig"
  have len: "unat ?n = length p"
    using assms(5) by (simp add: r record_packet_def unat_of_nat)
  obtain w1 where w1: "pcap_readAll sys (pcr_mFd s) 16 (pcr_world s) = Some ((True, ?h), w1)"
      "src (pcr_mFd s) w1 = p @ rest"
    using pcap_readAll_exact [OF assms(1,2), of "pcr_mFd s" "pcr_world s" ?h "p @ rest"] assms(4)
    by (auto simp: r capture_record_def)
  have "u32_at ?h 8 = u32_at (ord32 ?be ?n @ ord32 ?be orig) 0"
    using u32_at_append [of "ord32 ?be sec @ ord32 ?be usec" 8] by simp
  then have incl: "(if ?be then swap32 (u32_at ?h 8) else u32_at ?h 8) = ?n"
    using ord32_read [of ?be ?n "ord32 ?be orig"] by (simp split: if_splits)
  obtain w2 where w2: "pcap_readAll sys (pcr_mFd s) (unat ?n) w1 = Some ((True, p), w2)"
      "src (pcr_mFd s) w2 = rest"
    using pcap_readAll_exact [OF assms(1,2) w1(2) len] by blast
  have "?n = 0 \<Longrightarrow> p = []"
    using len by simp
  then have "src (pcr_mFd s) (if ?n = 0 then w1 else w2) = rest"
    using w1(2) w2(2) by simp
  then show ?thesis
    using PcapReceiver_receive_body [OF assms(3) w1(1) incl len w2(1), of old] by (simp add: r record_packet_def)
qed

lemma PcapReceiver_receive_eof:
  assumes "posix_read sys src intr" and "0 \<le> pcr_mFd s" and "src (pcr_mFd s) (pcr_world s) = []"
  shows "\<exists>s'. PcapReceiver_receive sys old s = Some (RECEIVER_ERR_EOF, old, s')"
  using pcap_readAll_short [OF assms(1), of "pcr_mFd s" "pcr_world s" 16] assms(2,3)
  by (auto simp: PcapReceiver_receive_def)

lemma ireceiver_receive_Pcap [simp]: "ireceiver_receive (PcapReceiver_ops sys) = PcapReceiver_receive sys"
  by (simp add: PcapReceiver_ops_def)

lemma pcap_receive_all:
  assumes "posix_read sys src intr" and "only_interrupts sys" and "0 \<le> pcr_mFd s"
    and "src (pcr_mFd s) (pcr_world s) = concat (map (capture_record (pcr_mSwap s)) rs)"
    and "list_all (\<lambda>r. length (record_packet r) < 2 ^ 32) rs"
  shows "\<exists>s'. pcap_receiver.receive_each sys (length rs) old s
      = Some (map (\<lambda>r. (RECEIVER_SUCCESS, record_packet r)) rs, s') \<and>
    (\<forall>old. \<exists>s''. PcapReceiver_receive sys old s' = Some (RECEIVER_ERR_EOF, old, s''))"
  using assms(3-5)
proof (induction rs arbitrary: s old)
  case Nil
  then show ?case
    using PcapReceiver_receive_eof [OF assms(1)] by (simp add: pcap_receiver.receive_each.simps)
next
  case (Cons r rs)
  obtain s1 where s1: "PcapReceiver_receive sys old s = Some (RECEIVER_SUCCESS, record_packet r, s1)"
      "pcr_mFd s1 = pcr_mFd s" "pcr_mSwap s1 = pcr_mSwap s"
      "src (pcr_mFd s) (pcr_world s1) = concat (map (capture_record (pcr_mSwap s)) rs)"
    using PcapReceiver_receive_record [OF assms(1,2) Cons.prems(1), of r] Cons.prems(2,3) by auto
  obtain s2 where "pcap_receiver.receive_each sys (length rs) (record_packet r) s1
      = Some (map (\<lambda>r. (RECEIVER_SUCCESS, record_packet r)) rs, s2)"
      "\<forall>old. \<exists>s''. PcapReceiver_receive sys old s2 = Some (RECEIVER_ERR_EOF, old, s'')"
    using Cons.IH [of s1 "record_packet r"] Cons.prems s1 by auto
  then show ?case
    by (simp add: pcap_receiver.receive_each.simps s1(1))
qed

section \<open>Properties\<close>

text \<open>A capture file in either byte order is replayed completely and in order: opening it succeeds,
  one receive per record returns the record's packet, and the next receive reports the end of the
  file and leaves the caller's buffer alone. Interruptions and short reads do not matter.\<close>

lemma pcap_replay:
  assumes "posix_read sys src intr" and "only_interrupts sys"
    and "sys_open_read sys (c_str (pcr_mFilePath s)) (pcr_world s) = (fd, w)" and "0 \<le> fd"
    and "src fd w = capture_file be hdr rs" and "length hdr = 20" and "\<not> pcr_mSwap s"
    and "list_all (\<lambda>r. length (record_packet r) < 2 ^ 32) rs"
  shows "\<exists>s1 s2. PcapReceiver_open sys s = Some (RECEIVER_SUCCESS, s1) \<and>
    pcap_receiver.receive_each sys (length rs) [] s1
      = Some (map (\<lambda>r. (RECEIVER_SUCCESS, record_packet r)) rs, s2) \<and>
    (\<forall>old. \<exists>s3. PcapReceiver_receive sys old s2 = Some (RECEIVER_ERR_EOF, old, s3))"
proof -
  obtain s1 where s1: "PcapReceiver_open sys s = Some (RECEIVER_SUCCESS, s1)" "pcr_mFd s1 = fd"
      "pcr_mSwap s1 = be" "src fd (pcr_world s1) = concat (map (capture_record be) rs)"
    using PcapReceiver_open_capture [OF assms(1-7)] by blast
  then show ?thesis
    using pcap_receive_all [OF assms(1,2), of s1 rs "[]"] assms(4,8) by auto
qed

lemma pcap_replay_example:
  "\<exists>s1 s2. PcapReceiver_open ex_sys \<lparr>pcr_mFilePath = ''f'', pcr_mFd = - 1, pcr_mSwap = False,
        pcr_world = (capture_file True (replicate 20 7) [(1, 2, 3, [9, 8, 7]), (4, 5, 0, [])], [], 2)\<rparr>
      = Some (RECEIVER_SUCCESS, s1) \<and>
    pcap_receiver.receive_each ex_sys 2 [] s1
      = Some ([(RECEIVER_SUCCESS, [9, 8, 7]), (RECEIVER_SUCCESS, [])], s2)"
proof -
  let ?f = "capture_file True (replicate 20 7) [(1, 2, 3, [9, 8, 7]), (4, 5, 0, [])]"
  let ?s = "\<lparr>pcr_mFilePath = ''f'', pcr_mFd = - 1, pcr_mSwap = False, pcr_world = (?f, [], 2)\<rparr>"
  have "sys_open_read ex_sys (c_str (pcr_mFilePath ?s)) (pcr_world ?s) = (5, (?f, [], 2))"
    by (simp add: ex_sys_def)
  from pcap_replay [OF ex_sys_read ex_sys_only_interrupts this, of True "replicate 20 7"
      "[(1, 2, 3, [9, 8, 7]), (4, 5, 0, [])]"]
  have "\<exists>s1 s2. PcapReceiver_open ex_sys ?s = Some (RECEIVER_SUCCESS, s1) \<and>
      pcap_receiver.receive_each ex_sys (Suc (Suc 0)) [] s1
        = Some ([(RECEIVER_SUCCESS, [9, 8, 7]), (RECEIVER_SUCCESS, [])], s2)"
    by (simp add: ex_src_def record_packet_def del: pcap_receiver.receive_each.simps) blast
  then show ?thesis
    by (simp only: numeral_2_eq_2)
qed

text \<open>C14: What \<^verbatim>\<open>VerilatorSender\<close> writes for a packet, \<^verbatim>\<open>VerilatorReceiver\<close> reads back as that packet,
  and the receiver consumes exactly the packet's beats: whatever follows on the stream is left
  for the next call.\<close>

theorem verilator_round_trip:
  assumes "posix_write sys out intr" and "posix_read sys src intr" and "only_interrupts sys"
    and "packet \<noteq> []" and "0 \<le> vls_mSockFd s" and "0 \<le> vlr_mSockFd r"
    and "src (vlr_mSockFd r) (vlr_world r) = concat (map beat_bytes (beats_from packet 0)) @ rest"
  shows "\<exists>s' r'. VerilatorSender_send sys packet s = Some (SENDER_SUCCESS, s') \<and>
    out (vls_mSockFd s) (vls_world s')
      = out (vls_mSockFd s) (vls_world s) @ concat (map beat_bytes (beats_from packet 0)) \<and>
    VerilatorReceiver_receive sys old r = Some (RECEIVER_SUCCESS, packet, r') \<and>
    src (vlr_mSockFd r') (vlr_world r') = rest"
proof -
  let ?written = "concat (map beat_bytes (beats_from packet 0))"
  obtain w where "verilator_send_loop sys (vls_mSockFd s) packet 0 (vls_world s) = Some (SENDER_SUCCESS, w)"
      "out (vls_mSockFd s) w = out (vls_mSockFd s) (vls_world s) @ ?written"
    using verilator_send_loop_writes [OF assms(1), of "vls_mSockFd s" packet 0 "vls_world s"] assms(3) by auto
  then have "VerilatorSender_send sys packet s = Some (SENDER_SUCCESS, s\<lparr>vls_world := w\<rparr>) \<and>
      out (vls_mSockFd s) (vls_world (s\<lparr>vls_world := w\<rparr>)) = out (vls_mSockFd s) (vls_world s) @ ?written"
    using assms(4,5) by (simp add: VerilatorSender_send_def)
  then show ?thesis
    using verilator_receive_packet [OF assms(2-4) assms(7,6)] by blast
qed

theorem verilator_round_trip_witness:
  "\<exists>s' r'. VerilatorSender_send ex_sys [1, 2, 3, 4, 5, 6, 7, 8, 9]
      \<lparr>vls_mSocketPath = ''p'', vls_mSockFd = 5, vls_world = ([], [], 1)\<rparr> = Some (SENDER_SUCCESS, s') \<and>
    VerilatorReceiver_receive ex_sys []
      \<lparr>vlr_mSocketPath = ''p'', vlr_mSockFd = 5,
       vlr_world = (concat (map beat_bytes (beats_from [1, 2, 3, 4, 5, 6, 7, 8, 9] 0)) @ [0xAA], [], 3)\<rparr>
      = Some (RECEIVER_SUCCESS, [1, 2, 3, 4, 5, 6, 7, 8, 9], r')"
  using verilator_round_trip [OF ex_sys_write ex_sys_read ex_sys_only_interrupts, of "[1, 2, 3, 4, 5, 6, 7, 8, 9]"
      "\<lparr>vls_mSocketPath = ''p'', vls_mSockFd = 5, vls_world = ([], [], 1)\<rparr>"
      "\<lparr>vlr_mSocketPath = ''p'', vlr_mSockFd = 5,
        vlr_world = (concat (map beat_bytes (beats_from [1, 2, 3, 4, 5, 6, 7, 8, 9] 0)) @ [0xAA], [], 3)\<rparr>"
      "[0xAA]" "[]"]
  unfolding ex_src_def by (simp del: beats_from.simps) blast

text \<open>The lifecycle contract holds for every sender the tool can be started with: between a
  successful open and the close no send reports a sender that is not open, and after the close
  every send reports exactly that and does nothing.\<close>

lemma senders_lifecycle:
  "(\<forall>s s1 cs s2 ps p. PcapSender_open sys s = Some (SENDER_SUCCESS, s1) \<longrightarrow>
      pcap_sender.send_each sys ps s1 = Some (cs, s2) \<longrightarrow> SENDER_ERR_NOT_OPEN \<notin> set cs \<and>
      PcapSender_send sys p (PcapSender_close sys s2) = Some (SENDER_ERR_NOT_OPEN, PcapSender_close sys s2)) \<and>
   (\<forall>s s1 cs s2 ps p. VerilatorSender_open sys s = Some (SENDER_SUCCESS, s1) \<longrightarrow>
      verilator_sender.send_each sys ps s1 = Some (cs, s2) \<longrightarrow> SENDER_ERR_NOT_OPEN \<notin> set cs \<and>
      VerilatorSender_send sys p (VerilatorSender_close sys s2) = Some (SENDER_ERR_NOT_OPEN, VerilatorSender_close sys s2)) \<and>
   (\<forall>s s1 cs s2 ps p. RawSocketSender_open sys s = Some (SENDER_SUCCESS, s1) \<longrightarrow>
      raw_sender.send_each sys ps s1 = Some (cs, s2) \<longrightarrow> SENDER_ERR_NOT_OPEN \<notin> set cs \<and>
      RawSocketSender_send sys p (RawSocketSender_close sys s2) = Some (SENDER_ERR_NOT_OPEN, RawSocketSender_close sys s2))"
  using pcap_sender.lifecycle [of sys] verilator_sender.lifecycle [of sys] raw_sender.lifecycle [of sys]
  by (simp add: PcapSender_ops_def VerilatorSender_ops_def RawSocketSender_ops_def)

lemma senders_lifecycle_example:
  "RawSocketSender_send ex_sys [1] (RawSocketSender_close ex_sys
      \<lparr>rws_mIfName = ''eth0'', rws_mSockFd = 5, rws_mIfIndex = 2, rws_world = ([], [], 0)\<rparr>)
   = Some (SENDER_ERR_NOT_OPEN, RawSocketSender_close ex_sys
      \<lparr>rws_mIfName = ''eth0'', rws_mSockFd = 5, rws_mIfIndex = 2, rws_world = ([], [], 0)\<rparr>)"
proof -
  let ?s0 = "\<lparr>rws_mIfName = ''eth0'', rws_mSockFd = - 1, rws_mIfIndex = - 1, rws_world = ([], [], 0)\<rparr>"
  let ?s1 = "\<lparr>rws_mIfName = ''eth0'', rws_mSockFd = 5, rws_mIfIndex = 2, rws_world = ([], [], 0)\<rparr>"
  have "RawSocketSender_open ex_sys ?s0 = Some (SENDER_SUCCESS, ?s1)"
    by (simp add: RawSocketSender_open_def ex_sys_def)
  moreover have "raw_sender.send_each ex_sys [] ?s1 = Some ([], ?s1)"
    by (simp add: raw_sender.send_each.simps)
  ultimately show ?thesis
    using senders_lifecycle [of ex_sys] by blast
qed

end
