(* ===== verification/Traffic_Generator.thy ===== *)
theory Traffic_Generator
  imports Protocol_Parser Packet_Decoder Receivers
begin

text \<open>
  \<^verbatim>\<open>TrafficGenerator\<close> (traffic-gen/inc/tsn/traffic_generator.h,
  src/traffic_generator.cpp): packets of the parsed interfaces handed to a sender.

  The sender behind the \<^verbatim>\<open>ISender\<close> pointer is an argument \<open>ops\<close>, its state a member
  of the generator. An operation is \<open>None\<close> when it does not return: the sender can block for
  ever, and \<^verbatim>\<open>sendLoop\<close> with a count of 0 goes on until a send fails. The generator's
  lemmas are proved once, from the contract \<open>packet_sender\<close>.
\<close>

section \<open>The operations\<close>

record ('s, 'g) TrafficGenerator =
  tg_mParser :: ProtocolParser
  tg_mSender :: 's
  tg_mBuilder :: "'g PacketBuilder"
  tg_mOpen :: bool

definition new_TrafficGenerator :: "ProtocolParser \<Rightarrow> 's \<Rightarrow> 'g PacketBuilder \<Rightarrow> ('s, 'g) TrafficGenerator" where
  "new_TrafficGenerator parser sender builder =
     \<lparr>tg_mParser = parser, tg_mSender = sender, tg_mBuilder = builder, tg_mOpen = False\<rparr>"

definition TrafficGenerator_open ::
    "'s isender \<Rightarrow> ('s, 'g) TrafficGenerator \<Rightarrow> (int \<times> ('s, 'g) TrafficGenerator) option" where
  "TrafficGenerator_open ops tg = (case isender_open ops (tg_mSender tg) of
       None \<Rightarrow> None
     | Some (err, s') \<Rightarrow>
         if err \<noteq> SENDER_SUCCESS then Some (TGEN_ERR_NOT_OPEN, tg\<lparr>tg_mSender := s'\<rparr>)
         else Some (TGEN_SUCCESS, tg\<lparr>tg_mSender := s', tg_mOpen := True\<rparr>))"

definition TrafficGenerator_close :: "'s isender \<Rightarrow> ('s, 'g) TrafficGenerator \<Rightarrow> ('s, 'g) TrafficGenerator" where
  "TrafficGenerator_close ops tg =
     (if tg_mOpen tg then tg\<lparr>tg_mSender := isender_close ops (tg_mSender tg), tg_mOpen := False\<rparr> else tg)"

definition seedRng :: "(u64 \<Rightarrow> 'g) \<Rightarrow> u64 \<Rightarrow> ('s, 'g) TrafficGenerator \<Rightarrow> ('s, 'g) TrafficGenerator" where
  "seedRng seeded s tg = tg\<lparr>tg_mBuilder := seed seeded s (tg_mBuilder tg)\<rparr>"

definition sendOne ::
    "'s isender \<Rightarrow> 'g distribution \<Rightarrow> ProtocolInterface \<Rightarrow> ('s, 'g) TrafficGenerator
      \<Rightarrow> (int \<times> ('s, 'g) TrafficGenerator) option" where
  "sendOne ops dist iface tg =
     (let (pkt, b') = build dist (tg_mBuilder tg) iface (dbVars (mDbs (tg_mParser tg)));
          tg1 = tg\<lparr>tg_mBuilder := b'\<rparr>
      in if pkt = [] then Some (TGEN_ERR_EMPTY_PACKET, tg1)
         else case isender_send ops pkt (tg_mSender tg1) of
             None \<Rightarrow> None
           | Some (err, s') \<Rightarrow>
               Some (if err \<noteq> SENDER_SUCCESS then TGEN_ERR_SEND_FAILED else TGEN_SUCCESS,
                     tg1\<lparr>tg_mSender := s'\<rparr>))"

definition TrafficGenerator_send ::
    "'s isender \<Rightarrow> 'g distribution \<Rightarrow> string \<Rightarrow> ('s, 'g) TrafficGenerator
      \<Rightarrow> (int \<times> ('s, 'g) TrafficGenerator) option" where
  "TrafficGenerator_send ops dist qualifiedName tg =
     (if \<not> tg_mOpen tg then Some (TGEN_ERR_NOT_OPEN, tg)
      else case getElement (dbIfproto (mDbs (tg_mParser tg))) qualifiedName of
          None \<Rightarrow> Some (TGEN_ERR_IFACE_NOT_FOUND, tg)
        | Some iface \<Rightarrow> sendOne ops dist iface tg)"

text \<open>The body of the two callbacks: the last error other than an empty packet is remembered.\<close>

definition record_error :: "int \<Rightarrow> int \<Rightarrow> int" where
  "record_error err lastErr =
     (if err \<noteq> TGEN_SUCCESS \<and> err \<noteq> TGEN_ERR_EMPTY_PACKET then err else lastErr)"

definition sendFiltered ::
    "'s isender \<Rightarrow> 'g distribution \<Rightarrow> IfDirections \<Rightarrow> ('s, 'g) TrafficGenerator
      \<Rightarrow> (int \<times> ('s, 'g) TrafficGenerator) option" where
  "sendFiltered ops dist dir tg =
     (if \<not> tg_mOpen tg then Some (TGEN_ERR_NOT_OPEN, tg)
      else forEach (dbIfproto (mDbs (tg_mParser tg)))
             (\<lambda>name iface st. case st of
                  None \<Rightarrow> None
                | Some (lastErr, tg) \<Rightarrow>
                    if mDirection iface \<noteq> dir then Some (lastErr, tg)
                    else map_option (\<lambda>(err, tg'). (record_error err lastErr, tg')) (sendOne ops dist iface tg))
             (Some (TGEN_SUCCESS, tg)))"

definition sendAll ::
    "'s isender \<Rightarrow> 'g distribution \<Rightarrow> ('s, 'g) TrafficGenerator
      \<Rightarrow> (int \<times> ('s, 'g) TrafficGenerator) option" where
  "sendAll ops dist tg =
     (if \<not> tg_mOpen tg then Some (TGEN_ERR_NOT_OPEN, tg)
      else forEach (dbIfproto (mDbs (tg_mParser tg)))
             (\<lambda>name iface st. case st of
                  None \<Rightarrow> None
                | Some (lastErr, tg) \<Rightarrow>
                    map_option (\<lambda>(err, tg'). (record_error err lastErr, tg')) (sendOne ops dist iface tg))
             (Some (TGEN_SUCCESS, tg)))"

text \<open>\<^verbatim>\<open>for (size_t i = 0; count == 0 || i < count; ++i)\<close>, with a 64-bit counter.\<close>

partial_function (option) sendLoop_loop ::
    "'s isender \<Rightarrow> 'g distribution \<Rightarrow> ProtocolInterface \<Rightarrow> u64 \<Rightarrow> u64 \<Rightarrow> ('s, 'g) TrafficGenerator
      \<Rightarrow> (int \<times> ('s, 'g) TrafficGenerator) option" where
  "sendLoop_loop ops dist iface count i tg =
     (if count = 0 \<or> i < count then
        (case sendOne ops dist iface tg of
           None \<Rightarrow> None
         | Some (err, tg') \<Rightarrow>
             if err = TGEN_ERR_SEND_FAILED then Some (err, tg')
             else sendLoop_loop ops dist iface count (i + 1) tg')
      else Some (TGEN_SUCCESS, tg))"

declare sendLoop_loop.simps [code]

definition sendLoop ::
    "'s isender \<Rightarrow> 'g distribution \<Rightarrow> string \<Rightarrow> u64 \<Rightarrow> ('s, 'g) TrafficGenerator
      \<Rightarrow> (int \<times> ('s, 'g) TrafficGenerator) option" where
  "sendLoop ops dist qualifiedName count tg =
     (if \<not> tg_mOpen tg then Some (TGEN_ERR_NOT_OPEN, tg)
      else case getElement (dbIfproto (mDbs (tg_mParser tg))) qualifiedName of
          None \<Rightarrow> Some (TGEN_ERR_IFACE_NOT_FOUND, tg)
        | Some iface \<Rightarrow> sendLoop_loop ops dist iface count 0 tg)"

section \<open>Reference definitions\<close>

text \<open>
  \<open>send_all_of\<close> sends one packet for each interface of a list and goes on after failures;
  \<open>send_times\<close> sends for one interface a number of times and stops at the first failure.
\<close>

fun send_all_of ::
    "'s isender \<Rightarrow> 'g distribution \<Rightarrow> ProtocolInterface list \<Rightarrow> int \<Rightarrow> ('s, 'g) TrafficGenerator
      \<Rightarrow> (int \<times> ('s, 'g) TrafficGenerator) option" where
  "send_all_of ops dist [] lastErr tg = Some (lastErr, tg)"
| "send_all_of ops dist (iface # ifaces) lastErr tg = (case sendOne ops dist iface tg of
     None \<Rightarrow> None
   | Some (err, tg') \<Rightarrow> send_all_of ops dist ifaces (record_error err lastErr) tg')"

fun send_times ::
    "'s isender \<Rightarrow> 'g distribution \<Rightarrow> ProtocolInterface \<Rightarrow> nat \<Rightarrow> ('s, 'g) TrafficGenerator
      \<Rightarrow> (int \<times> ('s, 'g) TrafficGenerator) option" where
  "send_times ops dist iface 0 tg = Some (TGEN_SUCCESS, tg)"
| "send_times ops dist iface (Suc n) tg = (case sendOne ops dist iface tg of
     None \<Rightarrow> None
   | Some (err, tg') \<Rightarrow>
       if err = TGEN_ERR_SEND_FAILED then Some (err, tg') else send_times ops dist iface n tg')"

lemma forEach_loop_None: "forEach_loop (\<lambda>k v st. case st of None \<Rightarrow> None | Some x \<Rightarrow> f k v x) m None = None"
  by (induction m) auto

lemma forEach_send_all_of:
  "forEach_loop (\<lambda>name iface st. case st of
        None \<Rightarrow> None
      | Some (lastErr, tg) \<Rightarrow>
          if \<not> P iface then Some (lastErr, tg)
          else map_option (\<lambda>(err, tg'). (record_error err lastErr, tg')) (sendOne ops dist iface tg)) m (Some (e, tg))
   = send_all_of ops dist (filter P (map snd m)) e tg"
proof (induction m arbitrary: e tg)
  case (Cons kv m)
  obtain k v where "kv = (k, v)" by (cases kv)
  then show ?case
    using Cons.IH by (auto simp: forEach_loop_None split: option.splits)
qed simp

lemma sendLoop_loop_times:
  assumes "i \<le> count" and "count \<noteq> 0"
  shows "sendLoop_loop ops dist iface count i tg = send_times ops dist iface (unat count - unat i) tg"
  using assms
proof (induction "unat count - unat i" arbitrary: i tg)
  case 0
  then have "i = count"
    by (simp add: word_le_nat_alt unsigned_word_eqI)
  then show ?case
    using 0 by (simp add: sendLoop_loop.simps)
next
  case (Suc n)
  then have "i < count"
    by (simp add: word_less_nat_alt)
  then have "unat (i + 1) = Suc (unat i)" "i + 1 \<le> count"
    by (simp_all add: word_increment)
  moreover have "unat count - unat i = Suc (unat count - unat (i + 1))"
    using calculation \<open>i < count\<close> by (simp add: word_less_nat_alt Suc_diff_le)
  ultimately show ?case
    using Suc \<open>i < count\<close> by (auto simp: sendLoop_loop.simps [of _ _ _ _ i] split: option.splits)
qed


text \<open>Without a limit the loop can only end with a failed send.\<close>

lemma sendLoop_loop_unlimited:
  assumes "sendLoop_loop ops dist iface 0 i tg = Some r"
  shows "fst r = TGEN_ERR_SEND_FAILED"
proof -
  have "count = 0 \<longrightarrow> fst r = TGEN_ERR_SEND_FAILED" if "sendLoop_loop ops dist iface count i tg = Some r" for count
  proof (rule sendLoop_loop.raw_induct [OF _ that,
        where P = "\<lambda>ops dist iface count i tg r. count = 0 \<longrightarrow> fst r = TGEN_ERR_SEND_FAILED"], goal_cases)
    case (1 loop ops dist iface count i tg r)
    note IH = 1(1)
    from 1(2) show ?case
      by (auto split: if_splits option.splits dest!: IH)
  qed
  with assms show ?thesis by blast
qed

section \<open>The generator and the contract of its sender\<close>

text \<open>
  A generator that is open has an open sender, unless it is \<open>stale\<close>: it was open when \<^verbatim>\<open>open\<close>
  was called again, and the sender failed.
\<close>

definition generator_inv :: "('s \<Rightarrow> bool) \<Rightarrow> bool \<Rightarrow> ('s, 'g) TrafficGenerator \<Rightarrow> bool" where
  "generator_inv opened stale tg \<longleftrightarrow> (tg_mOpen tg \<longrightarrow> (opened (tg_mSender tg) \<longleftrightarrow> \<not> stale)) \<and> (stale \<longrightarrow> tg_mOpen tg)"

text \<open>The operations that neither open nor close the generator.\<close>

inductive generator_step ::
    "'s isender \<Rightarrow> 'g distribution \<Rightarrow> (u64 \<Rightarrow> 'g) \<Rightarrow> ('s, 'g) TrafficGenerator \<Rightarrow> ('s, 'g) TrafficGenerator \<Rightarrow> bool"
  for ops dist seeded where
  step_seed: "generator_step ops dist seeded tg (seedRng seeded n tg)"
| step_send: "TrafficGenerator_send ops dist name tg = Some (c, tg') \<Longrightarrow> generator_step ops dist seeded tg tg'"
| step_filtered: "sendFiltered ops dist dir tg = Some (c, tg') \<Longrightarrow> generator_step ops dist seeded tg tg'"
| step_all: "sendAll ops dist tg = Some (c, tg') \<Longrightarrow> generator_step ops dist seeded tg tg'"
| step_loop: "sendLoop ops dist name count tg = Some (c, tg') \<Longrightarrow> generator_step ops dist seeded tg tg'"

text \<open>
  The life of a generator: its public operations in any order, \<^verbatim>\<open>open\<close> on an open generator included. The
  flag records that the last call of \<^verbatim>\<open>open\<close> or \<^verbatim>\<open>close\<close> was an \<^verbatim>\<open>open\<close> that failed on an open
  generator.
\<close>

inductive generator_reachable ::
    "'s isender \<Rightarrow> 'g distribution \<Rightarrow> (u64 \<Rightarrow> 'g) \<Rightarrow> ('s, 'g) TrafficGenerator \<Rightarrow> bool \<Rightarrow> ('s, 'g) TrafficGenerator \<Rightarrow> bool"
  for ops dist seeded tg0 where
  reach_start: "generator_reachable ops dist seeded tg0 False tg0"
| reach_open: "generator_reachable ops dist seeded tg0 stale tg \<Longrightarrow> TrafficGenerator_open ops tg = Some (c, tg') \<Longrightarrow>
    generator_reachable ops dist seeded tg0 (tg_mOpen tg \<and> c \<noteq> TGEN_SUCCESS) tg'"
| reach_close: "generator_reachable ops dist seeded tg0 stale tg \<Longrightarrow>
    generator_reachable ops dist seeded tg0 False (TrafficGenerator_close ops tg)"
| reach_step: "generator_reachable ops dist seeded tg0 stale tg \<Longrightarrow> generator_step ops dist seeded tg tg' \<Longrightarrow>
    generator_reachable ops dist seeded tg0 stale tg'"

lemma sendFiltered_eq:
  "tg_mOpen tg \<Longrightarrow> sendFiltered ops dist dir tg =
     send_all_of ops dist (filter (\<lambda>i. mDirection i = dir) (map snd (internalMaps (dbIfproto (mDbs (tg_mParser tg))))))
       TGEN_SUCCESS tg"
  using forEach_send_all_of [of "\<lambda>i. mDirection i = dir"] by (simp add: sendFiltered_def forEach_def)

lemma sendAll_eq:
  "tg_mOpen tg \<Longrightarrow> sendAll ops dist tg =
     send_all_of ops dist (map snd (internalMaps (dbIfproto (mDbs (tg_mParser tg))))) TGEN_SUCCESS tg"
  by (simp add: sendAll_def forEach_def
      forEach_send_all_of [of "\<lambda>_. True", unfolded not_True_eq_False if_False filter_True])

lemma generator_closed:
  assumes "\<not> tg_mOpen tg"
  shows "TrafficGenerator_send ops dist name tg = Some (TGEN_ERR_NOT_OPEN, tg)"
    and "sendFiltered ops dist dir tg = Some (TGEN_ERR_NOT_OPEN, tg)"
    and "sendAll ops dist tg = Some (TGEN_ERR_NOT_OPEN, tg)"
    and "sendLoop ops dist name count tg = Some (TGEN_ERR_NOT_OPEN, tg)"
  using assms by (simp_all add: TrafficGenerator_send_def sendFiltered_def sendAll_def sendLoop_def)

context packet_sender
begin

lemma sendOne_inv:
  assumes "sendOne ops dist iface tg = Some (err, tg')" and "generator_inv opened stale tg"
  shows "generator_inv opened stale tg' \<and> tg_mOpen tg' = tg_mOpen tg \<and> tg_mParser tg' = tg_mParser tg \<and>
    err \<in> {TGEN_SUCCESS, TGEN_ERR_SEND_FAILED, TGEN_ERR_EMPTY_PACKET}"
proof -
  have kept: "opened s' \<longleftrightarrow> opened s" if "isender_send ops p s = Some (c, s')" for p s c s'
    using that send_opened send_closed by (cases "opened s") auto
  show ?thesis
    using assms by (auto simp: sendOne_def generator_inv_def Let_def kept split: prod.splits if_splits option.splits)
qed

lemma send_all_of_inv:
  assumes "send_all_of ops dist ifaces e tg = Some (err, tg')" and "generator_inv opened stale tg"
    and "e \<in> {TGEN_SUCCESS, TGEN_ERR_SEND_FAILED}"
  shows "generator_inv opened stale tg' \<and> tg_mOpen tg' = tg_mOpen tg \<and> tg_mParser tg' = tg_mParser tg \<and>
    err \<in> {TGEN_SUCCESS, TGEN_ERR_SEND_FAILED}"
  using assms
proof (induction ifaces arbitrary: e tg)
  case (Cons iface ifaces)
  obtain err1 tg1 where s: "sendOne ops dist iface tg = Some (err1, tg1)"
    using Cons.prems(1) by (auto split: option.splits)
  have inv: "generator_inv opened stale tg1 \<and> tg_mOpen tg1 = tg_mOpen tg \<and> tg_mParser tg1 = tg_mParser tg \<and>
      err1 \<in> {TGEN_SUCCESS, TGEN_ERR_SEND_FAILED, TGEN_ERR_EMPTY_PACKET}"
    using sendOne_inv [OF s Cons.prems(2)] .
  then have "record_error err1 e \<in> {TGEN_SUCCESS, TGEN_ERR_SEND_FAILED}"
    using Cons.prems(3) by (auto simp: record_error_def)
  then show ?case
    using Cons.IH [of "record_error err1 e" tg1] Cons.prems(1) s inv by simp
qed auto

lemma sendLoop_loop_inv:
  assumes "sendLoop_loop ops dist iface count i tg = Some r" and "generator_inv opened stale tg"
  shows "generator_inv opened stale (snd r) \<and> tg_mOpen (snd r) = tg_mOpen tg \<and> tg_mParser (snd r) = tg_mParser tg"
proof -
  have "ops' = ops \<longrightarrow> generator_inv opened stale tg \<longrightarrow>
      generator_inv opened stale (snd r) \<and> tg_mOpen (snd r) = tg_mOpen tg \<and> tg_mParser (snd r) = tg_mParser tg"
    if "sendLoop_loop ops' dist iface count i tg = Some r" for ops'
  proof (rule sendLoop_loop.raw_induct [OF _ that, where P = "\<lambda>ops' dist iface count i tg r.
        ops' = ops \<longrightarrow> generator_inv opened stale tg \<longrightarrow>
        generator_inv opened stale (snd r) \<and> tg_mOpen (snd r) = tg_mOpen tg \<and> tg_mParser (snd r) = tg_mParser tg"], goal_cases)
    case (1 loop ops' dist iface count i tg r)
    note IH = 1(1)
    show ?case
    proof (intro impI)
      assume hyps: "ops' = ops" "generator_inv opened stale tg"
      consider "r = (TGEN_SUCCESS, tg)"
        | err tg1 where "sendOne ops dist iface tg = Some (err, tg1)" "r = (err, tg1)"
        | err tg1 where "sendOne ops dist iface tg = Some (err, tg1)" "loop ops' dist iface count (i + 1) tg1 = Some r"
        using 1(2) hyps(1) by (auto split: if_splits option.splits)
      then show "generator_inv opened stale (snd r) \<and> tg_mOpen (snd r) = tg_mOpen tg \<and> tg_mParser (snd r) = tg_mParser tg"
      proof cases
        case 1
        then show ?thesis using hyps by simp
      next
        case 2
        then show ?thesis using sendOne_inv [OF 2(1) hyps(2)] by simp
      next
        case 3
        then show ?thesis using sendOne_inv [OF 3(1) hyps(2)] IH [OF 3(2)] hyps(1) by simp
      qed
    qed
  qed
  with assms show ?thesis by blast
qed

lemma generator_step_inv:
  assumes "generator_step ops dist seeded tg tg'" and "generator_inv opened stale tg"
  shows "generator_inv opened stale tg' \<and> tg_mParser tg' = tg_mParser tg"
  using assms
proof (induction rule: generator_step.induct)
  case (step_send name tg c tg')
  then show ?case
    using sendOne_inv by (fastforce simp: TrafficGenerator_send_def split: if_splits option.splits)
next
  case (step_filtered dir tg c tg')
  then show ?case
    using send_all_of_inv [of dist _ TGEN_SUCCESS tg c tg']
    by (cases "tg_mOpen tg") (auto simp: sendFiltered_eq generator_closed)
next
  case (step_all tg c tg')
  then show ?case
    using send_all_of_inv [of dist _ TGEN_SUCCESS tg c tg']
    by (cases "tg_mOpen tg") (auto simp: sendAll_eq generator_closed)
next
  case (step_loop name count tg c tg')
  then show ?case
    using sendLoop_loop_inv [of dist _ count 0 tg "(c, tg')"]
    by (auto simp: sendLoop_def split: if_splits option.splits)
qed (auto simp: seedRng_def generator_inv_def)

lemma open_inv:
  assumes "TrafficGenerator_open ops tg = Some (c, tg')"
  shows "generator_inv opened (tg_mOpen tg \<and> c \<noteq> TGEN_SUCCESS) tg' \<and> tg_mParser tg' = tg_mParser tg"
  using assms open_result
  by (fastforce simp: TrafficGenerator_open_def generator_inv_def tgen_codes split: option.splits if_splits)

lemma close_inv: "generator_inv opened False (TrafficGenerator_close ops tg) \<and> tg_mParser (TrafficGenerator_close ops tg) = tg_mParser tg"
  by (simp add: TrafficGenerator_close_def generator_inv_def)

lemma generator_reachable_inv:
  assumes "generator_reachable ops dist seeded tg0 stale tg" and "generator_inv opened False tg0"
  shows "generator_inv opened stale tg \<and> tg_mParser tg = tg_mParser tg0"
  using assms by (induction rule: generator_reachable.induct) (auto dest: generator_step_inv open_inv simp: close_inv)

end

section \<open>What a capture generator writes\<close>

text \<open>The packets of successive builds of one interface.\<close>

fun built_packets ::
    "'g distribution \<Rightarrow> ProtocolInterface \<Rightarrow> Var Database \<Rightarrow> nat \<Rightarrow> 'g PacketBuilder \<Rightarrow> bytes list" where
  "built_packets dist iface db 0 b = []"
| "built_packets dist iface db (Suc n) b =
     fst (build dist b iface db) # built_packets dist iface db n (snd (build dist b iface db))"


definition pcap_record :: "u32 \<Rightarrow> u32 \<Rightarrow> bytes \<Rightarrow> u32 \<times> u32 \<times> u32 \<times> bytes" where
  "pcap_record ts us p = (ts, us, of_nat (length p), p)"

lemma capture_record_pcap:
  "capture_record False (pcap_record ts us p) = PcapPacketHeader ts us (of_nat (length p)) (of_nat (length p)) @ p"
  by (simp add: capture_record_def pcap_record_def PcapPacketHeader_def ord32_def)

lemma record_packet_pcap [simp]: "record_packet (pcap_record ts us p) = p"
  by (simp add: record_packet_def pcap_record_def)

lemma sendOne_pcap:
  fixes tg :: "('w PcapSender, 'g) TrafficGenerator"
  assumes "posix_write sys out intr" and "\<And>w. out fd (snd (sys_clock sys w)) = out fd w" and "0 \<le> fd"
    and "pcs_mFd (tg_mSender tg) = fd" and "build dist (tg_mBuilder tg) iface (dbVars (mDbs (tg_mParser tg))) = (pkt, b')"
  shows "\<exists>c tg' rs. sendOne (PcapSender_ops sys) dist iface tg = Some (c, tg') \<and> pcs_mFd (tg_mSender tg') = fd \<and>
    tg_mBuilder tg' = b' \<and> tg_mParser tg' = tg_mParser tg \<and>
    (c \<noteq> TGEN_ERR_SEND_FAILED \<longrightarrow> map record_packet rs = filter (\<lambda>p. p \<noteq> []) [pkt] \<and>
      out fd (pcs_world (tg_mSender tg')) = out fd (pcs_world (tg_mSender tg)) @ concat (map (capture_record False) rs))"
proof (cases "pkt = []")
  case True
  then show ?thesis
    using assms(4,5) by (auto simp: sendOne_def intro!: exI [of _ "[]"])
next
  case False
  obtain c s' ts us where s': "PcapSender_send sys pkt (tg_mSender tg) = Some (c, s')" "pcs_mFd s' = fd"
      "c = SENDER_SUCCESS \<longrightarrow> out fd (pcs_world s') = out fd (pcs_world (tg_mSender tg)) @
         PcapPacketHeader ts us (of_nat (length pkt)) (of_nat (length pkt)) @ pkt"
    using PcapSender_send_writes [OF assms(1,2,4,3), of pkt] by auto
  then show ?thesis
    using False assms(5)
    by (intro exI [of _ "if c \<noteq> SENDER_SUCCESS then TGEN_ERR_SEND_FAILED else TGEN_SUCCESS"]
        exI [of _ "tg\<lparr>tg_mBuilder := b', tg_mSender := s'\<rparr>"] exI [of _ "[pcap_record ts us pkt]"])
      (simp add: sendOne_def PcapSender_ops_def capture_record_pcap)
qed

lemma send_times_pcap:
  fixes tg :: "('w PcapSender, 'g) TrafficGenerator"
  assumes "posix_write sys out intr" and "\<And>w. out fd (snd (sys_clock sys w)) = out fd w" and "0 \<le> fd"
  shows "pcs_mFd (tg_mSender tg) = fd \<Longrightarrow>
    \<exists>c tg' rs. send_times (PcapSender_ops sys) dist iface n tg = Some (c, tg') \<and>
    (c = TGEN_SUCCESS \<longrightarrow>
      map record_packet rs = filter (\<lambda>p. p \<noteq> [])
        (built_packets dist iface (dbVars (mDbs (tg_mParser tg))) n (tg_mBuilder tg)) \<and>
      out fd (pcs_world (tg_mSender tg')) = out fd (pcs_world (tg_mSender tg)) @ concat (map (capture_record False) rs))"
proof (induction n arbitrary: tg)
  case 0
  then show ?case by (auto intro!: exI [of _ "[]"])
next
  case (Suc n)
  obtain pkt b' where b: "build dist (tg_mBuilder tg) iface (dbVars (mDbs (tg_mParser tg))) = (pkt, b')"
    by (cases "build dist (tg_mBuilder tg) iface (dbVars (mDbs (tg_mParser tg)))")
  obtain c1 tg1 rs1 where one: "sendOne (PcapSender_ops sys) dist iface tg = Some (c1, tg1)" "pcs_mFd (tg_mSender tg1) = fd"
      "tg_mBuilder tg1 = b'" "tg_mParser tg1 = tg_mParser tg"
      "c1 \<noteq> TGEN_ERR_SEND_FAILED \<longrightarrow> map record_packet rs1 = filter (\<lambda>p. p \<noteq> []) [pkt] \<and>
        out fd (pcs_world (tg_mSender tg1)) = out fd (pcs_world (tg_mSender tg)) @ concat (map (capture_record False) rs1)"
    using sendOne_pcap [OF assms Suc.prems b] by blast
  obtain c2 tg2 rs2 where rest: "send_times (PcapSender_ops sys) dist iface n tg1 = Some (c2, tg2)"
      "c2 = TGEN_SUCCESS \<longrightarrow>
        map record_packet rs2 = filter (\<lambda>p. p \<noteq> []) (built_packets dist iface (dbVars (mDbs (tg_mParser tg))) n b') \<and>
        out fd (pcs_world (tg_mSender tg2)) = out fd (pcs_world (tg_mSender tg1)) @ concat (map (capture_record False) rs2)"
    using Suc.IH [OF one(2)] one(3,4) by auto
  show ?case
  proof (cases "c1 = TGEN_ERR_SEND_FAILED")
    case True
    then show ?thesis
      using one(1) by (auto simp: tgen_codes)
  next
    case False
    have "\<exists>rs. c2 = TGEN_SUCCESS \<longrightarrow> map record_packet rs = filter (\<lambda>p. p \<noteq> [])
          (built_packets dist iface (dbVars (mDbs (tg_mParser tg))) (Suc n) (tg_mBuilder tg)) \<and>
        out fd (pcs_world (tg_mSender tg2)) = out fd (pcs_world (tg_mSender tg)) @ concat (map (capture_record False) rs)"
      using one(5) rest(2) False by (intro exI [of _ "rs1 @ rs2"]) (simp add: b)
    then show ?thesis
      using one(1) rest(1) False by simp
  qed
qed


lemma open_pcap_writes:
  fixes tg :: "('w PcapSender, 'g) TrafficGenerator"
  assumes "posix_write sys out intr" and "TrafficGenerator_open (PcapSender_ops sys) tg = Some (TGEN_SUCCESS, tg1)"
    and "sys_open_write sys (c_str (pcs_mFilePath (tg_mSender tg))) (pcs_world (tg_mSender tg)) = (fd, w)"
  shows "0 \<le> fd \<and> tg_mOpen tg1 \<and> pcs_mFd (tg_mSender tg1) = fd \<and> tg_mBuilder tg1 = tg_mBuilder tg \<and>
    tg_mParser tg1 = tg_mParser tg \<and>
    out fd (pcs_world (tg_mSender tg1)) = out fd w @ PcapGlobalHeader"
proof -
  obtain s1 where s1: "PcapSender_open sys (tg_mSender tg) = Some (SENDER_SUCCESS, s1)"
      "tg1 = tg\<lparr>tg_mSender := s1, tg_mOpen := True\<rparr>"
    using assms(2) by (auto simp: TrafficGenerator_open_def PcapSender_ops_def tgen_codes split: option.splits if_splits)
  obtain ok w2 where "pcap_writeAll sys fd PcapGlobalHeader w = Some (ok, w2)" "wrote out fd PcapGlobalHeader w ok w2"
    using pcap_writeAll_ends [OF assms(1), of fd PcapGlobalHeader w] by blast
  then show ?thesis
    using s1 assms(3) by (auto simp: PcapSender_open_def wrote_def sender_codes split: if_splits)
qed

lemma global_header_capture:
  "PcapGlobalHeader @ concat (map (capture_record False) rs) = capture_file False (drop 4 PcapGlobalHeader) rs"
  by (simp add: PcapGlobalHeader_def capture_file_def ord32_def PCAP_MAGIC_LE_def)

section \<open>Interfaces without a packet\<close>

lemma build_empty_layout: "layout db (mVarRefs iface) = [] \<Longrightarrow> build dist b iface db = ([], b)"
  using buildWithOverrides_eq [of dist Map.empty db iface b "[]" "mRng b"] by (simp add: build_def buildWithFields_eq)

lemma sendOne_empty_layout:
  "layout (dbVars (mDbs (tg_mParser tg))) (mVarRefs iface) = [] \<Longrightarrow>
     sendOne ops dist iface tg = Some (TGEN_ERR_EMPTY_PACKET, tg)"
  by (simp add: sendOne_def build_empty_layout)

lemma sendLoop_loop_empty:
  assumes "sendLoop_loop ops dist iface 0 i tg = Some r"
    and "layout (dbVars (mDbs (tg_mParser tg))) (mVarRefs iface) = []"
  shows False
proof -
  have "count = 0 \<longrightarrow> layout (dbVars (mDbs (tg_mParser tg))) (mVarRefs iface) = [] \<longrightarrow> False"
    if "sendLoop_loop ops dist iface count i tg = Some r" for count
  proof (rule sendLoop_loop.raw_induct [OF _ that, where P = "\<lambda>ops dist iface count i tg r.
        count = 0 \<longrightarrow> layout (dbVars (mDbs (tg_mParser tg))) (mVarRefs iface) = [] \<longrightarrow> False"], goal_cases)
    case (1 loop ops dist iface count i tg r)
    note IH = 1(1)
    from 1(2) show ?case
      by (auto simp: sendOne_empty_layout tgen_codes split: if_splits dest!: IH)
  qed
  with assms show ?thesis by blast
qed

section \<open>Properties\<close>

text \<open>C34: Whatever sender keeps the contract of \<^verbatim>\<open>ISender\<close> and in whatever order the operations of a generator are
  called, in every state it can reach the flag \<^verbatim>\<open>mOpen\<close> means that the sender is open, with one exception:
  after an \<^verbatim>\<open>open\<close> that failed on a generator that was already open, the flag is still set and the
  sender is closed, until the next \<^verbatim>\<open>open\<close> that succeeds or the next \<^verbatim>\<open>close\<close>.\<close>

theorem generator_open_means_sender_open:
  assumes "packet_sender ops opened"
    and "generator_reachable ops dist seeded (new_TrafficGenerator parser sender builder) stale tg"
  shows "(tg_mOpen tg \<longrightarrow> (opened (tg_mSender tg) \<longleftrightarrow> \<not> stale)) \<and> (stale \<longrightarrow> tg_mOpen tg) \<and> tg_mParser tg = parser"
  using packet_sender.generator_reachable_inv [OF assms]
  by (simp add: generator_inv_def new_TrafficGenerator_def)

theorem generator_open_means_sender_open_witness:
  "\<exists>tg. TrafficGenerator_open (RawSocketSender_ops ex_sys) (new_TrafficGenerator (new_parser ''p'')
        \<lparr>rws_mIfName = ''eth0'', rws_mSockFd = - 1, rws_mIfIndex = - 1, rws_world = ([], [], 0)\<rparr> \<lparr>mRng = (0 :: nat)\<rparr>)
      = Some (TGEN_SUCCESS, tg) \<and> tg_mOpen tg \<and> 0 \<le> rws_mSockFd (tg_mSender tg)"
proof -
  let ?s0 = "\<lparr>rws_mIfName = ''eth0'', rws_mSockFd = - 1, rws_mIfIndex = - 1, rws_world = ([], [], 0)\<rparr>"
  let ?s1 = "\<lparr>rws_mIfName = ''eth0'', rws_mSockFd = 5, rws_mIfIndex = 2, rws_world = ([], [], 0)\<rparr>"
  let ?tg0 = "new_TrafficGenerator (new_parser ''p'') ?s0 \<lparr>mRng = (0 :: nat)\<rparr>"
  let ?tg1 = "?tg0\<lparr>tg_mSender := ?s1, tg_mOpen := True\<rparr>"
  have open1: "TrafficGenerator_open (RawSocketSender_ops ex_sys) ?tg0 = Some (TGEN_SUCCESS, ?tg1)"
    by (simp add: TrafficGenerator_open_def RawSocketSender_ops_def RawSocketSender_open_def new_TrafficGenerator_def ex_sys_def)
  have "generator_reachable (RawSocketSender_ops ex_sys) (\<lambda>g lo hi. (hi, g)) (\<lambda>n. 0) ?tg0 False ?tg1"
    using reach_open [OF reach_start open1] by simp
  from generator_open_means_sender_open [OF raw_sender.packet_sender_axioms this] open1 show ?thesis
    by simp
qed

text \<open>C35: A counted loop is exactly that many single sends in a row, stopped by the first send the
  transport fails; interfaces without a packet do not stop it. A closed generator and an unknown
  name are reported without any effect. The 64-bit counter never wraps.\<close>

theorem sendLoop_counts:
  assumes "count \<noteq> 0"
  shows "sendLoop ops dist name count tg =
    (if \<not> tg_mOpen tg then Some (TGEN_ERR_NOT_OPEN, tg)
     else case getElement (dbIfproto (mDbs (tg_mParser tg))) name of
         None \<Rightarrow> Some (TGEN_ERR_IFACE_NOT_FOUND, tg)
       | Some iface \<Rightarrow> send_times ops dist iface (unat count) tg)"
  using assms by (simp add: sendLoop_def sendLoop_loop_times [of 0 count, simplified] split: option.splits)

theorem sendLoop_counts_witness:
  "sendLoop (PcapSender_ops ex_sys) (\<lambda>g lo hi. (hi, g)) ''x'' 3 (new_TrafficGenerator (new_parser ''p'')
      \<lparr>pcs_mFilePath = ''f'', pcs_mFd = - 1, pcs_world = ([], [], 0)\<rparr> \<lparr>mRng = (0 :: nat)\<rparr>\<lparr>tg_mOpen := True\<rparr>)
   = Some (TGEN_ERR_IFACE_NOT_FOUND, new_TrafficGenerator (new_parser ''p'')
      \<lparr>pcs_mFilePath = ''f'', pcs_mFd = - 1, pcs_world = ([], [], 0)\<rparr> \<lparr>mRng = 0\<rparr>\<lparr>tg_mOpen := True\<rparr>)"
  by (subst sendLoop_counts) (simp_all add: new_TrafficGenerator_def new_parser_def empty_dbs_def)

text \<open>C36: An unlimited loop ends only when the transport fails a send. On an interface none of whose
  references resolves there is nothing to send and so nothing to fail: the loop never returns.\<close>

theorem unlimited_sendLoop:
  assumes "tg_mOpen tg" and "getElement (dbIfproto (mDbs (tg_mParser tg))) name = Some iface"
  shows "(\<forall>c tg'. sendLoop ops dist name 0 tg = Some (c, tg') \<longrightarrow> c = TGEN_ERR_SEND_FAILED) \<and>
    (layout (dbVars (mDbs (tg_mParser tg))) (mVarRefs iface) = [] \<longrightarrow> sendLoop ops dist name 0 tg = None)"
proof (intro conjI allI impI)
  fix c tg'
  assume "sendLoop ops dist name 0 tg = Some (c, tg')"
  then show "c = TGEN_ERR_SEND_FAILED"
    using sendLoop_loop_unlimited [of ops dist iface 0 tg "(c, tg')"] assms by (simp add: sendLoop_def)
next
  assume "layout (dbVars (mDbs (tg_mParser tg))) (mVarRefs iface) = []"
  then show "sendLoop ops dist name 0 tg = None"
    using sendLoop_loop_empty [of ops dist iface 0 tg] assms
    by (cases "sendLoop_loop ops dist iface 0 0 tg") (auto simp: sendLoop_def)
qed

theorem unlimited_sendLoop_witness:
  "sendLoop (PcapSender_ops ex_sys) (\<lambda>g lo hi. (hi, g)) ''x'' 0
     \<lparr>tg_mParser = (new_parser ''p'')\<lparr>mDbs := empty_dbs\<lparr>dbIfproto :=
        \<lparr>internalMaps = [(''x'', \<lparr>mInterfaceName = ''x'', mDirection = IN, mVarRefs = []\<rparr>)]\<rparr>\<rparr>\<rparr>,
      tg_mSender = \<lparr>pcs_mFilePath = ''f'', pcs_mFd = 5, pcs_world = ([], [], 0)\<rparr>,
      tg_mBuilder = \<lparr>mRng = (0 :: nat)\<rparr>, tg_mOpen = True\<rparr> = None"
  by (rule unlimited_sendLoop [where iface = "\<lparr>mInterfaceName = ''x'', mDirection = IN, mVarRefs = []\<rparr>",
        THEN conjunct2, rule_format]) (simp_all add: getElement_def)

text \<open>\<^verbatim>\<open>sendFiltered\<close> sends one packet for each interface of the asked direction and for no
  other, in name order, and goes on after a failure; it reports the last failure, empty packets
  not counted. \<^verbatim>\<open>sendAll\<close> does the same for every interface.\<close>

lemma sendFiltered_order:
  "sendFiltered ops dist dir tg =
     (if tg_mOpen tg
      then send_all_of ops dist (filter (\<lambda>i. mDirection i = dir) (map snd (internalMaps (dbIfproto (mDbs (tg_mParser tg))))))
             TGEN_SUCCESS tg
      else Some (TGEN_ERR_NOT_OPEN, tg)) \<and>
   sendAll ops dist tg =
     (if tg_mOpen tg
      then send_all_of ops dist (map snd (internalMaps (dbIfproto (mDbs (tg_mParser tg))))) TGEN_SUCCESS tg
      else Some (TGEN_ERR_NOT_OPEN, tg))"
  by (simp add: sendFiltered_eq sendAll_eq generator_closed)

end
