(* ===== verification/Packet_Gen.thy ===== *)
theory Packet_Gen
  imports Example_Protocols Session_Format Validator Command_Line Traffic_Generator
begin

text \<open>
  The command line tool (traffic-gen/tools/packet_gen_main.cpp): the transport factories and
  \<^verbatim>\<open>main\<close>.

  Everything outside the repository is in the record \<open>env\<close>: files, rapidyaml, system calls,
  the random distribution, the generator state a seed gives, the values of
  \<^verbatim>\<open>std::random_device\<close>, and the logic modules registered at start-up. A run of
  \<^verbatim>\<open>main\<close> is \<open>None\<close> when it does not end, \<open>Throws\<close> when an exception ends the
  process, and otherwise the exit code, the lines written to stdout and the world left behind. The world is that
  of the transports; reading the YAML files and the stack file does not change it and is not recorded in it.
  Diagnostics on stderr are not modelled. The destructors of the transports run when
  \<^verbatim>\<open>main\<close> returns; by then each is closed or was never opened, so they change nothing.
\<close>

section \<open>Transports behind one pointer\<close>

datatype 'w any_sender =
    Raw_sender "'w RawSocketSender"
  | Pcap_sender "'w PcapSender"
  | Verilator_sender "'w VerilatorSender"

fun any_sender_open :: "'w sys \<Rightarrow> 'w any_sender \<Rightarrow> (int \<times> 'w any_sender) option" where
  "any_sender_open sys (Raw_sender s) = map_option (apsnd Raw_sender) (RawSocketSender_open sys s)"
| "any_sender_open sys (Pcap_sender s) = map_option (apsnd Pcap_sender) (PcapSender_open sys s)"
| "any_sender_open sys (Verilator_sender s) = map_option (apsnd Verilator_sender) (VerilatorSender_open sys s)"

fun any_sender_send :: "'w sys \<Rightarrow> bytes \<Rightarrow> 'w any_sender \<Rightarrow> (int \<times> 'w any_sender) option" where
  "any_sender_send sys p (Raw_sender s) = map_option (apsnd Raw_sender) (RawSocketSender_send sys p s)"
| "any_sender_send sys p (Pcap_sender s) = map_option (apsnd Pcap_sender) (PcapSender_send sys p s)"
| "any_sender_send sys p (Verilator_sender s) = map_option (apsnd Verilator_sender) (VerilatorSender_send sys p s)"

fun any_sender_close :: "'w sys \<Rightarrow> 'w any_sender \<Rightarrow> 'w any_sender" where
  "any_sender_close sys (Raw_sender s) = Raw_sender (RawSocketSender_close sys s)"
| "any_sender_close sys (Pcap_sender s) = Pcap_sender (PcapSender_close sys s)"
| "any_sender_close sys (Verilator_sender s) = Verilator_sender (VerilatorSender_close sys s)"

fun any_sender_world :: "'w any_sender \<Rightarrow> 'w" where
  "any_sender_world (Raw_sender s) = rws_world s"
| "any_sender_world (Pcap_sender s) = pcs_world s"
| "any_sender_world (Verilator_sender s) = vls_world s"

fun any_sender_opened :: "'w any_sender \<Rightarrow> bool" where
  "any_sender_opened (Raw_sender s) \<longleftrightarrow> 0 \<le> rws_mSockFd s"
| "any_sender_opened (Pcap_sender s) \<longleftrightarrow> 0 \<le> pcs_mFd s"
| "any_sender_opened (Verilator_sender s) \<longleftrightarrow> 0 \<le> vls_mSockFd s"

definition any_sender_ops :: "'w sys \<Rightarrow> 'w any_sender isender" where
  "any_sender_ops sys = \<lparr>isender_open = any_sender_open sys, isender_send = any_sender_send sys,
     isender_close = any_sender_close sys\<rparr>"

datatype 'w any_receiver =
    Raw_receiver "'w RawSocketReceiver"
  | Pcap_receiver "'w PcapReceiver"
  | Verilator_receiver "'w VerilatorReceiver"

fun any_receiver_open :: "'w sys \<Rightarrow> 'w any_receiver \<Rightarrow> (int \<times> 'w any_receiver) option" where
  "any_receiver_open sys (Raw_receiver s) = map_option (apsnd Raw_receiver) (RawSocketReceiver_open sys s)"
| "any_receiver_open sys (Pcap_receiver s) = map_option (apsnd Pcap_receiver) (PcapReceiver_open sys s)"
| "any_receiver_open sys (Verilator_receiver s) = map_option (apsnd Verilator_receiver) (VerilatorReceiver_open sys s)"

fun any_receiver_receive :: "'w sys \<Rightarrow> bytes \<Rightarrow> 'w any_receiver \<Rightarrow> (int \<times> bytes \<times> 'w any_receiver) option" where
  "any_receiver_receive sys p (Raw_receiver s) = map_option (apsnd (apsnd Raw_receiver)) (RawSocketReceiver_receive sys p s)"
| "any_receiver_receive sys p (Pcap_receiver s) = map_option (apsnd (apsnd Pcap_receiver)) (PcapReceiver_receive sys p s)"
| "any_receiver_receive sys p (Verilator_receiver s) =
     map_option (apsnd (apsnd Verilator_receiver)) (VerilatorReceiver_receive sys p s)"

fun any_receiver_close :: "'w sys \<Rightarrow> 'w any_receiver \<Rightarrow> 'w any_receiver" where
  "any_receiver_close sys (Raw_receiver s) = Raw_receiver (RawSocketReceiver_close sys s)"
| "any_receiver_close sys (Pcap_receiver s) = Pcap_receiver (PcapReceiver_close sys s)"
| "any_receiver_close sys (Verilator_receiver s) = Verilator_receiver (VerilatorReceiver_close sys s)"

fun any_receiver_world :: "'w any_receiver \<Rightarrow> 'w" where
  "any_receiver_world (Raw_receiver s) = rwr_world s"
| "any_receiver_world (Pcap_receiver s) = pcr_world s"
| "any_receiver_world (Verilator_receiver s) = vlr_world s"

fun any_receiver_opened :: "'w any_receiver \<Rightarrow> bool" where
  "any_receiver_opened (Raw_receiver s) \<longleftrightarrow> 0 \<le> rwr_mSockFd s"
| "any_receiver_opened (Pcap_receiver s) \<longleftrightarrow> 0 \<le> pcr_mFd s"
| "any_receiver_opened (Verilator_receiver s) \<longleftrightarrow> 0 \<le> vlr_mSockFd s"

definition any_receiver_ops :: "'w sys \<Rightarrow> 'w any_receiver ireceiver" where
  "any_receiver_ops sys = \<lparr>ireceiver_open = any_receiver_open sys, ireceiver_receive = any_receiver_receive sys,
     ireceiver_close = any_receiver_close sys\<rparr>"

text \<open>The transport specification: kind and parameter at the first colon.\<close>

definition split_transport :: "string \<Rightarrow> (string \<times> string) option" where
  "split_transport spec =
     (if spec = ''none'' \<or> spec = [] then None
      else case str_find spec '':'' 0 of
          None \<Rightarrow> None
        | Some colon \<Rightarrow> Some (take colon spec, drop (colon + 1) spec))"

definition makeSender :: "string \<Rightarrow> 'w \<Rightarrow> 'w any_sender option" where
  "makeSender spec w = (case split_transport spec of
       None \<Rightarrow> None
     | Some (kind, param) \<Rightarrow>
         if kind = ''raw'' then Some (Raw_sender (new_RawSocketSender param w))
         else if kind = ''pcap'' then Some (Pcap_sender (new_PcapSender param w))
         else if kind = ''verilator'' then Some (Verilator_sender (new_VerilatorSender param w))
         else None)"

definition makeReceiver :: "string \<Rightarrow> 'w \<Rightarrow> 'w any_receiver option" where
  "makeReceiver spec w = (case split_transport spec of
       None \<Rightarrow> None
     | Some (kind, param) \<Rightarrow>
         if kind = ''raw'' then Some (Raw_receiver (new_RawSocketReceiver param w))
         else if kind = ''pcap'' then Some (Pcap_receiver (new_PcapReceiver param w))
         else if kind = ''verilator'' then Some (Verilator_receiver (new_VerilatorReceiver param w))
         else None)"

section \<open>The environment\<close>

record ('n, 'w, 'g) env =
  env_fs :: filesystem
  env_entries :: "string \<Rightarrow> string list option"
  env_read :: "string \<Rightarrow> string option"
  env_files :: posix_files
  env_ry :: "'n ryml"
  env_keys :: "'n ryml_keys"
  env_sys :: "'w sys"
  env_dist :: "'g distribution"
  env_seeded :: "u64 \<Rightarrow> 'g"
  env_random :: u64
  env_rng :: 'g
  env_registry :: LogicRegistry

type_synonym 'w outcome = "(int \<times> string list \<times> 'w) run option"

definition exits :: "int \<Rightarrow> string list \<Rightarrow> 'w \<Rightarrow> 'w outcome" where
  "exits code lines w = Some (Returns (code, lines, w))"

section \<open>Validate and list modes\<close>

definition main_validate :: "('n, 'w, 'g) env \<Rightarrow> Args \<Rightarrow> 'w \<Rightarrow> 'w outcome" where
  "main_validate env args w =
     Some (run_bind
       (validateDirectory (env_fs env) (env_entries env) (env_read env) (env_ry env) (env_keys env) (yamlDir args) [])
       (\<lambda>(_, findings). run_bind
         (if stackFile args \<noteq> []
          then validateStackFile (env_read env) (env_ry env) (env_keys env) (stackFile args) findings
          else Returns (0, findings))
         (\<lambda>(_, findings).
            let errors = length (filter (\<lambda>f. vf_severity f = ERROR) findings)
            in Returns (if errors = 0 then 0 else 2, [], w))))"

definition interface_line :: "string \<Rightarrow> ProtocolInterface \<Rightarrow> string" where
  "interface_line name ifc =
     ''  '' @ name @ ''  ['' @ (if mDirection ifc = IN then ''in'' else ''out'') @ '']''"

definition list_lines :: "Args \<Rightarrow> 'g Session \<Rightarrow> string list" where
  "list_lines args session =
     forEach (interfaceDatabase session) (\<lambda>name ifc out. out @ [interface_line name ifc])
       [''Available interfaces in '' @ sq (yamlDir args) @ '':'']"

section \<open>Decode mode\<close>

text \<open>
  The receive loop: a decoder turns a packet into a line and may keep state (the stack, whose
  contexts and logic modules it updates). A packet without bytes is not counted.
\<close>

partial_function (option) packet_loop ::
    "'r ireceiver \<Rightarrow> (bytes \<Rightarrow> 'd \<Rightarrow> string \<times> 'd) \<Rightarrow> u64 \<Rightarrow> u64 \<Rightarrow> string list \<Rightarrow> 'd \<Rightarrow> 'r
      \<Rightarrow> (int \<times> string list \<times> 'r) option" where
  "packet_loop ops dec count n out d r =
     (if count = 0 \<or> n < count then
        (case ireceiver_receive ops [] r of
           None \<Rightarrow> None
         | Some (err, pkt, r') \<Rightarrow>
             if err = RECEIVER_ERR_EOF then Some (0, out, ireceiver_close ops r')
             else if err \<noteq> RECEIVER_SUCCESS then Some (2, out, ireceiver_close ops r')
             else if pkt \<noteq> [] then packet_loop ops dec count (n + 1) (out @ [fst (dec pkt d)]) (snd (dec pkt d)) r'
             else packet_loop ops dec count n out d r')
      else Some (0, out, ireceiver_close ops r))"

declare packet_loop.simps [code]

definition decode_stream ::
    "('n, 'w, 'g) env \<Rightarrow> Args \<Rightarrow> (bytes \<Rightarrow> 'd \<Rightarrow> string \<times> 'd) \<Rightarrow> 'd \<Rightarrow> 'w \<Rightarrow> 'w outcome" where
  "decode_stream env args dec d w =
     (case makeReceiver (a_transport args) w of
        None \<Rightarrow> exits 1 [] w
      | Some receiver \<Rightarrow>
          (case any_receiver_open (env_sys env) receiver of
             None \<Rightarrow> None
           | Some (err, r) \<Rightarrow>
               if err \<noteq> RECEIVER_SUCCESS then exits 2 [] (any_receiver_world r)
               else map_option (\<lambda>(code, out, r). Returns (code, out, any_receiver_world r))
                      (packet_loop (any_receiver_ops (env_sys env)) dec (a_count args) 0 [] d r)))"

definition main_decode ::
    "('n, 'w, 'g) env \<Rightarrow> Args \<Rightarrow> (bytes \<Rightarrow> 'd \<Rightarrow> string \<times> 'd) \<Rightarrow> 'd \<Rightarrow> 'w \<Rightarrow> 'w outcome" where
  "main_decode env args dec d w =
     (if hexInput args \<noteq> [] then
        let (ok, raw) = fromHex (hexInput args) [] in
        if \<not> ok then exits 1 [] w else exits 0 [fst (dec raw d)] w
      else decode_stream env args dec d w)"

definition decode_bound :: "'g Session \<Rightarrow> bytes \<Rightarrow> Stack \<Rightarrow> string \<times> Stack" where
  "decode_bound session pkt stack =
     (let (decoded, stack') = decodeStack session stack pkt in (toJson_stack decoded, stack'))"

definition decode_ifaces ::
    "Args \<Rightarrow> 'g Session \<Rightarrow> ProtocolInterface list \<Rightarrow> ProtocolInterface list \<Rightarrow> bytes \<Rightarrow> unit \<Rightarrow> string \<times> unit" where
  "decode_ifaces args session stackPipeline pipeline pkt u =
     ((if stackPipeline \<noteq> [] then toJson_stack (decodeStack_ifaces session stackPipeline pkt)
       else
         let result = Session_decode session (pipeline ! 0) pkt
         in if a_output args = ''json'' then toJson_packet result else toHex (bp_bytes result)), ())"

section \<open>Generate mode\<close>

text \<open>A sender that is not there accepts everything.\<close>

definition sendOrFail :: "'w sys \<Rightarrow> bytes \<Rightarrow> 'w any_sender option \<Rightarrow> (bool \<times> 'w any_sender option) option" where
  "sendOrFail sys bs sender = (case sender of
       None \<Rightarrow> Some (True, None)
     | Some s \<Rightarrow> map_option (\<lambda>(err, s'). (err = SENDER_SUCCESS, Some s')) (any_sender_send sys bs s))"

text \<open>
  \<^verbatim>\<open>for (round = 0; count == 0 || round < count; ++round)\<close>: the body prints, sends and says
  whether to go on.
\<close>

partial_function (option) round_loop ::
    "(string list \<Rightarrow> 'd \<Rightarrow> (bool \<times> string list \<times> 'd) option) \<Rightarrow> u64 \<Rightarrow> u64 \<Rightarrow> string list \<Rightarrow> 'd
      \<Rightarrow> (int \<times> string list \<times> 'd) option" where
  "round_loop body count round out d =
     (if count = 0 \<or> round < count then
        (case body out d of
           None \<Rightarrow> None
         | Some (ok, out', d') \<Rightarrow>
             if \<not> ok then Some (2, out', d') else round_loop body count (round + 1) out' d')
      else Some (0, out, d))"

declare round_loop.simps [code]

definition stack_line :: "Args \<Rightarrow> StackedPacket \<Rightarrow> string" where
  "stack_line args pkt = (if a_output args = ''json'' then toJson_stack pkt else toHex (sp_bytes pkt))"

definition bound_round ::
    "('n, 'w, 'g) env \<Rightarrow> Args \<Rightarrow> string list \<Rightarrow> ('g Session \<times> Stack) \<times> 'w any_sender option
      \<Rightarrow> (bool \<times> string list \<times> ('g Session \<times> Stack) \<times> 'w any_sender option) option" where
  "bound_round env args out d = (case d of ((session, stack), sender) \<Rightarrow>
     (case generateStack (env_dist env) session stack of
        None \<Rightarrow> None
      | Some (pkt, stack', session') \<Rightarrow>
          map_option (\<lambda>(ok, sender'). (ok, out @ [stack_line args pkt], (session', stack'), sender'))
            (sendOrFail (env_sys env) (sp_bytes pkt) sender)))"

definition stack_round ::
    "('n, 'w, 'g) env \<Rightarrow> Args \<Rightarrow> ProtocolInterface list \<Rightarrow> string list \<Rightarrow> 'g Session \<times> 'w any_sender option
      \<Rightarrow> (bool \<times> string list \<times> 'g Session \<times> 'w any_sender option) option" where
  "stack_round env args stackPipeline out d = (case d of (session, sender) \<Rightarrow>
     let (pkt, session') = generateStack_ifaces (env_dist env) session stackPipeline
     in map_option (\<lambda>(ok, sender'). (ok, out @ [stack_line args pkt], session', sender'))
          (sendOrFail (env_sys env) (sp_bytes pkt) sender))"

fun stages_loop ::
    "('n, 'w, 'g) env \<Rightarrow> Args \<Rightarrow> bool \<Rightarrow> Layer list \<Rightarrow> string list \<Rightarrow> 'w any_sender option
      \<Rightarrow> (bool \<times> string list \<times> 'w any_sender option) option" where
  "stages_loop env args isChain [] out sender = Some (True, out, sender)"
| "stages_loop env args isChain (stage # stages) out sender =
     (let jsonOut = (a_output args = ''json'');
          pkt = snd stage;
          out' = (if \<not> isChain \<or> \<not> jsonOut
                  then out @ [if jsonOut then toJson_packet pkt else toHex (bp_bytes pkt)] else out)
      in case sendOrFail (env_sys env) (bp_bytes pkt) sender of
           None \<Rightarrow> None
         | Some (ok, sender') \<Rightarrow>
             if \<not> ok then Some (False, out', sender') else stages_loop env args isChain stages out' sender')"

definition chain_round ::
    "('n, 'w, 'g) env \<Rightarrow> Args \<Rightarrow> ProtocolInterface list \<Rightarrow> string list \<Rightarrow> 'g Session \<times> 'w any_sender option
      \<Rightarrow> (bool \<times> string list \<times> 'g Session \<times> 'w any_sender option) option" where
  "chain_round env args pipeline out d = (case d of (session, sender) \<Rightarrow>
     let (stages, session') = generateChain (env_dist env) session pipeline;
         isChain = (length pipeline > 1);
         out' = (if isChain \<and> a_output args = ''json'' then out @ [toJson_chain stages] else out)
     in map_option (\<lambda>(ok, out'', sender'). (ok, out'', session', sender'))
          (stages_loop env args isChain stages out' sender))"

text \<open>Opening the transport, seeding, the rounds, and closing the transport on every way out.\<close>

definition seed_session :: "('n, 'w, 'g) env \<Rightarrow> Args \<Rightarrow> 'g Session \<Rightarrow> 'g Session" where
  "seed_session env args session =
     Session_seed (env_seeded env) (if seedSet args then a_seed args else env_random env) session"

definition close_world :: "'w sys \<Rightarrow> 'w \<Rightarrow> 'w any_sender option \<Rightarrow> 'w" where
  "close_world sys w sender = (case sender of None \<Rightarrow> w | Some s \<Rightarrow> any_sender_world (any_sender_close sys s))"

definition main_generate ::
    "('n, 'w, 'g) env \<Rightarrow> Args \<Rightarrow> ('w any_sender option \<Rightarrow> 'd) \<Rightarrow> ('d \<Rightarrow> 'w any_sender option)
      \<Rightarrow> (string list \<Rightarrow> 'd \<Rightarrow> (bool \<times> string list \<times> 'd) option) \<Rightarrow> 'w \<Rightarrow> 'w outcome" where
  "main_generate env args start sender_of body w =
     (case makeSender (a_transport args) w of
        None \<Rightarrow> map_option (\<lambda>(code, out, d). Returns (code, out, close_world (env_sys env) w (sender_of d)))
                  (round_loop body (a_count args) 0 [] (start None))
      | Some sender \<Rightarrow>
          (case any_sender_open (env_sys env) sender of
             None \<Rightarrow> None
           | Some (err, s) \<Rightarrow>
               if err \<noteq> SENDER_SUCCESS then exits 2 [] (any_sender_world s)
               else map_option (\<lambda>(code, out, d). Returns (code, out, close_world (env_sys env) w (sender_of d)))
                      (round_loop body (a_count args) 0 [] (start (Some s)))))"

section \<open>main\<close>

definition main_stack_file :: "('n, 'w, 'g) env \<Rightarrow> Args \<Rightarrow> 'g Session \<Rightarrow> 'w \<Rightarrow> 'w outcome" where
  "main_stack_file env args session w =
     (case loadStack (env_files env) (env_ry env) (env_registry env) session (stackFile args) of
        (err, stack) \<Rightarrow>
          if err \<noteq> STACK_SUCCESS then exits 2 [] w
          else case stack of
              None \<Rightarrow> Some Undefined
            | Some stack \<Rightarrow>
                if a_decode args then main_decode env args (decode_bound session) stack w
                else main_generate env args (\<lambda>sender. ((seed_session env args session, stack), sender)) snd
                       (bound_round env args) w)"

fun resolve_all :: "'g Session \<Rightarrow> string list \<Rightarrow> ProtocolInterface list option" where
  "resolve_all session [] = Some []"
| "resolve_all session (name # names) = (case findInterface session name of
     None \<Rightarrow> None
   | Some p \<Rightarrow> map_option (\<lambda>ps. p # ps) (resolve_all session names))"

definition main_ifaces :: "('n, 'w, 'g) env \<Rightarrow> Args \<Rightarrow> 'g Session \<Rightarrow> 'w \<Rightarrow> 'w outcome" where
  "main_ifaces env args session w =
     (case (if a_stack args \<noteq> [] then map_option (\<lambda>ps. (ps, [])) (resolve_all session (a_stack args))
            else if a_chain args \<noteq> [] then map_option (\<lambda>ps. ([], ps)) (resolve_all session (a_chain args))
            else map_option (\<lambda>ps. ([], ps)) (resolve_all session [a_iface args])) of
        None \<Rightarrow> exits 2 [] w
      | Some (stackPipeline, pipeline) \<Rightarrow>
          if a_decode args
          then main_decode env args (decode_ifaces args session stackPipeline pipeline) () w
          else if stackPipeline \<noteq> []
          then main_generate env args (\<lambda>sender. (seed_session env args session, sender)) snd
                 (stack_round env args stackPipeline) w
          else main_generate env args (\<lambda>sender. (seed_session env args session, sender)) snd
                 (chain_round env args pipeline) w)"

definition new_session :: "('n, 'w, 'g) env \<Rightarrow> string \<Rightarrow> 'g Session" where
  "new_session env dir = \<lparr>mProtocolDir = dir, mParser = new_parser dir, mBuilder = \<lparr>mRng = env_rng env\<rparr>\<rparr>"

definition main_args :: "('n, 'w, 'g) env \<Rightarrow> Args \<Rightarrow> 'w \<Rightarrow> 'w outcome" where
  "main_args env args w =
     (if a_validate args then main_validate env args w
      else case Session_parse (env_fs env) (env_files env) (env_ry env) (new_session env (yamlDir args)) of
          None \<Rightarrow> None
        | Some Throws \<Rightarrow> Some Throws
        | Some Undefined \<Rightarrow> Some Undefined
        | Some (Returns (ok, session)) \<Rightarrow>
            if \<not> ok then exits 2 [] w
            else if listInterfaces args then exits 0 (list_lines args session) w
            else if stackFile args \<noteq> [] then main_stack_file env args session w
            else main_ifaces env args session w)"

definition main :: "('n, 'w, 'g) env \<Rightarrow> string list \<Rightarrow> 'w \<Rightarrow> 'w outcome" where
  "main env argv w = (case parseArgs argv initial_level of
       Parsed args lvl \<Rightarrow> main_args env args w
     | Rejected lvl \<Rightarrow> exits 1 [] w
     | Exits lines \<Rightarrow> exits 0 lines w
     | Terminates \<Rightarrow> Some Throws)"

section \<open>The transports keep the contracts of their interfaces\<close>

lemmas sender_ops_defs = any_sender_ops_def PcapSender_ops_def VerilatorSender_ops_def RawSocketSender_ops_def
lemmas receiver_ops_defs = any_receiver_ops_def PcapReceiver_ops_def VerilatorReceiver_ops_def RawSocketReceiver_ops_def

interpretation any_sender: packet_sender "any_sender_ops sys" any_sender_opened for sys
proof (unfold_locales, goal_cases)
  case (1 s p)
  then show ?case
    using pcap_sender.send_closed [of _ sys p] verilator_sender.send_closed [of _ sys p] raw_sender.send_closed [of _ sys p]
    by (cases s) (fastforce simp: sender_ops_defs)+
next
  case (2 s p c s')
  then show ?case
    using pcap_sender.send_opened [of _ sys p] verilator_sender.send_opened [of _ sys p] raw_sender.send_opened [of _ sys p]
    by (cases s) (fastforce simp: sender_ops_defs)+
next
  case (3 s c s')
  then show ?case
    using pcap_sender.open_result [of sys] verilator_sender.open_result [of sys] raw_sender.open_result [of sys]
    by (cases s) (fastforce simp: sender_ops_defs)+
next
  case (4 s)
  then show ?case
    using pcap_sender.close_closes [of sys] verilator_sender.close_closes [of sys] raw_sender.close_closes [of sys]
    by (cases s) (fastforce simp: sender_ops_defs)+
qed

interpretation any_receiver: packet_receiver "any_receiver_ops sys" any_receiver_opened for sys
proof (unfold_locales, goal_cases)
  case (1 s p)
  then show ?case
    using pcap_receiver.receive_closed [of _ sys p] verilator_receiver.receive_closed [of _ sys p]
      raw_receiver.receive_closed [of _ sys p]
    by (cases s) (fastforce simp: receiver_ops_defs)+
next
  case (2 s p c p' s')
  then show ?case
    using pcap_receiver.receive_opened [of _ sys p] verilator_receiver.receive_opened [of _ sys p]
      raw_receiver.receive_opened [of _ sys p]
    by (cases s) (fastforce simp: receiver_ops_defs)+
next
  case (3 s c s')
  then show ?case
    using pcap_receiver.open_result [of sys] verilator_receiver.open_result [of sys] raw_receiver.open_result [of sys]
    by (cases s) (fastforce simp: receiver_ops_defs)+
next
  case (4 s)
  then show ?case
    using pcap_receiver.close_closes [of sys] verilator_receiver.close_closes [of sys] raw_receiver.close_closes [of sys]
    by (cases s) (fastforce simp: receiver_ops_defs)+
qed

section \<open>Counted rounds\<close>

text \<open>The loop with a limit is that many rounds, ended early by a round that fails.\<close>

fun run_rounds ::
    "(string list \<Rightarrow> 'd \<Rightarrow> (bool \<times> string list \<times> 'd) option) \<Rightarrow> nat \<Rightarrow> string list \<Rightarrow> 'd
      \<Rightarrow> (int \<times> string list \<times> 'd) option" where
  "run_rounds body 0 out d = Some (0, out, d)"
| "run_rounds body (Suc n) out d = (case body out d of
     None \<Rightarrow> None
   | Some (ok, out', d') \<Rightarrow> if \<not> ok then Some (2, out', d') else run_rounds body n out' d')"

lemma round_loop_rounds:
  assumes "i \<le> count" and "count \<noteq> 0"
  shows "round_loop body count i out d = run_rounds body (unat count - unat i) out d"
  using assms
proof (induction "unat count - unat i" arbitrary: i out d)
  case 0
  then have "i = count"
    by (simp add: word_le_nat_alt unsigned_word_eqI)
  then show ?case
    using 0 by (simp add: round_loop.simps)
next
  case (Suc n)
  then have "i < count"
    by (simp add: word_less_nat_alt)
  then have "unat (i + 1) = Suc (unat i)" "i + 1 \<le> count"
    by (simp_all add: word_increment)
  moreover have "unat count - unat i = Suc (unat count - unat (i + 1))"
    using calculation \<open>i < count\<close> by (simp add: word_less_nat_alt Suc_diff_le)
  ultimately show ?case
    using Suc \<open>i < count\<close> by (auto simp: round_loop.simps [of _ _ i] split: option.splits)
qed

text \<open>Rounds that never fail and keep an invariant: \<open>k\<close> lines each.\<close>

lemma run_rounds_lines:
  assumes "\<And>out d. I d \<Longrightarrow> \<exists>ls d'. body out d = Some (True, out @ ls, d') \<and> length ls = k \<and> I d'" and "I d"
  shows "\<exists>ls d'. run_rounds body n out d = Some (0, out @ ls, d') \<and> length ls = n * k \<and> I d'"
  using assms(2)
proof (induction n arbitrary: out d)
  case (Suc n)
  obtain ls d1 where one: "body out d = Some (True, out @ ls, d1)" "length ls = k" "I d1"
    using assms(1) [OF Suc.prems] by blast
  obtain ls' d2 where "run_rounds body n (out @ ls) d1 = Some (0, (out @ ls) @ ls', d2)" "length ls' = n * k" "I d2"
    using Suc.IH [OF one(3)] by blast
  then show ?case
    using one by (intro exI [of _ "ls @ ls'"] exI [of _ d2]) simp
qed simp

lemma stages_loop_lines:
  "\<exists>ls. stages_loop env args isChain stages out None = Some (True, out @ ls, None) \<and>
     length ls = (if \<not> isChain \<or> a_output args \<noteq> ''json'' then length stages else 0)"
proof (induction stages arbitrary: out)
  case (Cons stage stages)
  let ?l = "if \<not> isChain \<or> a_output args \<noteq> ''json''
    then [if a_output args = ''json'' then toJson_packet (snd stage) else toHex (bp_bytes (snd stage))] else []"
  obtain ls where "stages_loop env args isChain stages (out @ ?l) None = Some (True, (out @ ?l) @ ls, None)"
      "length ls = (if \<not> isChain \<or> a_output args \<noteq> ''json'' then length stages else 0)"
    using Cons.IH by blast
  then show ?case
    by (intro exI [of _ "?l @ ls"]) (auto simp: sendOrFail_def Let_def split: if_splits)
qed simp
lemma main_generate_counted:
  assumes "makeSender (a_transport args) w = None" and "a_count args \<noteq> 0"
    and "\<And>out d. I d \<Longrightarrow> \<exists>ls d'. body out d = Some (True, out @ ls, d') \<and> length ls = k \<and> I d'" and "I (start None)"
    and "\<And>d. I d \<Longrightarrow> sender_of d = None"
  shows "\<exists>ls. main_generate env args start sender_of body w = exits 0 ls w \<and> length ls = unat (a_count args) * k"
proof -
  obtain ls d where "run_rounds body (unat (a_count args)) [] (start None) = Some (0, [] @ ls, d)"
      "length ls = unat (a_count args) * k" "I d"
    using run_rounds_lines [of I body k "start None", OF assms(3,4)] by blast
  then show ?thesis
    using assms(1,2,5) round_loop_rounds [of 0 "a_count args" body]
    by (auto simp: main_generate_def exits_def close_world_def)
qed

definition layer_names :: "Args \<Rightarrow> string list" where
  "layer_names args =
     (if a_stack args \<noteq> [] then a_stack args else if a_chain args \<noteq> [] then a_chain args else [a_iface args])"

lemma resolve_all_length: "resolve_all s ns = Some ps \<Longrightarrow> length ps = length ns"
  by (induction ns arbitrary: ps) (auto split: option.splits)

lemma main_ifaces_resolved:
  assumes "resolve_all session (layer_names args) = Some ps"
  shows "main_ifaces env args session w =
    (if a_decode args then main_decode env args
       (if a_stack args \<noteq> [] then decode_ifaces args session ps [] else decode_ifaces args session [] ps) () w
     else main_generate env args (\<lambda>sender. (seed_session env args session, sender)) snd
       (if a_stack args \<noteq> [] then stack_round env args ps else chain_round env args ps) w)"
  using assms resolve_all_length [OF assms] by (auto simp: main_ifaces_def layer_names_def)

lemma main_ifaces_unresolved:
  "resolve_all session (layer_names args) = None \<Longrightarrow> main_ifaces env args session w = exits 2 [] w"
  by (auto simp: main_ifaces_def layer_names_def)

lemma stack_round_line:
  "\<exists>ls d'. stack_round env args ps out (s, None) = Some (True, out @ ls, d') \<and> length ls = 1 \<and> snd d' = None"
  by (auto simp: stack_round_def sendOrFail_def split_beta)

lemma chain_round_lines:
  "\<exists>ls d'. chain_round env args ps out (s, None) = Some (True, out @ ls, d') \<and>
     length ls = (if length ps > 1 \<and> a_output args = ''json'' then 1 else length ps) \<and> snd d' = None"
proof -
  obtain stages s' where g: "generateChain (env_dist env) s ps = (stages, s')"
    by fastforce
  then have len: "length stages = length ps"
    using chained_length [OF generateChain_chained [of "env_dist env" s ps]] by simp
  let ?out = "if length ps > 1 \<and> a_output args = ''json'' then out @ [toJson_chain stages] else out"
  obtain ls where "stages_loop env args (length ps > 1) stages ?out None = Some (True, ?out @ ls, None)"
      "length ls = (if \<not> length ps > 1 \<or> a_output args \<noteq> ''json'' then length stages else 0)"
    using stages_loop_lines by blast
  then show ?thesis
    by (auto simp: chain_round_def g len)
qed

lemma generateStack_keeps_wired:
  assumes "wired (contexts (mLayers stack))"
  shows "\<exists>pkt stack' s'. generateStack dist s stack = Some (pkt, stack', s') \<and> wired (contexts (mLayers stack'))"
proof -
  obtain ls b ls' where w: "wired (contexts ls)" and len: "length ls' = length ls"
    and shape: "\<forall>i<length ls. ctx_shape (sl_context (ls' ! i)) = ctx_shape (sl_context (ls ! i))"
    and gen: "generateStack dist s stack =
      Some (\<lparr>sp_bytes = concat (map (bp_bytes \<circ> pack_layer) ls'),
             sp_layers = map (\<lambda>l. (serviceName l, pack_layer l)) ls'\<rparr>,
            stack\<lparr>mLayers := ls'\<rparr>, s\<lparr>mBuilder := b\<rparr>)"
    using generateStack_wired [OF assms, of dist s] by blast
  have "map ctx_shape (contexts ls) = map ctx_shape (contexts ls')"
    using shape len by (intro nth_equalityI) (simp_all add: contexts_def)
  from shape_wired [OF this w] show ?thesis
    using gen by simp
qed
section \<open>Results of the loops\<close>

lemma round_loop_code:
  assumes "round_loop body count i out d = Some r"
  shows "fst r \<in> {0, 2}"
proof (rule round_loop.raw_induct [OF _ assms, where P = "\<lambda>body count i out d r. fst r \<in> {0, 2}"], goal_cases)
  case (1 loop body count i out d r)
  note IH = 1(1)
  from 1(2) show ?case
    by (auto split: if_splits prod.splits option.splits dest!: IH)
qed

lemma packet_loop_code:
  assumes "packet_loop ops dec count n out d r = Some x"
  shows "fst x \<in> {0, 2}"
proof (rule packet_loop.raw_induct [OF _ assms, where P = "\<lambda>ops dec count n out d r x. fst x \<in> {0, 2}"], goal_cases)
  case (1 loop ops dec count n out d r x)
  note IH = 1(1)
  from 1(2) show ?case
    by (auto split: if_splits prod.splits option.splits dest!: IH)
qed

text \<open>
  The argument errors that are found after the command line was accepted: a text for \<^verbatim>\<open>--hex\<close> that is refused, and
  decode mode with neither text nor transport.
\<close>

definition argument_error :: "Args \<Rightarrow> 'w \<Rightarrow> bool" where
  "argument_error args w \<longleftrightarrow> a_decode args \<and>
     (if hexInput args \<noteq> [] then \<not> fst (fromHex (hexInput args) []) else makeReceiver (a_transport args) w = None)"

text \<open>
  An outcome with one of the documented exit codes; exit code 1 is an argument error \<open>P\<close> and has no effect on the
  transports.
\<close>

definition proper_outcome :: "('w \<Rightarrow> bool) \<Rightarrow> 'w \<Rightarrow> 'w outcome \<Rightarrow> bool" where
  "proper_outcome P w r = (case r of
     Some (Returns (code, lines, w')) \<Rightarrow> code \<in> {0, 1, 2} \<and> (code = 1 \<longrightarrow> lines = [] \<and> w' = w \<and> P w) | _ \<Rightarrow> True)"

lemma proper_exits [simp]:
  "proper_outcome P w (exits code lines w') \<longleftrightarrow> code \<in> {0, 1, 2} \<and> (code = 1 \<longrightarrow> lines = [] \<and> w' = w \<and> P w)"
  "proper_outcome P w None" "proper_outcome P w (Some Throws)" "proper_outcome P w (Some Undefined)"
  by (simp_all add: proper_outcome_def exits_def)

lemma main_decode_proper: "a_decode args \<Longrightarrow> proper_outcome (argument_error args) w (main_decode env args dec d w)"
  by (auto simp: main_decode_def decode_stream_def proper_outcome_def argument_error_def exits_def Let_def
    split: option.splits prod.splits dest!: packet_loop_code)

lemma main_generate_proper: "proper_outcome P w (main_generate env args start sender_of body w)"
  by (auto simp: main_generate_def proper_outcome_def exits_def split: option.splits prod.splits dest!: round_loop_code)

lemma proper_bind: "(\<And>x. proper_outcome P w (Some (f x))) \<Longrightarrow> proper_outcome P w (Some (run_bind r f))"
  by (cases r) (simp_all add: proper_outcome_def)

lemma main_validate_proper: "proper_outcome P w (main_validate env args w)"
  unfolding main_validate_def split_beta Let_def
  by (intro proper_bind) (simp add: proper_outcome_def)

lemma main_args_proper: "proper_outcome (argument_error args) w (main_args env args w)"
  by (auto simp: main_args_def main_stack_file_def main_ifaces_def main_validate_proper main_decode_proper
      main_generate_proper split: option.splits run.splits prod.splits)

section \<open>What a seeded run depends on\<close>

text \<open>Two sessions with the same databases differ only in the state of the generator.\<close>

lemma same_parser_views:
  assumes "mParser s' = mParser s"
  shows "findInterface s' = findInterface s" and "interfaceDatabase s' = interfaceDatabase s"
    and "loadStack px ry reg s' = loadStack px ry reg s" and "Session_decode s' = Session_decode s"
    and "decodeStack_ifaces s' = decodeStack_ifaces s" and "decodeStack s' = decodeStack s"
proof -
  have "decode_layers s' bs is ls off acc = decode_layers s bs is ls off acc" for bs "is" ls off acc
    by (induction "is" arbitrary: ls off acc)
      (auto simp: interfaceForLayer_parser [OF assms] Let_def split: option.splits)
  then show "decodeStack s' = decodeStack s"
    by (simp add: decodeStack_def fun_eq_iff)
qed (simp_all add: fun_eq_iff findInterface_def interfaceDatabase_def loadStack_def serviceDatabase_def
    Session_decode_def decodeStack_ifaces_def varDatabase_def assms)

lemma resolve_all_parser: "mParser s' = mParser s \<Longrightarrow> resolve_all s' ns = resolve_all s ns"
  by (induction ns) (simp_all add: same_parser_views(1) [of s' s] split: option.split)

lemma seed_session_parser:
  fixes env :: "('n, 'w, 'g) env"
  assumes "seedSet args"
  shows "seed_session (env\<lparr>env_random := r, env_rng := g\<rparr>) args (s\<lparr>mBuilder := b\<rparr>) = seed_session env args s"
  using assms by (simp add: seed_session_def Session_seed_def seed_def)
lemma decoders_parser:
  assumes "mParser s' = mParser s"
  shows "decode_bound s' = decode_bound s" and "decode_ifaces args s' = decode_ifaces args s"
    and "list_lines args s' = list_lines args s"
  by (simp_all add: fun_eq_iff decode_bound_def decode_ifaces_def list_lines_def same_parser_views [OF assms])

text \<open>The environment enters the modes only through the parts they use.\<close>

lemma env_irrelevant:
  fixes env :: "('n, 'w, 'g) env" and r g
  defines "env' \<equiv> env\<lparr>env_random := r, env_rng := g\<rparr>"
  shows "main_validate env' = main_validate env" and "bound_round env' = bound_round env"
    and "stack_round env' = stack_round env" and "chain_round env' = chain_round env"
proof -
  have "stages_loop env' args isChain stages out sender = stages_loop env args isChain stages out sender"
    for args isChain stages out sender
    by (induction stages arbitrary: out sender) (auto simp: env'_def Let_def split: option.splits)
  then show "chain_round env' = chain_round env"
    by (simp add: fun_eq_iff chain_round_def env'_def Let_def split_beta)
qed (simp_all add: fun_eq_iff env'_def main_validate_def bound_round_def stack_round_def split: option.split cong: if_cong)

lemma main_modes_irrelevant:
  fixes env :: "('n, 'w, 'g) env" and dec :: "bytes \<Rightarrow> 'd \<Rightarrow> string \<times> 'd"
    and start :: "'w any_sender option \<Rightarrow> 'e" and r g
  defines "env' \<equiv> env\<lparr>env_random := r, env_rng := g\<rparr>"
  shows "main_decode env' args dec = main_decode env args dec"
    and "main_generate env' args start = main_generate env args start"
  by (simp_all add: fun_eq_iff env'_def main_decode_def decode_stream_def main_generate_def split: option.split)

lemma main_stack_file_seeded:
  fixes env :: "('n, 'w, 'g) env"
  assumes "seedSet args"
  shows "main_stack_file (env\<lparr>env_random := r, env_rng := g\<rparr>) args (s\<lparr>mBuilder := b\<rparr>) w = main_stack_file env args s w"
  by (simp add: main_stack_file_def same_parser_views(3) [of "s\<lparr>mBuilder := b\<rparr>" s] seed_session_parser [OF assms]
      decoders_parser(1) [of "s\<lparr>mBuilder := b\<rparr>" s] env_irrelevant main_modes_irrelevant split: option.split prod.split)

lemma main_ifaces_seeded:
  fixes env :: "('n, 'w, 'g) env"
  assumes "seedSet args"
  shows "main_ifaces (env\<lparr>env_random := r, env_rng := g\<rparr>) args (s\<lparr>mBuilder := b\<rparr>) w = main_ifaces env args s w"
proof (cases "resolve_all s (layer_names args)")
  case None
  then show ?thesis
    by (simp add: main_ifaces_unresolved resolve_all_parser [of "s\<lparr>mBuilder := b\<rparr>" s])
next
  case (Some ps)
  then have "resolve_all (s\<lparr>mBuilder := b\<rparr>) (layer_names args) = Some ps"
    by (simp add: resolve_all_parser [of "s\<lparr>mBuilder := b\<rparr>" s])
  then show ?thesis
    by (simp add: main_ifaces_resolved [OF Some] main_ifaces_resolved seed_session_parser [OF assms]
      decoders_parser(2) [of "s\<lparr>mBuilder := b\<rparr>" s] env_irrelevant main_modes_irrelevant)
qed

lemma Session_parse_new:
  "Session_parse (env_fs env) (env_files env) (env_ry env) (new_session (env\<lparr>env_random := r, env_rng := g\<rparr>) dir) =
     map_option (\<lambda>x. run_bind x (\<lambda>(ok, s). Returns (ok, s\<lparr>mBuilder := \<lparr>mRng = g\<rparr>\<rparr>)))
       (Session_parse (env_fs env) (env_files env) (env_ry env) (new_session env dir))"
  by (simp add: Session_parse_def new_session_def split: option.split run.split)

lemma main_args_seeded:
  fixes env :: "('n, 'w, 'g) env"
  assumes "seedSet args"
  shows "main_args (env\<lparr>env_random := r, env_rng := g\<rparr>) args w = main_args env args w"
proof (cases "Session_parse (env_fs env) (env_files env) (env_ry env) (new_session env (yamlDir args))")
  case None
  then show ?thesis
    by (simp add: main_args_def env_irrelevant Session_parse_new)
next
  case (Some x)
  then show ?thesis
    by (cases x) (auto simp: main_args_def env_irrelevant Session_parse_new main_ifaces_seeded [OF assms]
        main_stack_file_seeded [OF assms] decoders_parser(3) [of "s\<lparr>mBuilder := b\<rparr>" s for s b])
qed
section \<open>A run on which the properties are evaluated\<close>

text \<open>One protocol file with a service, two variables and one interface.\<close>

definition ex_protocol :: yaml where
  "ex_protocol = YMap [(''service'', YVal ''s''),
     (''vars'', YSeq [YMap [(''var'', YVal ''x''), (''size'', YVal ''8''), (''expected'', YMap [(''value'', YVal ''7'')])],
                      YMap [(''var'', YVal ''y''), (''size'', YVal ''4'')]]),
     (''entities'', YSeq [YMap [(''entity'', YVal ''e''),
        (''interfaces'', YSeq [YMap [(''interface'', YVal ''i''), (''dir'', YVal ''out''),
           (''vars'', YSeq [YMap [(''var_ref'', YVal ''x'')], YMap [(''var_ref'', YVal ''y'')]])]])]])]"

definition ex_stack_file :: yaml where
  "ex_stack_file = YMap [(''stack'', YVal ''one''), (''layers'', YSeq [YMap [(''service'', YVal ''s''), (''entity'', YVal ''e'')]])]"

definition ex_env :: "(yaml, ex_world, nat) env" where
  "ex_env = \<lparr>env_fs = ex_fs, env_entries = (\<lambda>d. Some [''d/readme.md'', ''d/a.yaml'']), env_read = (\<lambda>p. Some ''doc''),
     env_files = files_api [(''d/a.yaml'', ''doc''), (''s.yaml'', ''stack'')],
     env_ry = yaml_api (\<lambda>t. if t = ''stack'' then ex_stack_file else ex_protocol), env_keys = ex_keys,
     env_sys = ex_sys, env_dist = ex_dist, env_seeded = unat, env_random = 5, env_rng = 0,
     env_registry = shipped_registry\<rparr>"

definition ex_loaded :: "nat Session" where
  "ex_loaded = (case Session_parse (env_fs ex_env) (env_files ex_env) (env_ry ex_env) (new_session ex_env ''d'') of
     Some (Returns (ok, s)) \<Rightarrow> s | _ \<Rightarrow> new_session ex_env ''d'')"

lemma ex_loaded_ok:
  "Session_parse (env_fs ex_env) (env_files ex_env) (env_ry ex_env) (new_session ex_env ''d'') = Some (Returns (True, ex_loaded))"
  by code_simp

definition ex_run_args :: Args where
  "ex_run_args = default_args\<lparr>yamlDir := ''d'', a_stack := [''s::e::i''], a_seed := 42, seedSet := True\<rparr>"

lemma ex_run_parsed:
  "parseArgs [''--yaml-dir'', ''d'', ''--stack'', ''s::e::i'', ''--seed'', ''42''] initial_level = Parsed ex_run_args Warn"
  by code_simp

lemma ex_loaded_resolves: "resolve_all ex_loaded (layer_names ex_run_args) \<noteq> None"
  by code_simp

lemma ex_loaded_vars: "sane_widths (varDatabase ex_loaded)" "consistent_db (varDatabase ex_loaded)"
  by code_simp+
section \<open>Properties\<close>

text \<open>A run that works on interfaces, after the protocol files were parsed.\<close>

definition interface_run :: "('n, 'w, 'g) env \<Rightarrow> Args \<Rightarrow> 'g Session \<Rightarrow> bool" where
  "interface_run env args session \<longleftrightarrow> \<not> a_validate args \<and> \<not> listInterfaces args \<and> stackFile args = [] \<and>
     Session_parse (env_fs env) (env_files env) (env_ry env) (new_session env (yamlDir args)) = Some (Returns (True, session))"

lemma interface_run_main: "interface_run env args session \<Longrightarrow> main_args env args w = main_ifaces env args session w"
  by (simp add: interface_run_def main_args_def)

text \<open>C4: For layers given with \<^verbatim>\<open>--stack\<close> the tool's two output formats agree through its decoder: the
  one-packet run with \<^verbatim>\<open>--output hex\<close> prints one line, and giving that line to \<^verbatim>\<open>--hex\<close> (when
  it is not empty) prints and returns exactly what the same run with \<^verbatim>\<open>--output json\<close> does.\<close>

theorem hex_cli_round_trip:
  assumes "interface_run env args session" and "\<not> a_decode args" and "makeSender (a_transport args) w = None"
    and "a_count args = 1" and "a_stack args \<noteq> []" and "resolve_all session (a_stack args) = Some layers"
    and "uniform_dist (env_dist env)" and "sane_widths (varDatabase session)" and "consistent_db (varDatabase session)"
  shows "\<exists>h. main_args env (args\<lparr>a_output := ''hex''\<rparr>) w = exits 0 [h] w \<and>
    (h \<noteq> [] \<longrightarrow> main_args env (args\<lparr>a_decode := True, hexInput := h\<rparr>) w = main_args env (args\<lparr>a_output := ''json''\<rparr>) w)"
proof -
  let ?s = "seed_session env args session"
  let ?pkt = "fst (generateStack_ifaces (env_dist env) ?s layers)"
  have run: "interface_run env (args\<lparr>a_output := f\<rparr>) session"
    "interface_run env (args\<lparr>a_decode := True, hexInput := h\<rparr>) session" for f h
    using assms(1) by (simp_all add: interface_run_def)
  have res: "resolve_all session (layer_names (args\<lparr>a_output := f\<rparr>)) = Some layers"
    "resolve_all session (layer_names (args\<lparr>a_decode := True, hexInput := h\<rparr>)) = Some layers" for f h
    using assms(5,6) by (simp_all add: layer_names_def)
  have db: "varDatabase ?s = varDatabase session"
    by (simp add: seed_session_def Session_seed_def varDatabase_def)
  have gen: "main_args env (args\<lparr>a_output := f\<rparr>) w = exits 0 [stack_line (args\<lparr>a_output := f\<rparr>) ?pkt] w" for f
    unfolding interface_run_main [OF run(1)] main_ifaces_resolved [OF res(1)]
    using assms(2-5) round_loop_rounds [of 0 1 "stack_round env (args\<lparr>a_output := f\<rparr>) layers" "[]"]
    by (simp add: main_generate_def exits_def stack_round_def sendOrFail_def split_beta close_world_def seed_session_def)
  have "decodeStack_ifaces session layers (sp_bytes ?pkt) = ?pkt"
    using generateStack_ifaces_decodes [OF assms(7), of ?s layers] assms(8,9) by (simp add: db decodeStack_ifaces_def)
  moreover have "layers \<noteq> []"
    using resolve_all_length [OF assms(6)] assms(5) by auto
  ultimately have "main_args env (args\<lparr>a_decode := True, hexInput := toHex (sp_bytes ?pkt)\<rparr>) w = exits 0 [toJson_stack ?pkt] w"
    if "toHex (sp_bytes ?pkt) \<noteq> []"
    unfolding interface_run_main [OF run(2)] main_ifaces_resolved [OF res(2)]
    using that assms(5) by (simp add: main_decode_def fromHex_toHex decode_ifaces_def)
  then show ?thesis
    unfolding gen by (intro exI [of _ "toHex (sp_bytes ?pkt)"]) (simp add: stack_line_def)
qed

theorem hex_cli_round_trip_witness:
  "\<exists>h. main_args ex_env (ex_run_args\<lparr>a_output := ''hex''\<rparr>) ([], [], 0) = exits 0 [h] ([], [], 0) \<and>
    (h \<noteq> [] \<longrightarrow> main_args ex_env (ex_run_args\<lparr>a_decode := True, hexInput := h\<rparr>) ([], [], 0) =
      main_args ex_env (ex_run_args\<lparr>a_output := ''json''\<rparr>) ([], [], 0))"
proof -
  have "interface_run ex_env ex_run_args ex_loaded" "\<not> a_decode ex_run_args" "a_count ex_run_args = 1"
    "a_stack ex_run_args \<noteq> []" "makeSender (a_transport ex_run_args) w = None" "layer_names ex_run_args = a_stack ex_run_args"
    "env_dist ex_env = ex_dist" for w :: ex_world
    using ex_loaded_ok
    by (simp_all add: interface_run_def ex_run_args_def default_args_def makeSender_def split_transport_def layer_names_def ex_env_def)
  moreover from this obtain layers where "resolve_all ex_loaded (a_stack ex_run_args) = Some layers"
    using ex_loaded_resolves by auto
  ultimately show ?thesis
    using ex_loaded_vars ex_dist_uniform by (intro hex_cli_round_trip) simp_all
qed

text \<open>C30: A run with \<^verbatim>\<open>--seed\<close> is reproducible: exit code, output and effects do not depend on
  \<^verbatim>\<open>std::random_device\<close> nor on the state a generator is constructed with.\<close>

theorem seeded_run_reproducible:
  fixes env :: "('n, 'w, 'g) env"
  assumes "parseArgs argv initial_level = Parsed args lvl" and "seedSet args"
  shows "main (env\<lparr>env_random := r, env_rng := g\<rparr>) argv w = main env argv w"
  by (simp add: main_def assms(1) main_args_seeded [OF assms(2)])

theorem seeded_run_reproducible_witness:
  "main (ex_env\<lparr>env_random := 9, env_rng := 3\<rparr>) [''--yaml-dir'', ''d'', ''--stack'', ''s::e::i'', ''--seed'', ''42''] ([], [], 0) =
   main ex_env [''--yaml-dir'', ''d'', ''--stack'', ''s::e::i'', ''--seed'', ''42''] ([], [], 0)"
  by (rule seeded_run_reproducible [OF ex_run_parsed]) (simp add: ex_run_args_def)

text \<open>C31: A counted run without a transport comes to an end with exit code 0 and the documented number of
  lines: one per round for \<^verbatim>\<open>--stack\<close> and for a JSON chain, otherwise one per stage and round.\<close>

theorem counted_run_output:
  assumes "interface_run env args session" and "\<not> a_decode args" and "makeSender (a_transport args) w = None"
    and "a_count args \<noteq> 0" and "resolve_all session (layer_names args) = Some layers"
  shows "\<exists>ls. main_args env args w = exits 0 ls w \<and> length ls = unat (a_count args) *
    (if a_stack args \<noteq> [] \<or> length layers > 1 \<and> a_output args = ''json'' then 1 else length layers)"
proof -
  let ?start = "\<lambda>sender. (seed_session env args session, sender)"
  have "\<exists>ls. main_generate env args ?start snd (stack_round env args layers) w = exits 0 ls w \<and>
      length ls = unat (a_count args) * 1"
    using stack_round_line [of env args layers]
    by (intro main_generate_counted [OF assms(3,4), where I = "\<lambda>d. snd d = None"]) auto
  moreover have "\<exists>ls. main_generate env args ?start snd (chain_round env args layers) w = exits 0 ls w \<and>
      length ls = unat (a_count args) * (if length layers > 1 \<and> a_output args = ''json'' then 1 else length layers)"
    using chain_round_lines [of env args layers]
    by (intro main_generate_counted [OF assms(3,4), where I = "\<lambda>d. snd d = None"]) auto
  ultimately show ?thesis
    using assms(2) by (cases "a_stack args = []")
      (simp_all add: interface_run_main [OF assms(1)] main_ifaces_resolved [OF assms(5)] split: if_splits)
qed

theorem counted_run_output_witness:
  "\<exists>ls. main_args ex_env (ex_run_args\<lparr>a_count := 3\<rparr>) ([], [], 0) = exits 0 ls ([], [], 0) \<and> length ls = 3"
proof -
  obtain layers where "resolve_all ex_loaded (layer_names (ex_run_args\<lparr>a_count := 3\<rparr>)) = Some layers"
    using ex_loaded_resolves by (auto simp: layer_names_def ex_run_args_def)
  moreover have "interface_run ex_env (ex_run_args\<lparr>a_count := 3\<rparr>) ex_loaded" "\<not> a_decode (ex_run_args\<lparr>a_count := 3\<rparr>)"
    "makeSender (a_transport (ex_run_args\<lparr>a_count := 3\<rparr>)) w = None" "a_stack (ex_run_args\<lparr>a_count := 3\<rparr>) \<noteq> []" for w :: ex_world
    using ex_loaded_ok by (simp_all add: interface_run_def ex_run_args_def default_args_def makeSender_def split_transport_def)
  ultimately show ?thesis
    using counted_run_output [of ex_env "ex_run_args\<lparr>a_count := 3\<rparr>" ex_loaded "([], [], 0)" layers] by simp
qed

text \<open>C32: What the exit code of a run says that returns from \<^verbatim>\<open>main\<close> (it can also end in an exception
  nothing catches, or not end). It is 0, 1 or 2. A command line that is rejected gives 1. And 1 means an argument error: the
  command line was rejected, or decode mode was asked for with a \<^verbatim>\<open>--hex\<close> text that is not accepted or without any
  transport; then nothing was written to standard output, and no transport was opened or used (the YAML
  files may have been read).\<close>

theorem exit_codes:
  assumes "main env argv w = Some (Returns (code, lines, w'))"
  shows "code \<in> {0, 1, 2} \<and> ((\<exists>lvl. parseArgs argv initial_level = Rejected lvl) \<longrightarrow> code = 1) \<and>
    (code = 1 \<longrightarrow> lines = [] \<and> w' = w \<and>
      ((\<exists>lvl. parseArgs argv initial_level = Rejected lvl) \<or>
       (\<exists>args lvl. parseArgs argv initial_level = Parsed args lvl \<and> argument_error args w)))"
proof -
  have "proper_outcome (\<lambda>w. \<exists>args lvl. parseArgs argv initial_level = Parsed args lvl \<and> argument_error args w) w (main_args env args w)"
    if "parseArgs argv initial_level = Parsed args lvl" for args lvl
    using main_args_proper [of args w env] that by (auto simp: proper_outcome_def split: option.splits run.splits)
  then show ?thesis
    using assms by (auto simp: main_def proper_outcome_def exits_def split: args_end.splits)
qed

theorem exit_codes_witness:
  "main ex_env [''--frobnicate''] ([], [], 0) = exits 1 [] ([], [], 0) \<and>
   (\<exists>lvl. parseArgs [''--frobnicate''] initial_level = Rejected lvl)"
proof -
  have run: "main ex_env [''--frobnicate''] ([], [], 0) = exits 1 [] ([], [], 0)"
    and "\<not> (\<exists>args lvl. parseArgs [''--frobnicate''] initial_level = Parsed args lvl)"
    by (simp_all add: main_def parseArgs_def nextVal_def)
  then show ?thesis
    using exit_codes [of ex_env "[''--frobnicate'']" "([], [], 0)" 1 "[]" "([], [], 0)"] by (simp add: exits_def)
qed

text \<open>A stack file that loads can be run: a counted run without a transport ends with exit code 0 and
  one line per round, because every round leaves the stack linked as it was.\<close>

lemma stack_file_run_output:
  assumes "\<not> a_validate args" and "\<not> listInterfaces args" and "stackFile args \<noteq> []" and "\<not> a_decode args"
    and "Session_parse (env_fs env) (env_files env) (env_ry env) (new_session env (yamlDir args)) = Some (Returns (True, session))"
    and "loadStack (env_files env) (env_ry env) (env_registry env) session (stackFile args) = (c, Some stack)"
    and "makeSender (a_transport args) w = None" and "a_count args \<noteq> 0"
  shows "\<exists>ls. main_args env args w = exits 0 ls w \<and> length ls = unat (a_count args)"
proof -
  let ?start = "\<lambda>sender. ((seed_session env args session, stack), sender)"
  let ?I = "\<lambda>d. snd d = None \<and> wired (contexts (mLayers (snd (fst d))))"
  note loaded = loadStack_success(1,2) [OF assms(6)]
  have "\<exists>ls. main_generate env args ?start snd (bound_round env args) w = exits 0 ls w \<and>
      length ls = unat (a_count args) * 1"
  proof (rule main_generate_counted [OF assms(7,8), where I = ?I])
    show "\<exists>ls d'. bound_round env args out d = Some (True, out @ ls, d') \<and> length ls = 1 \<and> ?I d'" if "?I d" for out d
      using that generateStack_keeps_wired [of "snd (fst d)" "env_dist env" "fst (fst d)"]
      by (cases d; cases "fst d") (auto simp: bound_round_def sendOrFail_def)
  qed (use loaded in simp_all)
  then show ?thesis
    using assms(1-4) loaded by (simp add: main_args_def assms(5) main_stack_file_def assms(6))
qed

lemma stack_file_run_output_example:
  "\<exists>ls. main_args ex_env (ex_run_args\<lparr>a_stack := [], stackFile := ''s.yaml'', a_count := 2\<rparr>) ([], [], 0) =
     exits 0 ls ([], [], 0) \<and> length ls = 2"
proof -
  let ?args = "ex_run_args\<lparr>a_stack := [], stackFile := ''s.yaml'', a_count := 2\<rparr>"
  have "snd (loadStack (env_files ex_env) (env_ry ex_env) (env_registry ex_env) ex_loaded ''s.yaml'') \<noteq> None"
    by code_simp
  then obtain c stack where "loadStack (env_files ex_env) (env_ry ex_env) (env_registry ex_env) ex_loaded ''s.yaml'' = (c, Some stack)"
    by (cases "loadStack (env_files ex_env) (env_ry ex_env) (env_registry ex_env) ex_loaded ''s.yaml''") auto
  then show ?thesis
    using stack_file_run_output [of ?args ex_env ex_loaded c stack "([], [], 0)"] ex_loaded_ok
    by (simp add: ex_run_args_def default_args_def makeSender_def split_transport_def)
qed

end
