(* ===== verification/Capture_Run.thy ===== *)
theory Capture_Run
  imports Packet_Gen
begin

text \<open>
  \<^verbatim>\<open>packet_gen\<close> over the capture-file transport, from end to end: what a generating run writes
  to the file and prints, and what a decoding run prints that reads the file.
\<close>

section \<open>The frames of a run\<close>

text \<open>The frames that the rounds of a \<^verbatim>\<open>--stack\<close> run generate, one after another.\<close>

fun run_frames :: "'g distribution \<Rightarrow> ProtocolInterface list \<Rightarrow> nat \<Rightarrow> 'g Session \<Rightarrow> StackedPacket list" where
  "run_frames dist layers 0 s = []"
| "run_frames dist layers (Suc n) s =
     fst (generateStack_ifaces dist s layers) # run_frames dist layers n (snd (generateStack_ifaces dist s layers))"

lemma generateStack_ifaces_parser: "mParser (snd (generateStack_ifaces dist s layers)) = mParser s"
  by (simp add: generateStack_ifaces_def split_beta)

text \<open>Every frame decodes to itself and has the length of its layers.\<close>

lemma run_frames_decode:
  assumes "uniform_dist dist" and "mParser s = mParser session"
    and "sane_widths (varDatabase session)" and "consistent_db (varDatabase session)"
  shows "list_all (\<lambda>f. decodeStack_ifaces session layers (sp_bytes f) = f \<and>
    length (sp_bytes f) = (\<Sum>iface\<leftarrow>layers. layerBytes iface (varDatabase session))) (run_frames dist layers n s)"
  using assms(2)
proof (induction n arbitrary: s)
  case (Suc n)
  have db: "varDatabase s = varDatabase session"
    using Suc.prems by (simp add: varDatabase_def)
  have ok: "decodeStack_ifaces s = decodeStack_ifaces session"
    by (rule same_parser_views(5) [OF Suc.prems])
  have "length (sp_bytes (fst (generateStack_ifaces dist s layers))) = (\<Sum>iface\<leftarrow>layers. layerBytes iface (varDatabase session))"
    using generateStack_ifaces_length [of s dist layers] assms(3) by (simp add: db)
  moreover have "decodeStack_ifaces session layers (sp_bytes (fst (generateStack_ifaces dist s layers)))
      = fst (generateStack_ifaces dist s layers)"
    using generateStack_ifaces_decodes [OF assms(1), of s layers] assms(3,4) by (simp add: db ok)
  ultimately show ?case
    using Suc.IH [of "snd (generateStack_ifaces dist s layers)"] Suc.prems by (simp add: generateStack_ifaces_parser)
qed simp

lemma frames_fit:
  assumes "map record_packet rs = map sp_bytes fs" and "\<forall>f\<in>set fs. length (sp_bytes f) = n" and "n \<in> {0 <..< m}"
  shows "list_all (\<lambda>x. record_packet x \<noteq> [] \<and> length (record_packet x) < m) rs"
proof -
  have "length (record_packet x) = n" if "x \<in> set rs" for x
  proof -
    have "record_packet x \<in> sp_bytes ` set fs"
      using that assms(1) by (metis image_eqI image_set)
    then show ?thesis
      using assms(2) by auto
  qed
  then show ?thesis
    using assms(3) by (auto simp: list_all_iff)
qed

section \<open>Writing the capture\<close>

lemma stack_round_pcap:
  assumes "posix_write (env_sys env) out intr" and "\<And>w. out fd (snd (sys_clock (env_sys env) w)) = out fd w"
    and "pcs_mFd s = fd" and "0 \<le> fd" and "f = fst (generateStack_ifaces (env_dist env) session layers)"
  shows "\<exists>ok s' ts us. stack_round env args layers ls (session, Some (Pcap_sender s)) =
      Some (ok, ls @ [stack_line args f], snd (generateStack_ifaces (env_dist env) session layers), Some (Pcap_sender s')) \<and>
    pcs_mFd s' = fd \<and> (ok \<longrightarrow> out fd (pcs_world s') = out fd (pcs_world s) @ capture_record False (pcap_record ts us (sp_bytes f)))"
proof -
  obtain c s' ts us where "PcapSender_send (env_sys env) (sp_bytes f) s = Some (c, s')" "pcs_mFd s' = fd"
      "c = SENDER_SUCCESS \<longrightarrow> out fd (pcs_world s') = out fd (pcs_world s) @
         PcapPacketHeader ts us (of_nat (length (sp_bytes f))) (of_nat (length (sp_bytes f))) @ sp_bytes f"
    using PcapSender_send_writes [OF assms(1-4), of "sp_bytes f"] by blast
  then show ?thesis
    by (intro exI [of _ "c = SENDER_SUCCESS"] exI [of _ s'] exI [of _ ts] exI [of _ us])
      (simp add: stack_round_def sendOrFail_def split_beta assms(5) capture_record_pcap)
qed

lemma run_rounds_pcap:
  assumes "posix_write (env_sys env) out intr" and "\<And>w. out fd (snd (sys_clock (env_sys env) w)) = out fd w" and "0 \<le> fd"
  shows "pcs_mFd s = fd \<Longrightarrow>
    \<exists>code ls' session' s' rs. run_rounds (stack_round env args layers) n ls (session, Some (Pcap_sender s)) =
        Some (code, ls', session', Some (Pcap_sender s')) \<and> pcs_mFd s' = fd \<and>
      (code = 0 \<longrightarrow> ls' = ls @ map (stack_line args) (run_frames (env_dist env) layers n session) \<and>
        map record_packet rs = map sp_bytes (run_frames (env_dist env) layers n session) \<and>
        out fd (pcs_world s') = out fd (pcs_world s) @ concat (map (capture_record False) rs))"
proof (induction n arbitrary: ls session s)
  case 0
  then show ?case
    by (auto intro!: exI [of _ "[]"])
next
  case (Suc n)
  let ?f = "fst (generateStack_ifaces (env_dist env) session layers)"
  let ?session = "snd (generateStack_ifaces (env_dist env) session layers)"
  obtain ok s1 ts us where one: "stack_round env args layers ls (session, Some (Pcap_sender s)) =
      Some (ok, ls @ [stack_line args ?f], ?session, Some (Pcap_sender s1))" "pcs_mFd s1 = fd"
      "ok \<longrightarrow> out fd (pcs_world s1) = out fd (pcs_world s) @ capture_record False (pcap_record ts us (sp_bytes ?f))"
    using stack_round_pcap [where fd = fd and args = args and ls = ls, OF assms(1,2) Suc.prems assms(3) refl] by blast
  obtain code ls' session' s' rs where rest: "run_rounds (stack_round env args layers) n (ls @ [stack_line args ?f])
        (?session, Some (Pcap_sender s1)) = Some (code, ls', session', Some (Pcap_sender s'))" "pcs_mFd s' = fd"
      "code = 0 \<longrightarrow> ls' = (ls @ [stack_line args ?f]) @ map (stack_line args) (run_frames (env_dist env) layers n ?session) \<and>
        map record_packet rs = map sp_bytes (run_frames (env_dist env) layers n ?session) \<and>
        out fd (pcs_world s') = out fd (pcs_world s1) @ concat (map (capture_record False) rs)"
    using Suc.IH [OF one(2)] by blast
  show ?case
  proof (cases ok)
    case True
    then show ?thesis
      using one rest by (intro exI [of _ code] exI [of _ ls'] exI [of _ session'] exI [of _ s']
          exI [of _ "pcap_record ts us (sp_bytes ?f) # rs"]) simp
  qed (use one in auto)
qed

section \<open>Reading it back\<close>

lemma packet_loop_pcap:
  assumes "posix_read sys src intr" and "only_interrupts sys"
  shows "0 \<le> pcr_mFd r \<Longrightarrow> src (pcr_mFd r) (pcr_world r) = concat (map (capture_record (pcr_mSwap r)) rs) \<Longrightarrow>
    list_all (\<lambda>x. record_packet x \<noteq> [] \<and> length (record_packet x) < 2 ^ 32) rs \<Longrightarrow>
    \<exists>r'. packet_loop (any_receiver_ops sys) dec 0 n ls () (Pcap_receiver r) =
      Some (0, ls @ map (\<lambda>x. fst (dec (record_packet x) ())) rs, r')"
proof (induction rs arbitrary: r n ls)
  case Nil
  then show ?case
    using PcapReceiver_receive_eof [OF assms(1) Nil(1), of "[]"]
    by (auto simp: packet_loop.simps any_receiver_ops_def)
next
  case (Cons x rs)
  obtain r1 where r1: "PcapReceiver_receive sys [] r = Some (RECEIVER_SUCCESS, record_packet x, r1)"
      "pcr_mFd r1 = pcr_mFd r" "pcr_mSwap r1 = pcr_mSwap r"
      "src (pcr_mFd r) (pcr_world r1) = concat (map (capture_record (pcr_mSwap r)) rs)"
    using PcapReceiver_receive_record [OF assms Cons.prems(1), of x] Cons.prems(2,3) by auto
  then show ?case
    using Cons.IH [of r1 "n + 1" "ls @ [fst (dec (record_packet x) ())]"] Cons.prems
    by (subst packet_loop.simps) (simp add: any_receiver_ops_def receiver_codes)
qed

lemma make_pcap:
  assumes "spec = ''pcap:'' @ path"
  shows "makeSender spec w = Some (Pcap_sender (new_PcapSender path w))"
    and "makeReceiver spec w = Some (Pcap_receiver (new_PcapReceiver path w))"
proof -
  have "str_find (''pcap:'' @ path) '':'' 0 = Some 4"
    by (simp add: str_find_def upt_conv_Cons matches_at_def del: upt_Suc)
  then have "split_transport spec = Some (''pcap'', path)"
    by (simp add: split_transport_def assms)
  then show "makeSender spec w = Some (Pcap_sender (new_PcapSender path w))"
    "makeReceiver spec w = Some (Pcap_receiver (new_PcapReceiver path w))"
    by (simp_all add: makeSender_def makeReceiver_def)
qed

lemma PcapSender_open_writes:
  assumes "posix_write sys out intr" and "PcapSender_open sys s = Some (SENDER_SUCCESS, s')"
    and "sys_open_write sys (c_str (pcs_mFilePath s)) (pcs_world s) = (fd, w)"
  shows "0 \<le> fd \<and> pcs_mFd s' = fd \<and> out fd (pcs_world s') = out fd w @ PcapGlobalHeader"
proof -
  obtain ok w2 where "pcap_writeAll sys fd PcapGlobalHeader w = Some (ok, w2)" "wrote out fd PcapGlobalHeader w ok w2"
    using pcap_writeAll_ends [OF assms(1), of fd PcapGlobalHeader w] by blast
  then show ?thesis
    using assms(2,3) by (auto simp: PcapSender_open_def wrote_def sender_codes split: if_splits)
qed

text \<open>What a successful counted run prints and leaves in the file.\<close>

lemma generate_capture:
  assumes "posix_write (env_sys env) out intr" and "\<And>w. out fd (snd (sys_clock (env_sys env) w)) = out fd w"
    and "\<And>w. out fd (sys_close (env_sys env) fd w) = out fd w"
    and "sys_open_write (env_sys env) (c_str path) w = (fd, w0)" and "out fd w0 = []"
    and "a_transport args = ''pcap:'' @ path" and "a_count args \<noteq> 0"
    and "main_generate env args (\<lambda>sender. (s, sender)) snd (stack_round env args layers) w = Some (Returns (0, lines, w1))"
  shows "\<exists>rs. lines = map (stack_line args) (run_frames (env_dist env) layers (unat (a_count args)) s) \<and>
    map record_packet rs = map sp_bytes (run_frames (env_dist env) layers (unat (a_count args)) s) \<and>
    out fd w1 = capture_file False (drop 4 PcapGlobalHeader) rs"
proof -
  obtain s1 where s1: "PcapSender_open (env_sys env) (new_PcapSender path w) = Some (SENDER_SUCCESS, s1)"
    and loop: "map_option (\<lambda>(code, out, d). Returns (code, out, close_world (env_sys env) w (snd d)))
        (round_loop (stack_round env args layers) (a_count args) 0 [] (s, Some (Pcap_sender s1))) = Some (Returns (0, lines, w1))"
    using assms(8) by (auto simp: main_generate_def make_pcap(1) [OF assms(6)] exits_def sender_codes split: option.splits if_splits)
  have opened: "0 \<le> fd" "pcs_mFd s1 = fd" "out fd (pcs_world s1) = PcapGlobalHeader"
    using PcapSender_open_writes [OF assms(1) s1] assms(4,5) by (simp_all add: new_PcapSender_def)
  obtain code ls' session' s' rs where rounds: "run_rounds (stack_round env args layers) (unat (a_count args)) []
        (s, Some (Pcap_sender s1)) = Some (code, ls', session', Some (Pcap_sender s'))" "pcs_mFd s' = fd"
      "code = 0 \<longrightarrow> ls' = map (stack_line args) (run_frames (env_dist env) layers (unat (a_count args)) s) \<and>
        map record_packet rs = map sp_bytes (run_frames (env_dist env) layers (unat (a_count args)) s) \<and>
        out fd (pcs_world s') = PcapGlobalHeader @ concat (map (capture_record False) rs)"
    using run_rounds_pcap [where fd = fd and ls = "[]" and args = args, OF assms(1,2) opened(1,2)] opened(3) by fastforce
  have "code = 0" "lines = ls'" "w1 = sys_close (env_sys env) fd (pcs_world s')"
    using loop rounds(1,2) opened(1) assms(7) round_loop_rounds [of 0 "a_count args" "stack_round env args layers"]
    by (simp_all add: close_world_def PcapSender_close_def)
  then show ?thesis
    using rounds(3) assms(3) by (auto simp: global_header_capture)
qed

text \<open>What a decoding run prints for such a file.\<close>

lemma decode_capture:
  assumes "posix_read (env_sys env) src intr" and "only_interrupts (env_sys env)"
    and "sys_open_read (env_sys env) (c_str path) w = (fd, w0)" and "0 \<le> fd"
    and "src fd w0 = capture_file False (drop 4 PcapGlobalHeader) rs"
    and "list_all (\<lambda>x. record_packet x \<noteq> [] \<and> length (record_packet x) < 2 ^ 32) rs"
    and "a_transport args = ''pcap:'' @ path" and "a_count args = 0" and "hexInput args = []"
  shows "\<exists>w'. main_decode env args dec () w = exits 0 (map (\<lambda>x. fst (dec (record_packet x) ())) rs) w'"
proof -
  obtain r1 where r1: "PcapReceiver_open (env_sys env) (new_PcapReceiver path w) = Some (RECEIVER_SUCCESS, r1)"
      "pcr_mFd r1 = fd" "\<not> pcr_mSwap r1" "src fd (pcr_world r1) = concat (map (capture_record False) rs)"
    using PcapReceiver_open_capture [OF assms(1,2) _ assms(4,5), of "new_PcapReceiver path w"] assms(3)
    by (auto simp: new_PcapReceiver_def PcapGlobalHeader_def)
  obtain r' where "packet_loop (any_receiver_ops (env_sys env)) dec 0 0 [] () (Pcap_receiver r1) =
      Some (0, map (\<lambda>x. fst (dec (record_packet x) ())) rs, r')"
    using packet_loop_pcap [OF assms(1,2), of r1 rs dec 0 "[]"] r1 assms(4,6) by auto
  then show ?thesis
    using r1(1) assms(8,9) by (simp add: main_decode_def decode_stream_def make_pcap(2) [OF assms(7)] exits_def)
qed

section \<open>Properties\<close>

text \<open>C6: A capture written by \<^verbatim>\<open>packet_gen\<close> is read back by \<^verbatim>\<open>packet_gen\<close>: when a counted
  \<^verbatim>\<open>--stack\<close> run with \<^verbatim>\<open>--transport pcap:<file>\<close> ends with exit code 0, a later run over
  the same protocols with \<^verbatim>\<open>--decode\<close>, the same transport and no limit ends with exit code 0 and
  prints exactly the JSON lines the first run printed. The file is new when it is opened and holds what
  was written when it is read; short transfers are allowed, and so are interruptions of the reads. The
  frames are not empty and their length fits the 32-bit length of a record.\<close>

theorem capture_cli_round_trip:
  assumes "interface_run env args session" and "\<not> a_decode args" and "hexInput args = []" and "a_output args = ''json''"
    and "a_count args \<noteq> 0" and "a_stack args \<noteq> []" and "resolve_all session (a_stack args) = Some layers"
    and "uniform_dist (env_dist env)" and "sane_widths (varDatabase session)" and "consistent_db (varDatabase session)"
    and "(\<Sum>iface\<leftarrow>layers. layerBytes iface (varDatabase session)) \<in> {0 <..< 2 ^ 32}"
    and "a_transport args = ''pcap:'' @ path"
    and "posix_write (env_sys env) out intr" and "posix_read (env_sys env) src intr" and "only_interrupts (env_sys env)"
    and "sys_open_write (env_sys env) (c_str path) w = (fd, w0)" and "out fd w0 = []"
    and "\<And>w. out fd (snd (sys_clock (env_sys env) w)) = out fd w" and "\<And>w. out fd (sys_close (env_sys env) fd w) = out fd w"
    and "main_args env args w = Some (Returns (0, lines, w1))"
    and "sys_open_read (env_sys env) (c_str path) w2 = (fd', w3)" and "0 \<le> fd'" and "src fd' w3 = out fd w1"
  shows "\<exists>w4. main_args env (args\<lparr>a_decode := True, a_count := 0\<rparr>) w2 = exits 0 lines w4"
proof -
  let ?s = "seed_session env args session" and ?args = "args\<lparr>a_decode := True, a_count := 0\<rparr>"
  let ?fs = "run_frames (env_dist env) layers (unat (a_count args)) ?s"
  have run: "interface_run env ?args session" and layers: "layers \<noteq> []"
    using assms(1,6) resolve_all_length [OF assms(7)] by (auto simp: interface_run_def)
  have res: "resolve_all session (layer_names args) = Some layers" "resolve_all session (layer_names ?args) = Some layers"
    using assms(6,7) by (simp_all add: layer_names_def)
  have "main_generate env args (\<lambda>sender. (?s, sender)) snd (stack_round env args layers) w = Some (Returns (0, lines, w1))"
    using assms(2,6,20) by (simp add: interface_run_main [OF assms(1)] main_ifaces_resolved [OF res(1)])
  from generate_capture [OF assms(13,18,19,16,17,12,5) this] obtain rs where
    rs: "lines = map (stack_line args) ?fs" "map record_packet rs = map sp_bytes ?fs"
      "out fd w1 = capture_file False (drop 4 PcapGlobalHeader) rs"
    by blast
  have frames: "\<forall>f\<in>set ?fs. decodeStack_ifaces session layers (sp_bytes f) = f \<and>
      length (sp_bytes f) = (\<Sum>iface\<leftarrow>layers. layerBytes iface (varDatabase session))"
    using run_frames_decode [OF assms(8) _ assms(9,10), of ?s layers "unat (a_count args)"]
    by (simp add: list_all_iff seed_session_def Session_seed_def)
  have fit: "list_all (\<lambda>x. record_packet x \<noteq> [] \<and> length (record_packet x) < 2 ^ 32) rs"
    using frames_fit [OF rs(2) _ assms(11)] frames by blast
  have "map (\<lambda>x. fst (decode_ifaces ?args session layers [] (record_packet x) ())) rs
      = map (\<lambda>p. toJson_stack (decodeStack_ifaces session layers p)) (map record_packet rs)"
    using layers by (simp add: decode_ifaces_def)
  also have "\<dots> = lines"
    using frames assms(4) by (auto simp: rs(1,2) stack_line_def)
  finally have "map (\<lambda>x. fst (decode_ifaces ?args session layers [] (record_packet x) ())) rs = lines" .
  moreover have "src fd' w3 = capture_file False (drop 4 PcapGlobalHeader) rs"
    using assms(23) rs(3) by simp
  ultimately show ?thesis
    using decode_capture [OF assms(14,15,21,22) _ fit, of ?args "decode_ifaces ?args session layers []"] assms(3,6,12)
    by (simp add: interface_run_main [OF run] main_ifaces_resolved [OF res(2)])
qed

definition ex_capture_args :: Args where
  "ex_capture_args = ex_run_args\<lparr>a_transport := ''pcap:f'', a_count := 2\<rparr>"

definition ex_capture_run :: "int \<times> string list \<times> ex_world" where
  "ex_capture_run = (case main_args ex_env ex_capture_args ([], [], 0) of
     Some (Returns r) \<Rightarrow> r | _ \<Rightarrow> (2, [], ([], [], 0)))"

lemma ex_capture_ok:
  "main_args ex_env ex_capture_args ([], [], 0) = Some (Returns ex_capture_run) \<and> fst ex_capture_run = 0"
  by code_simp

theorem capture_cli_round_trip_witness:
  "\<exists>w4. main_args ex_env (ex_capture_args\<lparr>a_decode := True, a_count := 0\<rparr>)
       (ex_out 5 (snd (snd ex_capture_run)), [], 1) = exits 0 (fst (snd ex_capture_run)) w4"
proof -
  let ?w2 = "(ex_out 5 (snd (snd ex_capture_run)), [], 1)"
  have ran: "main_args ex_env ex_capture_args ([], [], 0) =
      Some (Returns (0, fst (snd ex_capture_run), snd (snd ex_capture_run)))"
    using ex_capture_ok by (metis prod.collapse)
  have args: "interface_run ex_env ex_capture_args ex_loaded" "\<not> a_decode ex_capture_args" "hexInput ex_capture_args = []"
    "a_output ex_capture_args = ''json''" "a_count ex_capture_args \<noteq> 0" "a_stack ex_capture_args \<noteq> []"
    "a_transport ex_capture_args = ''pcap:'' @ ''f''"
    using ex_loaded_ok by (simp_all add: interface_run_def ex_capture_args_def ex_run_args_def default_args_def)
  have env: "env_sys ex_env = ex_sys" "env_dist ex_env = ex_dist"
    by (simp_all add: ex_env_def)
  obtain layers where layers: "resolve_all ex_loaded (a_stack ex_capture_args) = Some layers"
    using ex_loaded_resolves by (auto simp: layer_names_def ex_capture_args_def ex_run_args_def)
  have "(\<Sum>iface\<leftarrow>the (resolve_all ex_loaded (a_stack ex_capture_args)). layerBytes iface (varDatabase ex_loaded)) = 2"
    by code_simp
  then have total: "(\<Sum>iface\<leftarrow>layers. layerBytes iface (varDatabase ex_loaded)) \<in> {0 <..< 2 ^ 32}"
    by (simp add: layers)
  show ?thesis
    by (rule capture_cli_round_trip [where out = ex_out and src = ex_src and intr = ex_intr and fd = 5 and fd' = 5 and
          w = "([], [], 0)" and ?w0.0 = "([], [], 0)" and ?w3.0 = ?w2 and ?w1.0 = "snd (snd ex_capture_run)",
          OF args(1-6) layers _ ex_loaded_vars total args(7) _ _ _ _ _ _ _ ran])
      (simp_all add: env ex_dist_uniform ex_sys_write ex_sys_read ex_sys_only_interrupts, simp_all add: ex_sys_def ex_out_def ex_src_def)
qed

end
