(* ===== verification/Stack_File_Run.thy ===== *)
theory Stack_File_Run
  imports Packet_Gen
begin

text \<open>
  Two runs of \<^verbatim>\<open>packet_gen --stack-file\<close> (traffic-gen/tools/packet_gen_main.cpp): one generates a frame through
  the logic modules and prints it as hexadecimal, the other loads the stack file anew and decodes that line. The
  two runs share no contexts, so the decoder has to find the layers from the stack document alone.
\<close>

section \<open>Decoding depends on the names of the layers only\<close>

lemma decode_plain_keys:
  "map layer_key ls = map layer_key ls' \<Longrightarrow> decode_plain s bs ls off = decode_plain s bs ls' off"
proof (induction ls arbitrary: ls' off)
  case (Cons l ls)
  then obtain k ks where ls': "ls' = k # ks" "layer_key l = layer_key k" "map layer_key ls = map layer_key ks"
    by (cases ls') auto
  then have "serviceName l = serviceName k"
    by (simp add: layer_key_def)
  then show ?case
    using Cons.IH [OF ls'(3)] interfaceForLayer_key [OF ls'(2), of s] by (simp add: ls'(1) split: option.split)
qed simp

lemma decodeStack_keys:
  assumes "map layer_key (mLayers stack) = map layer_key (mLayers stack')"
  shows "fst (decodeStack s stack bs) = fst (decodeStack s stack' bs)"
  using decode_plain_keys [OF assms] by (simp add: decodeStack_plain)

lemma generateStack_keys:
  assumes "wired (contexts (mLayers stack))" and "generateStack dist s stack = Some (pkt, stack', s')"
  shows "map layer_key (mLayers stack') = map layer_key (mLayers stack)"
proof -
  obtain ls b ls' where frame: "list_all2 same_frame (mLayers stack) ls" and len: "length ls' = length ls"
    and each: "\<forall>i<length ls. onEncode (sl_logic (ls ! i)) (contexts ls) (sl_context (ls ! i))
          = Some (sl_logic (ls' ! i), sl_context (ls' ! i)) \<and>
        ctx_shape (sl_context (ls' ! i)) = ctx_shape (sl_context (ls ! i)) \<and>
        layer_key (ls' ! i) = layer_key (ls ! i)"
    and run: "generateStack dist s stack =
      Some (\<lparr>sp_bytes = concat (map (bp_bytes \<circ> pack_layer) ls'),
             sp_layers = map (\<lambda>l. (serviceName l, pack_layer l)) ls'\<rparr>,
            stack\<lparr>mLayers := ls'\<rparr>, s\<lparr>mBuilder := b\<rparr>)"
    using generateStack_wired [OF assms(1), of dist s] by blast
  then have gen: "mLayers stack' = ls'"
    using assms(2) by auto
  have "layer_key (ls ! i) = layer_key (mLayers stack ! i)" if "i < length ls" for i
    using same_frameD [OF list_all2_nthD2 [OF frame that]] by (simp add: layer_key_def)
  then show ?thesis
    using each len list_all2_lengthD [OF frame] by (intro nth_equalityI) (simp_all add: gen)
qed

section \<open>Properties\<close>

text \<open>A layer none of whose values is wider than its field.\<close>

definition values_fit :: "StackLayer \<Rightarrow> bool" where
  "values_fit l \<longleftrightarrow>
     list_all (\<lambda>f. take_bit (loopCount (fld_bits f)) (fld_value f) = fld_value f) (mFields (sl_context l))"

lemma values_fit_truncated: "values_fit l \<Longrightarrow> truncated_layer l = pack_layer l"
  by (auto simp: values_fit_def truncated_layer_def pack_layer_eq list_all_iff)

text \<open>C5: The tool's two output formats agree for a stack file, too: with a stack file that loads, the one-packet run
  with \<^verbatim>\<open>--output hex\<close> prints the generated frame, and giving that line to \<^verbatim>\<open>--hex\<close> in a second run of the
  same stack file prints the frame with every value cut to the width of its field. When the modules left no
  value wider than its field this is exactly the line of the \<^verbatim>\<open>--output json\<close> run.\<close>

theorem stack_file_hex_round_trip:
  assumes "\<not> a_validate args" and "\<not> listInterfaces args" and "stackFile args \<noteq> []" and "\<not> a_decode args"
    and "Session_parse (env_fs env) (env_files env) (env_ry env) (new_session env (yamlDir args)) = Some (Returns (True, session))"
    and "loadStack (env_files env) (env_ry env) (env_registry env) session (stackFile args) = (c, Some stack)"
    and "makeSender (a_transport args) w = None" and "a_count args = 1" and "sane_widths (varDatabase session)"
    and "list_all (\<lambda>l. \<exists>iface. interfaceForLayer session l = Some iface \<and> distinct_short_names iface) (mLayers stack)"
  shows "\<exists>pkt stack' s'. generateStack (env_dist env) (seed_session env args session) stack = Some (pkt, stack', s') \<and>
    main_args env (args\<lparr>a_output := ''hex''\<rparr>) w = exits 0 [toHex (sp_bytes pkt)] w \<and>
    (sp_bytes pkt \<noteq> [] \<longrightarrow>
      main_args env (args\<lparr>a_decode := True, hexInput := toHex (sp_bytes pkt)\<rparr>) w =
        exits 0 [toJson_stack \<lparr>sp_bytes = sp_bytes pkt,
          sp_layers = map (\<lambda>l. (serviceName l, truncated_layer l)) (mLayers stack')\<rparr>] w) \<and>
    (sp_bytes pkt \<noteq> [] \<and> list_all values_fit (mLayers stack') \<longrightarrow>
      main_args env (args\<lparr>a_decode := True, hexInput := toHex (sp_bytes pkt)\<rparr>) w =
        main_args env (args\<lparr>a_output := ''json''\<rparr>) w)"
proof -
  let ?s = "seed_session env args session"
  note loaded = loadStack_success(1,2) [OF assms(6)]
  obtain pkt stack' s' where gen: "generateStack (env_dist env) ?s stack = Some (pkt, stack', s')"
    using generateStack_wired [OF loaded(2), of "env_dist env" ?s] by blast
  have parser: "mParser ?s = mParser session" "mParser s' = mParser session"
    using generateStack_result(3) [OF loaded(2) gen] by (simp_all add: seed_session_def Session_seed_def)
  let ?cut = "\<lparr>sp_bytes = sp_bytes pkt, sp_layers = map (\<lambda>l. (serviceName l, truncated_layer l)) (mLayers stack')\<rparr>"
  have seed: "seed_session env (args\<lparr>a_output := f\<rparr>) session = ?s" for f
    by (simp add: seed_session_def)
  have run: "main_args env (args\<lparr>a_output := f\<rparr>) w = exits 0 [stack_line (args\<lparr>a_output := f\<rparr>) pkt] w" for f
    using assms(1-4,7,8) loaded gen
      round_loop_rounds [of 0 1 "bound_round env (args\<lparr>a_output := f\<rparr>)" "[]"]
    by (simp add: main_args_def assms(5) main_stack_file_def assms(6) main_generate_def exits_def bound_round_def sendOrFail_def
        close_world_def seed)
  have "fst (decodeStack s' stack' (sp_bytes pkt)) = ?cut"
    using generateStack_decodes [OF loaded(2) _ _ gen] assms(9,10)
    by (simp add: interfaceForLayer_parser [OF parser(1)])
  then have "fst (decodeStack session stack (sp_bytes pkt)) = ?cut"
    using decodeStack_keys [OF generateStack_keys [OF loaded(2) gen, symmetric], of session] same_parser_views(6) [OF parser(2)] by simp
  moreover have "toHex (sp_bytes pkt) = [] \<longleftrightarrow> sp_bytes pkt = []"
    by (cases "sp_bytes pkt") simp_all
  ultimately have dec: "main_args env (args\<lparr>a_decode := True, hexInput := toHex (sp_bytes pkt)\<rparr>) w = exits 0 [toJson_stack ?cut] w"
    if "sp_bytes pkt \<noteq> []"
    using assms(1-3) loaded that
    by (simp add: main_args_def assms(5) main_stack_file_def assms(6) main_decode_def fromHex_toHex decode_bound_def split_beta)
  have "?cut = pkt" if "list_all values_fit (mLayers stack')"
    using that generateStack_result(2) [OF loaded(2) gen] values_fit_truncated
    by (cases pkt) (auto simp: list_all_iff)
  then show ?thesis
    using gen dec run by (auto simp: stack_line_def)
qed

definition ex_file_args :: Args where
  "ex_file_args = ex_run_args\<lparr>a_stack := [], stackFile := ''s.yaml''\<rparr>"

definition ex_file_stack :: Stack where
  "ex_file_stack = the (snd (loadStack (env_files ex_env) (env_ry ex_env) (env_registry ex_env) ex_loaded ''s.yaml''))"

lemma ex_file_stack_loads:
  "loadStack (env_files ex_env) (env_ry ex_env) (env_registry ex_env) ex_loaded ''s.yaml'' = (STACK_SUCCESS, Some ex_file_stack)"
  by code_simp

lemma ex_file_stack_resolves:
  "list_all (\<lambda>l. \<exists>iface. interfaceForLayer ex_loaded l = Some iface \<and> distinct_short_names iface) (mLayers ex_file_stack)"
proof -
  have "list_all (\<lambda>l. case interfaceForLayer ex_loaded l of None \<Rightarrow> False | Some iface \<Rightarrow> distinct_short_names iface)
      (mLayers ex_file_stack)"
    by code_simp
  then show ?thesis
    by (auto simp: list_all_iff split: option.splits)
qed

text \<open>The example prints the line of its frame, and the second run prints its JSON.\<close>

theorem stack_file_hex_round_trip_witness:
  "\<exists>pkt stack' s'. generateStack (env_dist ex_env) (seed_session ex_env ex_file_args ex_loaded) ex_file_stack =
      Some (pkt, stack', s') \<and> sp_bytes pkt \<noteq> [] \<and>
    main_args ex_env (ex_file_args\<lparr>a_output := ''hex''\<rparr>) ([], [], 0) = exits 0 [toHex (sp_bytes pkt)] ([], [], 0) \<and>
    main_args ex_env (ex_file_args\<lparr>a_decode := True, hexInput := toHex (sp_bytes pkt)\<rparr>) ([], [], 0) =
      main_args ex_env (ex_file_args\<lparr>a_output := ''json''\<rparr>) ([], [], 0)"
proof -
  let ?gen = "generateStack (env_dist ex_env) (seed_session ex_env ex_file_args ex_loaded) ex_file_stack"
  have frame: "case ?gen of None \<Rightarrow> False | Some (pkt, stack', s') \<Rightarrow> sp_bytes pkt \<noteq> [] \<and> list_all values_fit (mLayers stack')"
    by code_simp
  show ?thesis
    using stack_file_hex_round_trip [of ex_file_args ex_env ex_loaded STACK_SUCCESS ex_file_stack "([], [], 0)"]
      ex_loaded_ok ex_file_stack_loads ex_loaded_vars(1) ex_file_stack_resolves frame
    by (auto simp: ex_file_args_def ex_run_args_def default_args_def makeSender_def split_transport_def)
qed

end
