(* ===== verification/Protocol_Documents.thy ===== *)
theory Protocol_Documents
  imports Protocol_Parser
begin

text \<open>
  What a protocol directory means, independently of how it is read: a document defines variables, interfaces
  and a service, each under a qualified name, and a directory defines what its documents define, the
  first definition of a name being the one that counts.

  \<open>var_defs\<close>, \<open>interface_defs\<close> and \<open>service_defs\<close> are the definitions of one document, in its order;
  \<open>below\<close> are the paths under a directory. The databases that \<^verbatim>\<open>Protocol\<close> and
  \<^verbatim>\<open>ProtocolParser\<close> (parser/src/protocol.cpp, protocol_parser.cpp) fill are shown to denote exactly
  these maps.
\<close>

section \<open>The definitions of a document\<close>

text \<open>A document counts when it is a map with a proper \<^verbatim>\<open>service\<close> name.\<close>

definition loads :: "'n ryml \<Rightarrow> 'n \<Rightarrow> bool" where
  "loads ry tree \<longleftrightarrow> \<not> ry_tree_empty ry tree \<and> ry_is_map ry tree \<and>
     checkNodeValidity ry (ry_child ry tree ''service'') NT_VAL False = PROTO_SUCCESS"

definition service_of :: "'n ryml \<Rightarrow> 'n \<Rightarrow> string" where
  "service_of ry tree = ry_val ry (ry_child ry tree ''service'')"

text \<open>The elements of a list node that is there.\<close>

definition items :: "'n ryml \<Rightarrow> 'n \<Rightarrow> 'n list" where
  "items ry node = (if ry_invalid ry node \<or> \<not> ry_is_seq ry node then [] else ry_children ry node)"

definition named :: "('a \<Rightarrow> string) \<Rightarrow> 'a list \<Rightarrow> (string \<times> 'a) list" where
  "named nm xs = map (\<lambda>x. (nm x, x)) xs"

definition document_vars :: "'n ryml \<Rightarrow> 'n \<Rightarrow> Var list" where
  "document_vars ry tree =
     map (parse_var ry (service_of ry tree)) (filter (\<lambda>i. ry_has_child ry i ''var'') (items ry (ry_child ry tree ''vars'')))"

definition entity_interfaces :: "'n ryml \<Rightarrow> string \<Rightarrow> 'n \<Rightarrow> ProtocolInterface list" where
  "entity_interfaces ry svc e =
     (if ry_has_child ry e ''entity'' \<and> ry_has_child ry e ''interfaces'' \<and> ry_is_seq ry (ry_child ry e ''interfaces'')
      then map (parse_interface ry svc (ry_val ry (ry_child ry e ''entity'')))
        (filter (\<lambda>i. ry_is_map ry i \<and> ry_has_child ry i ''interface'') (ry_children ry (ry_child ry e ''interfaces'')))
      else [])"

definition document_interfaces :: "'n ryml \<Rightarrow> 'n \<Rightarrow> ProtocolInterface list" where
  "document_interfaces ry tree =
     concat (map (entity_interfaces ry (service_of ry tree)) (items ry (ry_child ry tree ''entities'')))"

definition document_service :: "'n ryml \<Rightarrow> 'n \<Rightarrow> ProtocolService" where
  "document_service ry tree =
     \<lparr>svc_mName = service_of ry tree,
      mLogicName = (let l = ry_child ry tree ''logic'' in if \<not> ry_invalid ry l \<and> ry_has_val ry l then ry_val ry l else [])\<rparr>"

definition var_defs :: "'n ryml \<Rightarrow> 'n \<Rightarrow> (string \<times> Var) list" where
  "var_defs ry tree = (if loads ry tree then named var_mName (document_vars ry tree) else [])"

definition interface_defs :: "'n ryml \<Rightarrow> 'n \<Rightarrow> (string \<times> ProtocolInterface) list" where
  "interface_defs ry tree = (if loads ry tree then named mInterfaceName (document_interfaces ry tree) else [])"

text \<open>A database refuses the empty name, which only a service can have.\<close>

definition service_defs :: "'n ryml \<Rightarrow> 'n \<Rightarrow> (string \<times> ProtocolService) list" where
  "service_defs ry tree =
     (if loads ry tree \<and> service_of ry tree \<noteq> [] then named svc_mName [document_service ry tree] else [])"

section \<open>Loading a document\<close>

lemma getElement_add:
  "getElement (snd (addUniqueElement k v db)) = (if k = [] then Map.empty else [k \<mapsto> v]) ++ getElement db"
  by (rule ext) (auto simp: db_simps map_add_def split: option.split)

lemma named_simps [simp]: "named nm [] = []" "named nm (x # xs) = (nm x, x) # named nm xs"
  "named nm (xs @ ys) = named nm xs @ named nm ys"
  by (simp_all add: named_def)

lemma upd_lambda: "(\<lambda>a. if a = k then Some v else m a) = m(k \<mapsto> v)"
  by auto

lemma parse_names_nonempty: "var_mName (parse_var ry svc item) \<noteq> []" "mInterfaceName (parse_interface ry svc ent item) \<noteq> []"
  by (simp_all add: parse_var_def parse_interface_def Let_def)

lemma vars_loop_denotes:
  "getElement (vars_loop ry svc is db) =
     map_of (named var_mName (map (parse_var ry svc) (filter (\<lambda>i. ry_has_child ry i ''var'') is))) ++ getElement db"
  by (induction ry svc "is" db rule: vars_loop.induct)
    (simp_all add: Let_def getElement_add parse_names_nonempty upd_lambda)

lemma interfaces_loop_denotes:
  "getElement (interfaces_loop ry svc ent is db) = map_of (named mInterfaceName (map (parse_interface ry svc ent)
     (filter (\<lambda>i. ry_is_map ry i \<and> ry_has_child ry i ''interface'') is))) ++ getElement db"
  by (induction ry svc ent "is" db rule: interfaces_loop.induct)
    (simp_all add: Let_def getElement_add parse_names_nonempty upd_lambda)

lemma entities_loop_denotes:
  "getElement (entities_loop ry svc is db) =
     map_of (named mInterfaceName (concat (map (entity_interfaces ry svc) is))) ++ getElement db"
  by (induction ry svc "is" db rule: entities_loop.induct)
    (simp_all add: Let_def entity_interfaces_def interfaces_loop_denotes)

lemma getParsed_denote:
  "getElement (snd (getParsedProtocolVars ry tree (ry_child ry tree ''service'') vdb)) =
     map_of (named var_mName (document_vars ry tree)) ++ getElement vdb"
  "getElement (snd (getParsedProtocolInterface ry tree (ry_child ry tree ''service'') idb)) =
     map_of (named mInterfaceName (document_interfaces ry tree)) ++ getElement idb"
  "getElement (snd (getParsedProtocolService ry tree (ry_child ry tree ''service'') sdb)) =
     (if service_of ry tree = [] then Map.empty else map_of (named svc_mName [document_service ry tree])) ++ getElement sdb"
  by (simp_all add: getParsedProtocolVars_def getParsedProtocolInterface_def getParsedProtocolService_def Let_def
      document_vars_def document_interfaces_def document_service_def service_of_def items_def vars_loop_denotes
      entities_loop_denotes getElement_add fun_upd_def)

lemma parse_tree_denotes:
  assumes "parse_tree ry tree dbs = (e, dbs')"
  shows "getElement (dbVars dbs') = map_of (var_defs ry tree) ++ getElement (dbVars dbs)"
    and "getElement (dbIfproto dbs') = map_of (interface_defs ry tree) ++ getElement (dbIfproto dbs)"
    and "getElement (dbServices dbs') = map_of (service_defs ry tree) ++ getElement (dbServices dbs)"
proof -
  let ?nm = "ry_child ry tree ''service''"
  have "dbs' = (if loads ry tree
      then \<lparr>dbVars = snd (getParsedProtocolVars ry tree ?nm (dbVars dbs)),
            dbIfproto = snd (getParsedProtocolInterface ry tree ?nm (dbIfproto dbs)),
            dbServices = snd (getParsedProtocolService ry tree ?nm (dbServices dbs))\<rparr> else dbs)"
    using assms getParsedProtocolVars_ok [of ry tree ?nm] getParsedProtocolInterface_ok [of ry tree ?nm]
    by (auto simp: parse_tree_def loads_def getProtocolName_def Let_def split_beta PROTO_SUCCESS_def split: if_splits)
  then show "getElement (dbVars dbs') = map_of (var_defs ry tree) ++ getElement (dbVars dbs)"
    and "getElement (dbIfproto dbs') = map_of (interface_defs ry tree) ++ getElement (dbIfproto dbs)"
    and "getElement (dbServices dbs') = map_of (service_defs ry tree) ++ getElement (dbServices dbs)"
    by (simp_all add: var_defs_def interface_defs_def service_defs_def getParsed_denote)
qed

section \<open>Loading a file\<close>

definition file_defs :: "('n ryml \<Rightarrow> 'n \<Rightarrow> (string \<times> 'a) list) \<Rightarrow> posix_files \<Rightarrow> 'n ryml \<Rightarrow> string \<Rightarrow> (string \<times> 'a) list" where
  "file_defs defs px ry path = (case parser_text px path of
     None \<Rightarrow> []
   | Some txt \<Rightarrow> defs ry (ry_parse_in_arena ry (c_str path) txt))"

text \<open>The map a sequence of files denotes: the first definition of a name is the one that counts.\<close>

definition files_map :: "('n ryml \<Rightarrow> 'n \<Rightarrow> (string \<times> 'a) list) \<Rightarrow> posix_files \<Rightarrow> 'n ryml \<Rightarrow> string list \<Rightarrow> string \<rightharpoonup> 'a" where
  "files_map defs px ry paths = map_of (concat (map (file_defs defs px ry) paths))"

lemma files_map_snoc: "files_map defs px ry (paths @ [path]) = map_of (file_defs defs px ry path) ++ files_map defs px ry paths"
  by (simp add: files_map_def)

lemma parseProtocolFile_denotes:
  assumes "parseProtocolFile px ry path dbs = Returns (e, dbs')"
  shows "getElement (dbVars dbs') = map_of (file_defs var_defs px ry path) ++ getElement (dbVars dbs)"
    and "getElement (dbIfproto dbs') = map_of (file_defs interface_defs px ry path) ++ getElement (dbIfproto dbs)"
    and "getElement (dbServices dbs') = map_of (file_defs service_defs px ry path) ++ getElement (dbServices dbs)"
  using parseProtocolFile_text [OF assms] parse_tree_denotes [OF sym]
  by (simp_all add: file_defs_def split: option.splits)

definition denotes_files :: "posix_files \<Rightarrow> 'n ryml \<Rightarrow> ProtocolParser \<Rightarrow> bool" where
  "denotes_files px ry p \<longleftrightarrow>
     getElement (dbVars (mDbs p)) = files_map var_defs px ry (yamlPaths p) \<and>
     getElement (dbIfproto (mDbs p)) = files_map interface_defs px ry (yamlPaths p) \<and>
     getElement (dbServices (mDbs p)) = files_map service_defs px ry (yamlPaths p)"

lemma denotes_files_step:
  assumes "parseProtocol px ry path (p\<lparr>yamlPaths := yamlPaths p @ [path]\<rparr>) = Returns (e, p')" and "denotes_files px ry p"
  shows "denotes_files px ry p'"
proof -
  obtain c where "parseProtocolFile px ry path (mDbs p) = Returns (c, mDbs p')"
    using assms(1) by (auto simp: parseProtocol_def split: run.splits prod.splits)
  from parseProtocolFile_denotes [OF this] show ?thesis
    using assms(2) parseProtocol_frame(3) [OF assms(1)] by (simp add: denotes_files_def files_map_snoc)
qed

section \<open>Listing a directory\<close>

inductive below :: "filesystem \<Rightarrow> string \<Rightarrow> string \<Rightarrow> bool" for fs where
  below_entry: "fs_directory_iterator fs dir = Some es \<Longrightarrow> x \<in> set es \<Longrightarrow> below fs dir x"
| below_sub: "fs_directory_iterator fs dir = Some es \<Longrightarrow> d \<in> set es \<Longrightarrow> \<not> fs_is_regular_file fs d \<Longrightarrow>
    fs_is_directory fs d \<Longrightarrow> below fs d x \<Longrightarrow> below fs dir x"

inductive_simps below_unfold: "below fs dir x"

definition yaml_file :: "filesystem \<Rightarrow> string \<Rightarrow> bool" where
  "yaml_file fs x \<longleftrightarrow> fs_is_regular_file fs x \<and> path_extension x = ''.yaml''"

definition entry_files :: "filesystem \<Rightarrow> string list \<Rightarrow> string set" where
  "entry_files fs es = {x. yaml_file fs x \<and>
     (x \<in> set es \<or> (\<exists>d\<in>set es. \<not> fs_is_regular_file fs d \<and> fs_is_directory fs d \<and> below fs d x))}"

lemma below_files:
  "fs_directory_iterator fs dir = Some es \<Longrightarrow> {x. below fs dir x \<and> yaml_file fs x} = entry_files fs es"
  by (auto simp: entry_files_def below_unfold [of fs dir])

lemma entry_files_Cons:
  "entry_files fs (e # es) = entry_files fs es \<union> (if yaml_file fs e then {e} else {}) \<union>
     (if \<not> fs_is_regular_file fs e \<and> fs_is_directory fs e then {x. below fs e x \<and> yaml_file fs x} else {})"
  by (auto simp: entry_files_def)

lemma entries_loop_lists:
  assumes "\<And>d q q'. recurse d q = Some (Returns (0, q')) \<Longrightarrow>
      set (yamlPaths q') = set (yamlPaths q) \<union> {x. below fs d x \<and> yaml_file fs x}"
  shows "entries_loop fs px ry recurse es err p = Some (Returns (0, p')) \<Longrightarrow>
    set (yamlPaths p') = set (yamlPaths p) \<union> entry_files fs es"
proof (induction es arbitrary: err p)
  case Nil
  then show ?case
    by (simp add: entry_files_def)
next
  case (Cons e es)
  consider (yaml) "yaml_file fs e" | (dir) "\<not> fs_is_regular_file fs e" "fs_is_directory fs e"
    | (skip) "\<not> yaml_file fs e" "fs_is_regular_file fs e \<or> \<not> fs_is_directory fs e"
    by (auto simp: yaml_file_def)
  then show ?case
  proof cases
    case yaml
    let ?p = "p\<lparr>yamlPaths := yamlPaths p @ [e]\<rparr>"
    obtain c q where q: "parseProtocol px ry e ?p = Returns (c, q)"
      using Cons.prems yaml by (cases "parseProtocol px ry e ?p") (auto simp: yaml_file_def)
    moreover obtain err' where "entries_loop fs px ry recurse es err' q = Some (Returns (0, p'))"
      using Cons.prems yaml q by (auto simp: yaml_file_def split: if_splits)
    ultimately show ?thesis
      using Cons.IH parseProtocol_frame(3) [OF q] yaml by (auto simp: entry_files_Cons yaml_file_def)
  next
    case dir
    let ?p = "p\<lparr>mCurrentDepthPathListing := mCurrentDepthPathListing p + 1\<rparr>"
    obtain q where q: "recurse e ?p = Some (Returns (0, q))"
        "entries_loop fs px ry recurse es 0 (q\<lparr>mCurrentDepthPathListing := mCurrentDepthPathListing q - 1\<rparr>) = Some (Returns (0, p'))"
      using Cons.prems dir
      by (auto simp: Let_def PROTOPARSERERR_UNEXPECTED_def split: if_splits option.splits run.splits prod.splits)
    show ?thesis
      using Cons.IH [OF q(2)] assms [OF q(1)] dir by (auto simp: entry_files_Cons yaml_file_def)
  next
    case skip
    then have "entries_loop fs px ry recurse (e # es) err p = entries_loop fs px ry recurse es err p"
      by (auto simp: yaml_file_def)
    then show ?thesis
      using Cons skip by (auto simp: entry_files_Cons)
  qed
qed

lemma walk_lists:
  "listProtocolFiles fuel fs px ry dir p = Some (Returns (0, p')) \<Longrightarrow>
     set (yamlPaths p') = set (yamlPaths p) \<union> {x. below fs dir x \<and> yaml_file fs x}"
proof (induction fuel arbitrary: dir p p')
  case (Suc fuel)
  then obtain es where es: "fs_directory_iterator fs dir = Some es"
      "entries_loop fs px ry (listProtocolFiles fuel fs px ry) es PROTOPARSER_SUCCESS p = Some (Returns (0, p'))"
    by (cases "fs_directory_iterator fs dir") simp_all
  show ?case
    using entries_loop_lists [OF Suc.IH es(2)] by (simp add: below_files [OF es(1)])
qed simp

section \<open>Properties\<close>

text \<open>C22: The parser implements the meaning of a directory: whatever it returns, each of its three databases is
  exactly the map of first definitions of the documents it listed, in the order it listed them (no definition
  is lost, invented or overwritten); and when it reports success, every \<^verbatim>\<open>.yaml\<close> file below the directory, at
  every depth, was listed, and what was listed are YAML files (\<^verbatim>\<open>.yaml\<close> or \<^verbatim>\<open>.yml\<close>) below the directory.\<close>

theorem parser_refines_documents:
  assumes "ProtocolParser_parse fs px ry (new_parser base) = Some (Returns (c, p))"
  shows "getElement (dbVars (mDbs p)) = files_map var_defs px ry (yamlPaths p) \<and>
    getElement (dbIfproto (mDbs p)) = files_map interface_defs px ry (yamlPaths p) \<and>
    getElement (dbServices (mDbs p)) = files_map service_defs px ry (yamlPaths p) \<and>
    (c = PROTOPARSER_SUCCESS \<longrightarrow>
      {x. below fs base x \<and> fs_is_regular_file fs x \<and> path_extension x = ''.yaml''} \<subseteq> set (yamlPaths p) \<and>
      set (yamlPaths p) \<subseteq> {x. below fs base x \<and> fs_is_regular_file fs x \<and> path_extension x \<in> {''.yaml'', ''.yml''}})"
proof -
  have start: "denotes_files px ry (new_parser base)"
    by (auto simp: denotes_files_def new_parser_def empty_dbs_def files_map_def)
  have walked: "denotes_files px ry q"
    if "listProtocolFiles walk_fuel fs px ry base (new_parser base) = Some (Returns (e, q))" for e q
  proof -
    have "denotes_files px ry q \<and> True"
      by (rule walk_preserves [where I = "denotes_files px ry" and E = "\<lambda>_. True", OF _ _ _ _ that start])
        (simp_all add: denotes_files_step, simp add: denotes_files_def)
    then show ?thesis
      by simp
  qed
  have "denotes_files px ry p"
    using assms start walked by (auto simp: ProtocolParser_parse_def new_parser_def split: if_splits option.splits run.splits)
  moreover have "set (yamlPaths p) = {x. below fs base x \<and> yaml_file fs x}" if "c = PROTOPARSER_SUCCESS"
    using assms that walk_lists [of walk_fuel fs px ry base "new_parser base" p]
    by (auto simp: ProtocolParser_parse_def new_parser_def protoparser_codes split: if_splits option.splits run.splits)
  ultimately show ?thesis
    by (auto simp: denotes_files_def yaml_file_def)
qed

theorem parser_refines_documents_witness:
  "getElement (dbVars (mDbs ex_parsed)) = [''svc::x'' \<mapsto> \<lparr>var_mName = ''svc::x'', mSize = 16, mExpectedValues = [], mRange = None, mMask = 0\<rparr>] \<and>
   {x. below ex_fs ''d'' x \<and> fs_is_regular_file ex_fs x \<and> path_extension x = ''.yaml''} \<subseteq> {''d/a.yaml''} \<and>
   below ex_fs ''d'' ''d/a.yaml''"
proof -
  note r = parser_refines_documents [OF ex_parse_ok [unfolded ex_parse_def]]
  have paths: "yamlPaths ex_parsed = [''d/a.yaml'']"
    by code_simp
  have "concat (map (file_defs var_defs (files_api [(''d/a.yaml'', ''doc'')])
        (yaml_api (\<lambda>_. YMap [(''service'', YVal ''svc''), (''vars'', YSeq [YMap [(''var'', YVal ''x''), (''size'', YVal ''0x10'')]])])))
        [''d/a.yaml''])
      = [(''svc::x'', \<lparr>var_mName = ''svc::x'', mSize = 16, mExpectedValues = [], mRange = None, mMask = 0\<rparr>)]"
    by code_simp
  then show ?thesis
    using r unfolding paths files_map_def by simp
qed

end
