(* ===== verification/Validated_Run.thy ===== *)
theory Validated_Run
  imports Packet_Gen
begin

text \<open>
  What \<^verbatim>\<open>packet_gen --validate\<close> promises of a later run: the validator (parser/src/validator.cpp) and the
  parser (parser/src/protocol.cpp, protocol_parser.cpp) read the same directory through different
  calls, the one with \<^verbatim>\<open>recursive_directory_iterator\<close> and \<^verbatim>\<open>std::ifstream\<close>, the other with
  \<^verbatim>\<open>directory_iterator\<close> and \<^verbatim>\<open>mmap\<close>. \<open>recursive_listing\<close> and \<open>same_files\<close> say that both
  look at the same disk: no directory is reached only through a symbolic link, and no file has a
  NUL byte or changes between the two reads.
\<close>

section \<open>The two views of the disk\<close>

inductive reached :: "filesystem \<Rightarrow> string \<Rightarrow> string \<Rightarrow> bool" for fs dir where
  reached_start: "reached fs dir dir"
| reached_entry: "reached fs dir d \<Longrightarrow> fs_directory_iterator fs d = Some es \<Longrightarrow> x \<in> set es \<Longrightarrow> reached fs dir x"

definition recursive_listing :: "filesystem \<Rightarrow> (string \<Rightarrow> string list option) \<Rightarrow> string \<Rightarrow> bool" where
  "recursive_listing fs entries dir \<longleftrightarrow>
     (\<forall>es. entries dir = Some es \<longrightarrow> (\<forall>x. reached fs dir x \<and> fs_is_regular_file fs x \<longrightarrow> x \<in> set es))"

definition same_files :: "posix_files \<Rightarrow> (string \<Rightarrow> string option) \<Rightarrow> bool" where
  "same_files px read_file \<longleftrightarrow> (\<forall>path txt. parser_text px path = Some txt \<longrightarrow> read_file path = Some txt)"

section \<open>A clean validation\<close>

lemma validate_entries_clean:
  assumes "run_fold (validate_entry fs read_file ry rk) es (m, out) = Returns (n, out)"
    and "e \<in> set es" and "fs_is_regular_file fs e" and "path_extension e = ''.yaml''"
  shows "validateProtocolFile read_file ry rk e out = Returns (0, out)"
  using assms(1,2)
proof (induction es arbitrary: m)
  case (Cons x es)
  obtain m1 out1 where first: "validate_entry fs read_file ry rk x (m, out) = Returns (m1, out1)"
      and rest: "run_fold (validate_entry fs read_file ry rk) es (m1, out1) = Returns (n, out)"
    using Cons.prems(1) by (auto simp: run_bind_Returns)
  have "out1 = out"
    using validate_entry_counts [OF first] validate_entries_counts [OF rest] by auto
  show ?case
  proof (cases "x = e")
    case True
    then obtain k where k: "validateProtocolFile read_file ry rk e out = Returns (k, out)"
      using first assms(3,4) \<open>out1 = out\<close> by (auto simp: validate_entry_def run_bind_Returns)
    then show ?thesis
      using validateProtocolFile_counts [OF k] by simp
  next
    case False
    then show ?thesis
      using Cons.IH [of m1] Cons.prems(2) rest \<open>out1 = out\<close> by simp
  qed
qed simp

lemma validate_mode_clean:
  assumes "main_validate env args w = Some (Returns (0, out, w'))"
  obtains es n where "env_entries env (yamlDir args) = Some es"
    "run_fold (validate_entry (env_fs env) (env_read env) (env_ry env) (env_keys env)) es (0, []) = Returns (n, [])"
proof -
  obtain n fs m fs' where dir: "validateDirectory (env_fs env) (env_entries env) (env_read env) (env_ry env) (env_keys env)
        (yamlDir args) [] = Returns (n, fs)"
      and stack: "(if stackFile args \<noteq> [] then validateStackFile (env_read env) (env_ry env) (env_keys env) (stackFile args) fs
        else Returns (0, fs)) = Returns (m, fs')"
      and none: "filter (\<lambda>f. vf_severity f = ERROR) fs' = []"
    using assms by (fastforce simp: main_validate_def run_bind_Returns Let_def split: if_splits)
  have "\<exists>new. fs' = fs @ new"
    using stack validateStackFile_counts by (fastforce split: if_splits)
  then have "fs = []"
    using none validateDirectory_counts [OF dir] by (auto simp: list_all_iff filter_empty_conv)
  then show ?thesis
    using dir that by (auto simp: validateDirectory_def split: if_splits option.splits)
qed

section \<open>The parser on a validated directory\<close>

text \<open>What a file that was read left in the databases: its service, unless the name reads as a number.\<close>

definition file_loaded :: "posix_files \<Rightarrow> 'n ryml \<Rightarrow> string \<Rightarrow> parser_dbs \<Rightarrow> bool" where
  "file_loaded px ry path dbs \<longleftrightarrow>
     (case parser_text px path of
        None \<Rightarrow> True
      | Some txt \<Rightarrow>
          let service = ry_child ry (ry_parse_in_arena ry (c_str path) txt) ''service''
          in ry_val_is_number ry service \<or> getElement (dbServices dbs) (ry_val ry service) \<noteq> None)"

definition narrow_vars :: "Var Database \<Rightarrow> bool" where
  "narrow_vars db \<longleftrightarrow> (\<forall>k v. getElement db k = Some v \<longrightarrow> 1 \<le> unat (getSize v) \<and> unat (getSize v) \<le> 4096)"

lemma file_loaded_grows: "dbs_grow dbs dbs' \<Longrightarrow> file_loaded px ry path dbs \<Longrightarrow> file_loaded px ry path dbs'"
  by (fastforce simp: file_loaded_def dbs_grow_def grows_def Let_def split: option.splits)

lemma validated_file_step:
  assumes "ryml_node_laws ry" and "same_files px read_file"
    and "validateProtocolFile read_file ry rk path [] = Returns (0, [])"
    and "parseProtocolFile px ry path dbs = Returns (e, dbs')" and "narrow_vars (dbVars dbs)"
  shows "narrow_vars (dbVars dbs') \<and> file_loaded px ry path dbs'"
proof (cases "parser_text px path")
  case None
  then show ?thesis
    using parseProtocolFile_text [OF assms(4)] assms(5) by (simp add: file_loaded_def)
next
  case (Some doc)
  let ?root = "ry_parse_in_arena ry (c_str path) doc"
  have "read_file path = Some doc"
    using assms(2) Some by (simp add: same_files_def)
  note valid = validated_file_loads [OF assms(1) this assms(3) refl, of dbs]
  have parsed: "parse_tree ry ?root dbs = (e, dbs')"
    using parseProtocolFile_text [OF assms(4)] Some by simp
  have "1 \<le> unat (getSize v) \<and> unat (getSize v) \<le> 4096" if "getElement (dbVars dbs') k = Some v" for k v
  proof (cases "getElement (dbVars dbs) k")
    case None
    then show ?thesis
      using valid that by (simp add: parsed)
  next
    case (Some v')
    then have "v' = v"
      using parse_tree_grows [OF parsed] that by (fastforce simp: dbs_grow_def grows_def)
    then show ?thesis
      using assms(5) Some by (simp add: narrow_vars_def)
  qed
  then show ?thesis
    using valid parse_tree_all_or_nothing [of ry ?root dbs] Some
    by (auto simp: narrow_vars_def file_loaded_def parsed proto_codes Let_def)
qed

lemma validated_walk:
  assumes "ryml_node_laws ry" and "same_files px read_file" and "recursive_listing fs entries dir"
    and "entries dir = Some es" and "run_fold (validate_entry fs read_file ry rk) es (0, []) = Returns (n, [])"
    and "listProtocolFiles fuel fs px ry dir (new_parser dir) = Some (Returns (e, p))"
  shows "dbs_keyed (mDbs p) \<and> narrow_vars (dbVars (mDbs p)) \<and>
    list_all (\<lambda>path. file_loaded px ry path (mDbs p)) (yamlPaths p)"
proof -
  let ?I = "\<lambda>q. dbs_keyed (mDbs q) \<and> narrow_vars (dbVars (mDbs q)) \<and>
    list_all (\<lambda>path. file_loaded px ry path (mDbs q)) (yamlPaths q)"
  have step: "?I q' \<and> True"
    if prem: "reached fs dir path" "fs_is_regular_file fs path" "path_extension path = ''.yaml''"
      "parseProtocol px ry path (q\<lparr>yamlPaths := yamlPaths q @ [path]\<rparr>) = Returns (c, q')" "?I q" for path q c q'
  proof -
    have "path \<in> set es"
      using assms(3,4) prem(1,2) by (simp add: recursive_listing_def)
    note clean = validate_entries_clean [OF assms(5) this prem(2,3)]
    obtain c' where parsed: "parseProtocolFile px ry path (mDbs q) = Returns (c', mDbs q')"
      using prem(4) by (auto simp: parseProtocol_def split: run.splits prod.splits)
    show ?thesis
      using validated_file_step [OF assms(1,2) clean parsed] parseProtocol_frame(1,3) [OF prem(4)] prem(5)
      by (auto simp: list_all_iff intro: file_loaded_grows dbs_grow_keyed)
  qed
  have start: "?I (new_parser dir)"
    using dbs_keyed_empty by (simp add: new_parser_def empty_dbs_def narrow_vars_def)
  have "list_all (reached fs dir) xs" if "reached fs dir d" "fs_directory_iterator fs d = Some xs" for d xs
    using that reached_entry by (force simp: list_all_iff)
  from walk_preserves_on [where F = "reached fs dir" and I = ?I and E = "\<lambda>_. True", OF step _ _ _ this assms(6) reached_start start]
  show ?thesis
    by simp
qed

lemma narrow_sane:
  assumes "db_inv db" and "narrow_vars db"
  shows "sane_widths db"
proof -
  have "getSize v < 0x80000000" if "(k, v) \<in> set (internalMaps db)" for k v
  proof -
    have "unat (getSize v) \<le> 4096"
      using assms that getElement_iff_mem by (fastforce simp: narrow_vars_def)
    then show ?thesis
      by (simp add: word_less_nat_alt)
  qed
  then show ?thesis
    by (auto simp: sane_widths_def list_all_iff)
qed

lemma Session_parse_walk:
  assumes "Session_parse fs px ry s = Some (Returns (ok, s'))" and "mParser s = new_parser dir"
  shows "mParser s' = new_parser dir \<or>
    (\<exists>e. listProtocolFiles walk_fuel fs px ry dir (new_parser dir) = Some (Returns (e, mParser s')))"
  using assms by (auto simp: Session_parse_def ProtocolParser_parse_def new_parser_def split: if_splits option.splits run.splits)

section \<open>Properties\<close>

text \<open>C23: A directory that \<^verbatim>\<open>packet_gen --validate\<close> accepts is fit for a run: when a session parses it, every
  file the walk lists has its service in the database (unless the name reads as a number, which
  only the parser rejects), every variable is 1 to 4096 bits wide, and every frame stacked
  from interfaces has exactly the octets \<^verbatim>\<open>layerBytes\<close> gives for its layers, so the decoder finds
  each layer where it was packed.\<close>

theorem validated_directory_is_fit:
  assumes "ryml_node_laws (env_ry env)" and "same_files (env_files env) (env_read env)"
    and "recursive_listing (env_fs env) (env_entries env) (yamlDir args)"
    and "a_validate args" and "main_args env args w = Some (Returns (0, out, w'))"
    and "Session_parse (env_fs env) (env_files env) (env_ry env) (new_session env (yamlDir args)) = Some (Returns (ok, s))"
  shows "narrow_vars (varDatabase s) \<and>
    list_all (\<lambda>path. file_loaded (env_files env) (env_ry env) path (mDbs (mParser s))) (yamlPaths (mParser s)) \<and>
    length (sp_bytes (fst (generateStack_ifaces dist s layers))) = (\<Sum>iface\<leftarrow>layers. layerBytes iface (varDatabase s))"
proof -
  let ?dir = "yamlDir args"
  have "main_validate env args w = Some (Returns (0, out, w'))"
    using assms(4,5) by (simp add: main_args_def)
  then obtain es n where es: "env_entries env ?dir = Some es"
      "run_fold (validate_entry (env_fs env) (env_read env) (env_ry env) (env_keys env)) es (0, []) = Returns (n, [])"
    by (rule validate_mode_clean)
  consider "mParser s = new_parser ?dir"
    | e where "listProtocolFiles walk_fuel (env_fs env) (env_files env) (env_ry env) ?dir (new_parser ?dir) = Some (Returns (e, mParser s))"
    using Session_parse_walk [OF assms(6), of ?dir] by (auto simp: new_session_def)
  then have inv: "dbs_keyed (mDbs (mParser s)) \<and> narrow_vars (varDatabase s) \<and>
      list_all (\<lambda>path. file_loaded (env_files env) (env_ry env) path (mDbs (mParser s))) (yamlPaths (mParser s))"
  proof cases
    case 1
    then show ?thesis
      using dbs_keyed_empty by (simp add: varDatabase_def new_parser_def empty_dbs_def narrow_vars_def)
  next
    case 2
    show ?thesis
      using validated_walk [OF assms(1-3) es 2] by (simp add: varDatabase_def)
  qed
  then have "db_inv (varDatabase s)"
    by (simp add: dbs_keyed_def keyed_def varDatabase_def)
  then show ?thesis
    using inv generateStack_ifaces_length [OF narrow_sane] by blast
qed

definition ex_checked_env :: "(yaml, ex_world, nat) env" where
  "ex_checked_env = ex_env\<lparr>env_read := (\<lambda>p. Some (if p = ''s.yaml'' then ''stack'' else ''doc''))\<rparr>"

definition ex_check_args :: Args where
  "ex_check_args = default_args\<lparr>yamlDir := ''d'', a_validate := True\<rparr>"

lemma ex_checked: "main_args ex_checked_env ex_check_args w = Some (Returns (0, [], w))"
proof -
  have "main_validate ex_checked_env ex_check_args w = Some (Returns (0, [], w))"
    by code_simp
  then show ?thesis
    by (simp add: main_args_def ex_check_args_def)
qed

lemma ex_checked_disk:
  "same_files (env_files ex_checked_env) (env_read ex_checked_env)"
  "recursive_listing (env_fs ex_checked_env) (env_entries ex_checked_env) ''d''"
proof -
  show "same_files (env_files ex_checked_env) (env_read ex_checked_env)"
    by (auto simp: same_files_def parser_text_def ex_checked_env_def ex_env_def files_api_def mapped_text_def c_str_def
        split: if_splits)
  have "x \<in> {''d'', ''d/readme.md'', ''d/a.yaml''}" if "reached ex_fs ''d'' x" for x
    using that by induction (auto simp: ex_fs_def split: if_splits)
  then show "recursive_listing (env_fs ex_checked_env) (env_entries ex_checked_env) ''d''"
    by (auto simp: recursive_listing_def ex_checked_env_def ex_env_def ex_fs_def)
qed

theorem validated_directory_is_fit_witness:
  "narrow_vars (varDatabase ex_loaded) \<and> yamlPaths (mParser ex_loaded) = [''d/a.yaml''] \<and>
   list_all (\<lambda>path. file_loaded (env_files ex_checked_env) (env_ry ex_checked_env) path (mDbs (mParser ex_loaded)))
     (yamlPaths (mParser ex_loaded))"
proof -
  have "Session_parse (env_fs ex_checked_env) (env_files ex_checked_env) (env_ry ex_checked_env)
      (new_session ex_checked_env (yamlDir ex_check_args)) = Some (Returns (True, ex_loaded))"
    using ex_loaded_ok by (simp add: ex_checked_env_def ex_check_args_def new_session_def)
  from validated_directory_is_fit [OF _ ex_checked_disk(1) _ _ ex_checked this]
  have "narrow_vars (varDatabase ex_loaded) \<and>
     list_all (\<lambda>path. file_loaded (env_files ex_checked_env) (env_ry ex_checked_env) path (mDbs (mParser ex_loaded)))
       (yamlPaths (mParser ex_loaded))"
    using ex_checked_disk(2) by (simp add: ex_check_args_def ex_checked_env_def ex_env_def yaml_api_laws)
  moreover have "yamlPaths (mParser ex_loaded) = [''d/a.yaml'']"
    by code_simp
  ultimately show ?thesis
    by simp
qed

end
