(* ===== verification/Validated_Stack.thy ===== *)
theory Validated_Stack
  imports Validated_Run
begin

text \<open>
  What \<^verbatim>\<open>packet_gen --validate --stack-file\<close> promises of a later \<^verbatim>\<open>--stack-file\<close> run: the validator
  (parser/src/validator.cpp) checks the form of a stack document, the builder (parser/src/stack_builder.cpp) binds its
  layers to services and modules. A document of the right form is refused only for a name that is not known,
  which the validator does not look at.
\<close>

section \<open>A clean stack document\<close>

lemma run_fold_Returns: "run_fold (\<lambda>x c. Returns (f x c)) xs c = Returns (fold f xs c)"
  by (induction xs arbitrary: c) simp_all

lemma fold_clean:
  assumes "\<And>x ctx. reports ctx (f x ctx)" and "fold f xs ctx = ctx" and "x \<in> set xs"
  shows "f x ctx = ctx"
  using run_fold_clean [of "\<lambda>x c. Returns (f x c)" xs ctx ctx x] assms by (simp add: run_fold_Returns)

lemma reports_between: "reports a b \<Longrightarrow> reports b a \<Longrightarrow> b = a"
  by (rule reports_nothing [OF _ reports_errors])

definition layer_form :: "'n ryml \<Rightarrow> 'n \<Rightarrow> bool" where
  "layer_form ry n \<longleftrightarrow> ry_is_map ry n \<and> ry_has_child ry n ''service'' \<and> isNonEmptyScalar ry (ry_child ry n ''service'')"

definition stack_form :: "'n ryml \<Rightarrow> 'n \<Rightarrow> bool" where
  "stack_form ry root \<longleftrightarrow> ry_has_child ry root ''stack'' \<and> isNonEmptyScalar ry (ry_child ry root ''stack'') \<and>
     ry_has_child ry root ''layers'' \<and> ry_is_seq ry (ry_child ry root ''layers'') \<and>
     list_all (layer_form ry) (ry_children ry (ry_child ry root ''layers''))"

lemma keys_add_if_clean:
  assumes "reports (add_if ry rk bad n txt (checkAllowedKeys ry rk m keys loc ctx)) ctx"
  shows "add_if ry rk bad n txt (checkAllowedKeys ry rk m keys loc ctx) = ctx" and "\<not> bad"
proof -
  have keys: "checkAllowedKeys ry rk m keys loc ctx = ctx"
    by (rule reports_between [OF reports_keys reports_trans [OF reports_add_if assms]])
  then show "add_if ry rk bad n txt (checkAllowedKeys ry rk m keys loc ctx) = ctx"
    using assms reports_between [OF reports_add_if] by simp
  with keys show "\<not> bad"
    by (simp add: add_if_clean)
qed

lemma validate_layer_clean:
  assumes "validate_layer ry rk n ctx = ctx"
  shows "layer_form ry n"
proof -
  have map: "ry_is_map ry n"
    using assms by (auto simp: validate_layer_def ctx_add_changes split: if_splits)
  then have "reports (add_if ry rk (\<not> ry_has_child ry n ''service'' \<or> \<not> isNonEmptyScalar ry (ry_child ry n ''service'')) n
      (msg [''layer missing a non-empty '', sq ''service''])
      (checkAllowedKeys ry rk n [''service'', ''entity'', ''interface'', ''bypass-logic''] ''a layer'' ctx)) ctx"
    using assms unfolding validate_layer_def Let_def by (simp only: not_True_eq_False if_False reports_refl)
  from keys_add_if_clean(2) [OF this] show ?thesis
    using map by (simp add: layer_form_def)
qed

text \<open>The part of the check of a stack document that looks at its layers.\<close>

definition check_layers :: "'n ryml \<Rightarrow> 'n ryml_keys \<Rightarrow> 'n \<Rightarrow> Ctx \<Rightarrow> Ctx" where
  "check_layers ry rk root ctx =
     (if \<not> ry_has_child ry root ''layers'' then ctx_add ry rk (Some root) ERROR (msg [''missing '', sq ''layers'']) ctx
      else
        let layers = ry_child ry root ''layers'' in
        if \<not> ry_is_seq ry layers \<or> length (ry_children ry layers) = 0
        then ctx_add ry rk (Some layers) ERROR (msg [sq ''layers'', '' must be a non-empty list'']) ctx
        else fold (validate_layer ry rk) (ry_children ry layers) ctx)"

lemma reports_check_layers: "reports ctx (check_layers ry rk root ctx)"
  using reports_fold [where f = "validate_layer ry rk", OF reports_layer] by (auto simp: check_layers_def Let_def)

lemma stack_body_clean:
  assumes "stack_body ry rk root ctx = ctx"
  shows "stack_form ry root"
proof -
  let ?layers = "ry_child ry root ''layers''"
  let ?bad = "\<not> ry_has_child ry root ''stack'' \<or> \<not> isNonEmptyScalar ry (ry_child ry root ''stack'')"
  let ?c = "add_if ry rk ?bad root (msg [''missing required non-empty '', sq ''stack''])
    (checkAllowedKeys ry rk root [''stack'', ''layers''] ''the top level'' ctx)"
  have body: "check_layers ry rk root ?c = ctx"
    using assms unfolding stack_body_def check_layers_def Let_def .
  have "reports ?c ctx"
    using reports_check_layers [of ?c ry rk root] unfolding body .
  note c = keys_add_if_clean [OF this]
  have layers: "ry_has_child ry root ''layers''" "ry_is_seq ry ?layers"
    "fold (validate_layer ry rk) (ry_children ry ?layers) ctx = ctx"
    using body unfolding c(1) by (auto simp: check_layers_def ctx_add_changes Let_def split: if_splits)
  have "list_all (layer_form ry) (ry_children ry ?layers)"
    using fold_clean [where f = "validate_layer ry rk", OF reports_layer layers(3)] validate_layer_clean by (fastforce simp: list_all_iff)
  then show ?thesis
    using layers c(2) by (simp add: stack_form_def)
qed

lemma validated_stack_form:
  assumes "validateStackFile read_file ry rk path out = Returns (0, out')" and "read_file path = Some buf"
    and "root = ry_parse_in_arena ry (c_str path) buf"
  shows "\<not> ry_tree_empty ry root \<and> ry_is_map ry root \<and> stack_form ry root"
proof -
  let ?ctx = "\<lparr>ctx_path = path, ctx_out = out, ctx_errors = 0\<rparr>"
  have root: "\<not> ry_tree_empty ry root" "ry_is_map ry root" and "ctx_errors (stack_body ry rk root ?ctx) = 0"
    using assms by (auto simp: validateStackFile_def withRoot_def ctx_add_def Let_def split: if_splits)
  then have "stack_body ry rk root ?ctx = ?ctx"
    by (intro reports_nothing [OF reports_stack_body]) simp
  then show ?thesis
    using root stack_body_clean [of ry rk root ?ctx] by simp
qed

section \<open>Building it\<close>

definition resolvable :: "'n ryml \<Rightarrow> ProtocolService Database \<Rightarrow> LogicRegistry \<Rightarrow> 'n \<Rightarrow> bool" where
  "resolvable ry db reg n \<longleftrightarrow> bound_module db reg (ry_val ry (ry_child ry n ''service'')) (bypass_flag ry n) \<noteq> None"

lemma build_layer_form:
  assumes "layer_form ry n"
  shows "(\<exists>l. build_layer ry db reg n = Inr l) \<longleftrightarrow> resolvable ry db reg n"
  using assms
  by (auto simp: build_layer_def layer_form_def resolvable_def bound_module_def hasLogic_def Let_def split: option.splits if_splits)

lemma build_layers_form:
  "list_all (layer_form ry) ns \<Longrightarrow> (\<exists>s'. build_layers ry db reg ns s = Inr s') \<longleftrightarrow> list_all (resolvable ry db reg) ns"
proof (induction ns arbitrary: s)
  case (Cons n ns)
  then show ?case
    using build_layer_form [of ry n db reg] by (cases "build_layer ry db reg n") auto
qed simp

lemma build_tree_form:
  assumes "ryml_node_laws ry" and "\<not> ry_tree_empty ry root" and "ry_is_map ry root" and "stack_form ry root"
  shows "(\<exists>s. build_tree ry db reg root = Inr s) \<longleftrightarrow>
    list_all (resolvable ry db reg) (ry_children ry (ry_child ry root ''layers''))"
proof -
  have ok: "\<not> ry_invalid ry (ry_child ry root ''stack'')" "ry_has_val ry (ry_child ry root ''stack'')"
    "\<not> ry_invalid ry (ry_child ry root ''layers'')" "ry_is_seq ry (ry_child ry root ''layers'')"
    using assms(1,4) by (auto simp: stack_form_def isNonEmptyScalar_def ryml_node_laws_def)
  show ?thesis
    unfolding build_layers_form [of ry _ db reg "\<lparr>stk_mName = ry_val ry (ry_child ry root ''stack''), mLayers = []\<rparr>", symmetric,
        OF assms(4) [unfolded stack_form_def, THEN conjunct2, THEN conjunct2, THEN conjunct2, THEN conjunct2]]
    using assms(2,3) ok by (auto simp: build_tree_def Let_def split: sum.splits)
qed

text \<open>The text the stack builder hands to rapidyaml, when it gets that far.\<close>

definition stack_text :: "posix_files \<Rightarrow> string \<Rightarrow> string option" where
  "stack_text px path =
     (let fd = px_open px path; len = px_lseek_end px fd in
      if fd < 0 \<or> len \<le> 0 then None else map_option (take (nat len)) (px_mmap px fd len))"

lemma StackBuilder_build_text:
  assumes "stack_text px path = Some buf"
  shows "StackBuilder_build px ry db reg path =
    (case build_tree ry db reg (ry_parse_in_arena ry (c_str path) buf) of
       Inl e \<Rightarrow> (e, None)
     | Inr stack \<Rightarrow> (STACK_SUCCESS, Some stack))"
  using assms by (auto simp: StackBuilder_build_def stack_text_def Let_def split: if_splits)

lemma validate_mode_stack_clean:
  assumes "main_validate env args w = Some (Returns (0, out, w'))" and "stackFile args \<noteq> []"
  obtains fs fs' where "validateStackFile (env_read env) (env_ry env) (env_keys env) (stackFile args) fs = Returns (0, fs')"
proof -
  obtain n fs m fs' where stack: "validateStackFile (env_read env) (env_ry env) (env_keys env) (stackFile args) fs = Returns (m, fs')"
      and none: "filter (\<lambda>f. vf_severity f = ERROR) fs' = []"
    using assms by (fastforce simp: main_validate_def run_bind_Returns Let_def split: if_splits)
  then have "m = 0"
    using validateStackFile_counts [OF stack] by (auto simp: list_all_iff filter_empty_conv)
  then show ?thesis
    using stack that by simp
qed

section \<open>Properties\<close>

text \<open>C24: What \<^verbatim>\<open>packet_gen --validate --stack-file\<close> promises of the run without \<^verbatim>\<open>--validate\<close>: when it ends with
  exit code 0 and the builder reads the same text, a counted run of that stack file without a transport writes one line per
  frame and ends with exit code 0 exactly when every layer of the document names a known service whose logic
  is bypassed, absent or registered; otherwise it writes nothing and ends with exit code 2. No
  other fault of the document is left to the builder.\<close>

theorem validated_stack_runs:
  assumes "ryml_node_laws (env_ry env)"
    and "stack_text (env_files env) (stackFile args) = Some buf" and "env_read env (stackFile args) = Some buf"
    and "main_args env (args\<lparr>a_validate := True\<rparr>) w = Some (Returns (0, out, w'))"
    and "stackFile args \<noteq> []" and "\<not> a_validate args" and "\<not> listInterfaces args" and "\<not> a_decode args"
    and "Session_parse (env_fs env) (env_files env) (env_ry env) (new_session env (yamlDir args)) = Some (Returns (True, session))"
    and "makeSender (a_transport args) w = None" and "a_count args \<noteq> 0"
    and "root = ry_parse_in_arena (env_ry env) (c_str (stackFile args)) buf"
  shows "if list_all (resolvable (env_ry env) (serviceDatabase session) (env_registry env))
      (ry_children (env_ry env) (ry_child (env_ry env) root ''layers''))
    then \<exists>ls. main_args env args w = exits 0 ls w \<and> length ls = unat (a_count args)
    else main_args env args w = exits 2 [] w"
proof -
  let ?tree = "build_tree (env_ry env) (serviceDatabase session) (env_registry env) root"
  have "main_validate env (args\<lparr>a_validate := True\<rparr>) w = Some (Returns (0, out, w'))"
    using assms(4) by (simp add: main_args_def)
  then obtain fs fs' where "validateStackFile (env_read env) (env_ry env) (env_keys env) (stackFile args) fs = Returns (0, fs')"
    by (rule validate_mode_stack_clean) (use assms(5) in simp_all)
  from validated_stack_form [OF this assms(3,12)]
  have built: "(\<exists>s. ?tree = Inr s) \<longleftrightarrow> list_all (resolvable (env_ry env) (serviceDatabase session) (env_registry env))
      (ry_children (env_ry env) (ry_child (env_ry env) root ''layers''))"
    using build_tree_form [OF assms(1)] by blast
  have load: "loadStack (env_files env) (env_ry env) (env_registry env) session (stackFile args) =
      (case ?tree of Inl e \<Rightarrow> (e, None) | Inr stack \<Rightarrow> (STACK_SUCCESS, Some stack))"
    by (simp add: loadStack_def StackBuilder_build_text [OF assms(2)] assms(12))
  show ?thesis
  proof (cases ?tree)
    case (Inl e)
    then show ?thesis
      using built load assms(5-7) build_tree_Inl [OF Inl]
      by (auto simp: main_args_def assms(9) main_stack_file_def stack_codes)
  next
    case (Inr stack)
    then show ?thesis
      using built load stack_file_run_output [OF assms(6,7,5,8,9) _ assms(10,11), of STACK_SUCCESS stack] by auto
  qed
qed

definition ex_stack_args :: Args where
  "ex_stack_args = ex_run_args\<lparr>a_stack := [], stackFile := ''s.yaml'', a_count := 2\<rparr>"

theorem validated_stack_runs_witness:
  "\<exists>ls. main_args ex_checked_env ex_stack_args ([], [], 0) = exits 0 ls ([], [], 0) \<and> length ls = 2"
proof -
  have valid: "main_validate ex_checked_env (ex_stack_args\<lparr>a_validate := True\<rparr>) ([], [], 0) = Some (Returns (0, [], ([], [], 0)))"
    by code_simp
  have read: "stack_text (env_files ex_checked_env) (stackFile ex_stack_args) = Some ''stack''"
    "env_read ex_checked_env (stackFile ex_stack_args) = Some ''stack''"
    by code_simp+
  have layers: "list_all (resolvable (env_ry ex_checked_env) (serviceDatabase ex_loaded) (env_registry ex_checked_env))
      (ry_children (env_ry ex_checked_env)
        (ry_child (env_ry ex_checked_env) (ry_parse_in_arena (env_ry ex_checked_env) (c_str (stackFile ex_stack_args)) ''stack'') ''layers''))"
    by code_simp
  show ?thesis
    using validated_stack_runs [OF _ read, where session = ex_loaded and w = "([], [], 0)" and root = "ry_parse_in_arena (env_ry ex_checked_env) (c_str (stackFile ex_stack_args)) ''stack''"] layers valid ex_loaded_ok
    by (simp add: main_args_def ex_stack_args_def ex_checked_env_def ex_env_def yaml_api_laws ex_run_args_def default_args_def
        makeSender_def split_transport_def new_session_def)
qed

end
