(* ===== verification/Error_Reports.thy ===== *)
theory Error_Reports
  imports Packet_Gen
begin

text \<open>
  The error objects the components hand out. \<^verbatim>\<open>getErrorMsg\<close> (parser/inc/tsn/error.h) asserts that the code has
  a message, and not every enumerator has one: the vector of \<^verbatim>\<open>ProtocolParserErr\<close> is two short. \<open>reported\<close>
  collects the codes the operations return, each with the message vector of its class.
\<close>

section \<open>Reported codes\<close>

inductive reported ::
    "filesystem \<Rightarrow> posix_files \<Rightarrow> 'n ryml \<Rightarrow> LogicRegistry \<Rightarrow> 'w sys \<Rightarrow> 'g distribution \<Rightarrow> string list \<Rightarrow> int \<Rightarrow> bool"
  for fs px ry reg sys dist where
  rep_database: "addUniqueElement name (v :: Var) db = (c, db') \<Longrightarrow> reported fs px ry reg sys dist DatabaseErr_vector c"
| rep_file: "parseProtocolFile px ry path dbs = Returns (c, dbs') \<Longrightarrow> reported fs px ry reg sys dist ProtocolErr_vector c"
| rep_parser: "ProtocolParser_parse fs px ry p = Some (Returns (c, p')) \<Longrightarrow> reported fs px ry reg sys dist ProtocolParserErr_vector c"
| rep_stack: "StackBuilder_build px ry services reg path = (c, stack) \<Longrightarrow> reported fs px ry reg sys dist StackBuilderErr_vector c"
| rep_sender_open: "any_sender_open sys s = Some (c, s') \<Longrightarrow> reported fs px ry reg sys dist SenderErr_vector c"
| rep_sender_send: "any_sender_send sys packet s = Some (c, s') \<Longrightarrow> reported fs px ry reg sys dist SenderErr_vector c"
| rep_receiver_open: "any_receiver_open sys r = Some (c, r') \<Longrightarrow> reported fs px ry reg sys dist ReceiverErr_vector c"
| rep_receiver: "any_receiver_receive sys packet r = Some (c, packet', r') \<Longrightarrow> reported fs px ry reg sys dist ReceiverErr_vector c"
| rep_generator_open: "TrafficGenerator_open (any_sender_ops sys) (tg :: ('w any_sender, 'g) TrafficGenerator) = Some (c, tg') \<Longrightarrow>
    reported fs px ry reg sys dist TrafficGeneratorErr_vector c"
| rep_generator_send: "TrafficGenerator_send (any_sender_ops sys) dist name tg = Some (c, tg') \<Longrightarrow>
    reported fs px ry reg sys dist TrafficGeneratorErr_vector c"
| rep_generator_filtered: "sendFiltered (any_sender_ops sys) dist dir tg = Some (c, tg') \<Longrightarrow>
    reported fs px ry reg sys dist TrafficGeneratorErr_vector c"
| rep_generator_all: "sendAll (any_sender_ops sys) dist tg = Some (c, tg') \<Longrightarrow>
    reported fs px ry reg sys dist TrafficGeneratorErr_vector c"
| rep_generator_loop: "sendLoop (any_sender_ops sys) dist name count tg = Some (c, tg') \<Longrightarrow>
    reported fs px ry reg sys dist TrafficGeneratorErr_vector c"

section \<open>The codes of the traffic generator\<close>

lemma sendOne_code:
  "sendOne ops dist iface tg = Some (c, tg') \<Longrightarrow> c \<in> {TGEN_SUCCESS .. TGEN_ERR_EMPTY_PACKET}"
  by (auto simp: sendOne_def Let_def tgen_codes split: prod.splits if_splits option.splits)

lemma send_all_of_code:
  "send_all_of ops dist ifaces e tg = Some (c, tg') \<Longrightarrow> e \<in> {TGEN_SUCCESS .. TGEN_ERR_EMPTY_PACKET} \<Longrightarrow>
     c \<in> {TGEN_SUCCESS .. TGEN_ERR_EMPTY_PACKET}"
proof (induction ops dist ifaces e tg rule: send_all_of.induct)
  case (2 ops dist iface ifaces e tg)
  obtain c1 tg1 where one: "sendOne ops dist iface tg = Some (c1, tg1)"
    using 2(2) by (auto split: option.splits)
  show ?case
    using 2(1) [OF one refl] 2(2,3) one sendOne_code [OF one] by (auto simp: record_error_def)
qed simp

lemma sendLoop_loop_code:
  assumes "sendLoop_loop ops dist iface count i tg = Some r"
  shows "fst r \<in> {TGEN_SUCCESS, TGEN_ERR_SEND_FAILED}"
proof (rule sendLoop_loop.raw_induct [OF _ assms,
      where P = "\<lambda>ops dist iface count i tg r. fst r \<in> {TGEN_SUCCESS, TGEN_ERR_SEND_FAILED}"], goal_cases)
  case (1 loop ops dist iface count i tg r)
  note IH = 1(1)
  from 1(2) show ?case
    by (auto split: if_splits prod.splits option.splits dest!: IH)
qed

lemma generator_codes:
  "TrafficGenerator_open ops tg = Some (c, tg') \<Longrightarrow> c \<in> {TGEN_SUCCESS .. TGEN_ERR_EMPTY_PACKET}"
  "TrafficGenerator_send ops dist name tg = Some (c, tg') \<Longrightarrow> c \<in> {TGEN_SUCCESS .. TGEN_ERR_EMPTY_PACKET}"
  "sendFiltered ops dist dir tg = Some (c, tg') \<Longrightarrow> c \<in> {TGEN_SUCCESS .. TGEN_ERR_EMPTY_PACKET}"
  "sendAll ops dist tg = Some (c, tg') \<Longrightarrow> c \<in> {TGEN_SUCCESS .. TGEN_ERR_EMPTY_PACKET}"
  "sendLoop ops dist name count tg = Some (c, tg') \<Longrightarrow> c \<in> {TGEN_SUCCESS .. TGEN_ERR_EMPTY_PACKET}"
proof -
  show "TrafficGenerator_open ops tg = Some (c, tg') \<Longrightarrow> c \<in> {TGEN_SUCCESS .. TGEN_ERR_EMPTY_PACKET}"
    by (auto simp: TrafficGenerator_open_def tgen_codes split: option.splits if_splits)
  show "TrafficGenerator_send ops dist name tg = Some (c, tg') \<Longrightarrow> c \<in> {TGEN_SUCCESS .. TGEN_ERR_EMPTY_PACKET}"
    using sendOne_code by (force simp: TrafficGenerator_send_def tgen_codes split: option.splits if_splits)
  show "sendFiltered ops dist dir tg = Some (c, tg') \<Longrightarrow> c \<in> {TGEN_SUCCESS .. TGEN_ERR_EMPTY_PACKET}"
    using send_all_of_code by (cases "tg_mOpen tg") (force simp: sendFiltered_eq generator_closed tgen_codes)+
  show "sendAll ops dist tg = Some (c, tg') \<Longrightarrow> c \<in> {TGEN_SUCCESS .. TGEN_ERR_EMPTY_PACKET}"
    using send_all_of_code by (cases "tg_mOpen tg") (force simp: sendAll_eq generator_closed tgen_codes)+
  show "sendLoop ops dist name count tg = Some (c, tg') \<Longrightarrow> c \<in> {TGEN_SUCCESS .. TGEN_ERR_EMPTY_PACKET}"
    by (auto simp: sendLoop_def tgen_codes split: if_splits option.splits dest!: sendLoop_loop_code)
qed

section \<open>Properties\<close>

lemma any_transport_codes:
  "any_sender_open sys s = Some (c, s') \<Longrightarrow> c \<in> {SENDER_SUCCESS .. SENDER_ERR_NOT_OPEN}"
  "any_sender_send sys p s = Some (c, s') \<Longrightarrow> c \<in> {SENDER_SUCCESS .. SENDER_ERR_NOT_OPEN}"
  "any_receiver_open sys r = Some (c, r') \<Longrightarrow> c \<in> {RECEIVER_SUCCESS .. RECEIVER_ERR_EOF}"
  "any_receiver_receive sys p r = Some (c, p', r') \<Longrightarrow> c \<in> {RECEIVER_SUCCESS .. RECEIVER_ERR_EOF}"
proof -
  show "any_sender_open sys s = Some (c, s') \<Longrightarrow> c \<in> {SENDER_SUCCESS .. SENDER_ERR_NOT_OPEN}"
    using any_sender.open_result [of sys s c s'] by (auto simp: any_sender_ops_def sender_codes)
  show "any_sender_send sys p s = Some (c, s') \<Longrightarrow> c \<in> {SENDER_SUCCESS .. SENDER_ERR_NOT_OPEN}"
    using any_sender.send_opened [of s sys p c s'] any_sender.send_closed [of s sys p]
    by (cases "any_sender_opened s") (auto simp: any_sender_ops_def sender_codes)
  show "any_receiver_open sys r = Some (c, r') \<Longrightarrow> c \<in> {RECEIVER_SUCCESS .. RECEIVER_ERR_EOF}"
    using any_receiver.open_result [of sys r c r'] by (auto simp: any_receiver_ops_def receiver_codes)
  show "any_receiver_receive sys p r = Some (c, p', r') \<Longrightarrow> c \<in> {RECEIVER_SUCCESS .. RECEIVER_ERR_EOF}"
    using any_receiver.receive_opened [of r sys p c p' r'] any_receiver.receive_closed [of r sys p]
    by (cases "any_receiver_opened r") (auto simp: any_receiver_ops_def receiver_codes)
qed

text \<open>C33: Every code the components report has a message, whatever the files, the documents, the system calls and
  the databases: \<^verbatim>\<open>getErrorMsg\<close> of the object the code is reported in, and of every copy of it, returns the same message as
  long as that object is alive (two enumerators of \<^verbatim>\<open>ProtocolParserErr\<close> have no message; they are never
  reported). The reference of a copy stays bound to the object it was copied from: once that is destroyed, as after the
  return of a local variable that is not elided, there is no message to read.\<close>

theorem reported_errors_have_messages:
  assumes "reported fs px ry reg sys dist vec c" and "mk_error a c vec live0 = (e, live1)"
    and "copy_error b a e live1 = (e', live2)" and "a \<noteq> b"
  shows "\<exists>msg. getErrorMsg live1 e = Some msg \<and> getErrorMsg live2 e' = Some msg \<and>
    getErrorMsg (destroy_error b live2) e = Some msg \<and> getErrorMsg (destroy_error a live2) e' = None"
proof -
  have "0 \<le> c \<and> c < int (length vec)"
    using assms(1)
  proof cases
    case (rep_database name v db db')
    then show ?thesis
      by (auto simp: addUniqueElement_cases message_vectors db_codes split: if_splits)
  next
    case (rep_file path dbs dbs')
    then show ?thesis
      using parseProtocolFile_code by (force simp: message_vectors proto_codes)
  next
    case (rep_parser p p')
    then show ?thesis
      using ProtocolParser_parse_code by (force simp: message_vectors protoparser_codes)
  next
    case (rep_stack services path stack)
    then show ?thesis
      by (cases rule: build_cases [of px path ry services reg]) (auto simp: message_vectors stack_codes)
  qed (auto simp: message_vectors sender_codes receiver_codes tgen_codes
      dest!: any_transport_codes generator_codes)
  then have "getErrorMsg live (fst (mk_error a c vec live0)) = Some (vec ! nat c)" if "live a = Some vec" for live
    using that by (blast intro: getErrorMsg_live)
  moreover have "e = fst (mk_error a c vec live0)" "e' = e" "live1 a = Some vec" "live2 a = Some vec"
    using assms(2-4) by (auto simp: mk_error_def copy_error_def)
  ultimately show ?thesis
    using assms(4) getErrorMsg_dangling [of "destroy_error a live2" a c vec live0] by (simp add: destroy_error_def)
qed

theorem reported_errors_have_messages_witness:
  "reported ex_fs (files_api []) (yaml_api (\<lambda>_. YNone)) empty_registry ex_sys ex_dist ProtocolParserErr_vector PROTOPARSERERR_INVALID_INPUT \<and>
   (\<exists>msg. getErrorMsg [0 \<mapsto> ProtocolParserErr_vector]
     (fst (mk_error 0 PROTOPARSERERR_INVALID_INPUT ProtocolParserErr_vector Map.empty)) = Some msg)"
proof -
  let ?e = "mk_error 0 PROTOPARSERERR_INVALID_INPUT ProtocolParserErr_vector Map.empty"
  have "ProtocolParser_parse ex_fs (files_api []) (yaml_api (\<lambda>_. YNone)) (new_parser ''x'') =
      Some (Returns (PROTOPARSERERR_INVALID_INPUT, new_parser ''x''))"
    by (simp add: ProtocolParser_parse_def new_parser_def ex_fs_def)
  then have "reported ex_fs (files_api []) (yaml_api (\<lambda>_. YNone)) empty_registry ex_sys ex_dist ProtocolParserErr_vector PROTOPARSERERR_INVALID_INPUT"
    by (rule rep_parser)
  moreover note reported_errors_have_messages [OF this, of 0 Map.empty "fst ?e" "snd ?e" 1]
  ultimately show ?thesis
    by (fastforce simp: mk_error_def copy_error_def)
qed

end
