(* ===== verification/Usage.thy ===== *)
theory Usage
  imports Command_Line
begin

text \<open>
  The usage screen of \<^verbatim>\<open>packet_gen\<close> (\<^verbatim>\<open>printUsage\<close> in
  traffic-gen/tools/packet_gen_main.cpp), as the bytes it writes to stderr, and its agreement with the
  option loop: what the screen documents is what \<^verbatim>\<open>parseArgs\<close> knows.

  The three lists are the lines of the one stream expression; characters outside ASCII are their UTF-8
  bytes.
\<close>

definition usage_synopsis :: "string \<Rightarrow> string list" where
  "usage_synopsis prog =
     [[],
      ''packet_gen '' @ [CHR 0xE2, CHR 0x80, CHR 0x94] @ '' IEEE 1722.1 / ADP packet generator driven by YAML protocol definitions'',
      [],
      ''USAGE'',
      ''  '' @ prog @ '' --yaml-dir <dir> --interface <name> [options]'',
      []]"

definition usage_options :: "string list" where
  "usage_options =
     [''REQUIRED'',
      ''  --yaml-dir <path>'',
      ''      Directory (searched recursively) containing protocol YAML files.'',
      ''      Every .yaml file must declare a '' @ [CHR 0x27] @ ''service:'' @ [CHR 0x27] @ '' key at the top level.'',
      ''      Example: protocols/application/1722_1/aecp'',
      [],
      ''  --interface <qualified-name>'',
      ''      Fully qualified interface name in the form:'',
      ''        <service>::<ENTITY>::<INTERFACE>'',
      ''      Example: atdecc_aecp_acquire_entity::AECP_ACQUIRE_ENTITY::AECP_ACQUIRE_ENTITY_IF'',
      ''      Tip: run with --list-interfaces to discover available names.'',
      [],
      ''OPTIONS'',
      ''  --count <n>          Number of packets to generate.  Default: 1.'',
      ''                       Use 0 for an unlimited stream (Ctrl-C to stop).'',
      [],
      ''  --seed <n>           Seed the internal Mersenne-Twister PRNG with the'',
      ''                       given 64-bit integer.  Identical seeds produce'',
      ''                       identical packet sequences '' @ [CHR 0xE2, CHR 0x80, CHR 0x94] @ '' useful for reproducible'',
      ''                       fuzzing and regression tests.  Default: random.'',
      [],
      ''  --output hex|json    Format for packets written to stdout.  Default: json.'',
      ''    hex                One lower-case hex string per line, no delimiters.'',
      ''                       Example: 1402422e2c43f8a1...'',
      ''    json               One JSON object per line (newline-delimited JSON):'',
      ''                         {'' @ [CHR 0x22] @ ''fields'' @ [CHR 0x22] @ '':{'' @ [CHR 0x22] @ ''message_type'' @ [CHR 0x22] @ '':0,'' @ [CHR 0x22] @ ''status'' @ [CHR 0x22] @ '':0,...},'',
      ''                          '' @ [CHR 0x22] @ ''hex'' @ [CHR 0x22] @ '':'' @ [CHR 0x22] @ ''1402422e...'' @ [CHR 0x22] @ ''}'',
      ''                       Fields appear in YAML declaration order.'',
      ''                       Integer field values are decimal.'',
      [],
      ''  --transport <spec>   Deliver each generated packet via the named transport'',
      ''                       in addition to writing to stdout.  Default: none.'',
      ''    none               Stdout only '' @ [CHR 0xE2, CHR 0x80, CHR 0x94] @ '' no hardware or file I/O.'',
      ''    raw:<ifname>       Inject directly onto a network interface using a'',
      ''                       Linux AF_PACKET/SOCK_RAW socket.  Requires'',
      ''                       CAP_NET_RAW (run as root or grant the capability).'',
      ''                       Example: raw:eth0'',
      ''    pcap:<filepath>    Write a libpcap-format capture file (LINKTYPE_ETHERNET,'',
      ''                       no libpcap dependency).  Compatible with Wireshark and'',
      ''                       tcpdump.  The file is created or truncated on open.'',
      ''                       Example: pcap:/tmp/aecp_capture.pcap'',
      ''    verilator:<socket> Send AXI-Stream beats over a UNIX domain socket to a'',
      ''                       Verilator DUT.  The socket path must already exist'',
      ''                       (started by the simulation).'',
      ''                       Example: verilator:/tmp/verilator_axis.sock'',
      [],
      ''  --list-interfaces    Parse --yaml-dir and print all available interface'',
      ''                       names, then exit.  Useful for discovering what'',
      ''                       --interface values are valid in a given directory.'',
      [],
      ''  --validate           Schema-check every YAML under --yaml-dir (and the'',
      ''                       --stack-file if given) against the protocol/stack'',
      ''                       schema, report file:line:col diagnostics on stderr,'',
      ''                       then exit.  Exit code 0 = clean, 2 = errors found.'',
      [],
      ''  --connect <A:B[:C'' @ [CHR 0xE2, CHR 0x80, CHR 0xA6] @ '']> Chain two or more interfaces into a single round.'',
      ''                       Each round generates one packet per interface in'',
      ''                       the declared order.  Fields shared by name between'',
      ''                       consecutive packets are propagated forward:'',
      ''                         '' @ [CHR 0xE2, CHR 0x80, CHR 0xA2] @ '' B receives A'' @ [CHR 0x27] @ ''s field values for any field name'',
      ''                           that B does not fix via '' @ [CHR 0x27] @ ''expected.value/values'' @ [CHR 0x27] @ ''.'',
      ''                         '' @ [CHR 0xE2, CHR 0x80, CHR 0xA2] @ '' C receives B'' @ [CHR 0x27] @ ''s field values the same way.'',
      ''                       Typical use: simulate a command/response exchange'',
      ''                       where the responder echoes sequence_id,'',
      ''                       target_entity_id, controller_entity_id, etc.'',
      ''                       When --connect is given, --interface is optional'',
      ''                       (the chain defines all interfaces to use).'',
      ''                       Multiple --connect flags append to the same chain.'',
      ''                       Example:'',
      ''                         --connect CMD_IF:RSP_IF'',
      ''                         --connect A:B:C  (three-step chain)'',
      [],
      ''  --stack <A:B[:C'' @ [CHR 0xE2, CHR 0x80, CHR 0xA6] @ '']>   Concatenate bytes from multiple protocol layers into'',
      ''                       a single on-wire frame.  Each interface is generated'',
      ''                       independently (no field propagation) and its byte'',
      ''                       buffer is appended in declaration order.'',
      ''                       Typical use: assemble a complete Ethernet frame:'',
      ''                         Ethernet MAC header (14 B)'',
      ''                         + AVTP control header (2 B)'',
      ''                         + AECP PDU (39 B)'',
      ''                       Use --yaml-dir pointing at the protocols root so all'',
      ''                       layer YAMLs (data_link, application, '' @ [CHR 0xE2, CHR 0x80, CHR 0xA6] @ '') are loaded.'',
      ''                       JSON output per round:'',
      ''                         {'' @ [CHR 0x22] @ ''hex'' @ [CHR 0x22] @ '':'' @ [CHR 0x22] @ ''<all layers concatenated>'' @ [CHR 0x22] @ '','',
      ''                          '' @ [CHR 0x22] @ ''layers'' @ [CHR 0x22] @ '':[{'' @ [CHR 0x22] @ ''iface'' @ [CHR 0x22] @ '':'' @ [CHR 0x22] @ ''...'' @ [CHR 0x22] @ '','' @ [CHR 0x22] @ ''hex'' @ [CHR 0x22] @ '':'' @ [CHR 0x22] @ ''...'' @ [CHR 0x22] @ '','',
      ''                                     '' @ [CHR 0x22] @ ''fields'' @ [CHR 0x22] @ '':{'' @ [CHR 0xE2, CHR 0x80, CHR 0xA6] @ ''}}, '' @ [CHR 0xE2, CHR 0x80, CHR 0xA6] @ '']}'',
      ''                       --stack and --connect are mutually exclusive.'',
      ''                       Example:'',
      ''                         --stack ethernet_mac_frame::ETHERNET_FRAME::ETHERNET_FRAME_IF'' @ [CHR 0x5C],
      ''                                :avtp_control_header::AVTP_CONTROL::AVTP_CONTROL_IF'' @ [CHR 0x5C],
      ''                                :atdecc_aecp_acquire_entity::AECP_ACQUIRE_ENTITY::AECP_ACQUIRE_ENTITY_IF'',
      [],
      ''  --stack-file <path>  Assemble (or decode) a frame through a stack YAML and'',
      ''                       its per-layer logic modules. Unlike --stack, each'',
      ''                       layer'' @ [CHR 0x27] @ ''s logic runs: derived fields (lengths, demux'',
      ''                       selectors) are filled on encode and validated on'',
      ''                       decode, producing semantically valid frames.'',
      ''                       The stack YAML lists services bottom-up; see'',
      ''                       stacks/ for examples.  Mutually exclusive with'',
      ''                       --stack / --connect.'',
      [],
      ''  --decode             Receive packets (see --transport) or decode --hex, and'',
      ''                       print the fields recovered against the declared'',
      ''                       interface or stack layout.'',
      [],
      ''  --hex <hexstring>    Decode a single hex string and exit (implies --decode).'',
      [],
      ''  --log-level <lvl>    Diagnostic verbosity on stderr: quiet, error, warn,'',
      ''                       info, debug.  Default: warn.  stdout stays reserved'',
      ''                       for packet output in every mode.'',
      [],
      ''  --version            Print the tool version and exit.'',
      [],
      ''  --help               Print this message and exit.'',
      []]"

definition usage_examples :: "string \<Rightarrow> string list" where
  "usage_examples prog =
     [''EXIT CODES'',
      ''  0  Success.'',
      ''  1  Argument error (bad option, missing required argument).'',
      ''  2  Runtime error (parse failure, interface not found, send error).'',
      [],
      ''EXAMPLES'',
      ''  # Generate 1 JSON packet from the ACQUIRE_ENTITY YAML:'',
      ''  '' @ prog @ '' '' @ [CHR 0x5C],
      ''    --yaml-dir protocols/application/1722_1/aecp '' @ [CHR 0x5C],
      ''    --interface atdecc_aecp_acquire_entity::AECP_ACQUIRE_ENTITY::AECP_ACQUIRE_ENTITY_IF'',
      [],
      ''  # Reproducible fuzz run '' @ [CHR 0xE2, CHR 0x80, CHR 0x94] @ '' 1000 hex packets, seed 42:'',
      ''  '' @ prog @ '' '' @ [CHR 0x5C],
      ''    --yaml-dir protocols/application/1722_1/aecp '' @ [CHR 0x5C],
      ''    --interface atdecc_aecp_acquire_entity::AECP_ACQUIRE_ENTITY::AECP_ACQUIRE_ENTITY_IF '' @ [CHR 0x5C],
      ''    --count 1000 --seed 42 --output hex'',
      [],
      ''  # Capture 50 VENDOR_UNIQUE PDUs into a pcap file:'',
      ''  '' @ prog @ '' '' @ [CHR 0x5C],
      ''    --yaml-dir protocols/application/1722_1/aecp '' @ [CHR 0x5C],
      ''    --interface atdecc_aecp_vendor_unique::AECP_VENDOR_UNIQUE::AECP_VENDOR_UNIQUE_IF '' @ [CHR 0x5C],
      ''    --count 50 --transport pcap:/tmp/vendor_unique.pcap'',
      [],
      ''  # Inject 10 ADP PDUs onto eth0 (requires root):'',
      ''  '' @ prog @ '' '' @ [CHR 0x5C],
      ''    --yaml-dir parser/tests/test_resources/0020_adp_protocol_test '' @ [CHR 0x5C],
      ''    --interface atdecc_adp_service::ADP_INTERFACE::ADP_IF_DATA '' @ [CHR 0x5C],
      ''    --count 10 --transport raw:eth0'',
      [],
      ''  # List all interfaces defined in the AECP YAML directory:'',
      ''  '' @ prog @ '' '' @ [CHR 0x5C],
      ''    --yaml-dir protocols/application/1722_1/aecp --list-interfaces'',
      [],
      ''  # Simulate an ACQUIRE_ENTITY command/response exchange (5 rounds):'',
      ''  '' @ prog @ '' '' @ [CHR 0x5C],
      ''    --yaml-dir protocols/application/1722_1/aecp '' @ [CHR 0x5C],
      ''    --connect atdecc_aecp_acquire_entity::AECP_ACQUIRE_ENTITY::AECP_ACQUIRE_ENTITY_IF'' @ [CHR 0x5C],
      ''             :atdecc_aecp_acquire_entity::AECP_ACQUIRE_ENTITY::AECP_ACQUIRE_ENTITY_IF '' @ [CHR 0x5C],
      ''    --count 5'',
      [],
      ''  # Assemble a complete on-wire IEEE 1722.1 AECP frame (Eth+AVTP+AECP = 55 bytes):'',
      ''  '' @ prog @ '' '' @ [CHR 0x5C],
      ''    --yaml-dir protocols '' @ [CHR 0x5C],
      ''    --stack ethernet_mac_frame::ETHERNET_FRAME::ETHERNET_FRAME_IF'' @ [CHR 0x5C],
      ''           :avtp_control_header::AVTP_CONTROL::AVTP_CONTROL_IF'' @ [CHR 0x5C],
      ''           :atdecc_aecp_acquire_entity::AECP_ACQUIRE_ENTITY::AECP_ACQUIRE_ENTITY_IF '' @ [CHR 0x5C],
      ''    --count 3 --seed 42'',
      []]"

definition printUsage :: "string \<Rightarrow> string" where
  "printUsage prog = concat (map (\<lambda>l. l @ [CHR 0x0A]) (usage_synopsis prog @ usage_options @ usage_examples prog))"

section \<open>The documented options\<close>

text \<open>
  An entry of the screen is a line that starts with two spaces and a double dash. The word is the
  option; it takes a value when the next word follows after exactly one space.
\<close>

fun option_entry :: "string \<Rightarrow> (string \<times> bool) option" where
  "option_entry (a # b # c # d # l) =
     (if a = CHR '' '' \<and> b = CHR '' '' \<and> c = CHR ''-'' \<and> d = CHR ''-'' then
        let w = takeWhile (\<lambda>x. x \<noteq> CHR '' '') l; r = dropWhile (\<lambda>x. x \<noteq> CHR '' '') l
        in Some (c # d # w, length r > 1 \<and> r ! 1 \<noteq> CHR '' '')
      else None)"
| "option_entry _ = None"

definition documented_options :: "(string \<times> bool) list" where
  "documented_options = concat (map (\<lambda>l. case option_entry l of Some e \<Rightarrow> [e] | None \<Rightarrow> []) usage_options)"

lemma documented_options_eq:
  "documented_options =
     [(''--yaml-dir'', True), (''--interface'', True), (''--count'', True), (''--seed'', True), (''--output'', True),
      (''--transport'', True), (''--list-interfaces'', False), (''--validate'', False), (''--connect'', True),
      (''--stack'', True), (''--stack-file'', True), (''--decode'', False), (''--hex'', True), (''--log-level'', True),
      (''--version'', False), (''--help'', False)]"
  by (simp add: documented_options_def usage_options_def)

section \<open>Properties\<close>

text \<open>C39: The usage screen and the option loop agree: an argument is accepted as an option exactly when the
  screen documents it, and it consumes the next argument as its value exactly when the screen
  shows a value for it (the two options that exit never look at the next argument).\<close>

theorem usage_documents_options:
  "(parse_opts [a] out \<noteq> Unknown_option \<longleftrightarrow> a \<in> fst ` set documented_options) \<and>
   list_all (\<lambda>(opt, has_value). parse_opts [opt, ''--x''] out \<noteq> Unknown_option \<longleftrightarrow>
     has_value \<or> opt = ''--version'' \<or> opt = ''--help'') documented_options"
proof
  show "parse_opts [a] out \<noteq> Unknown_option \<longleftrightarrow> a \<in> fst ` set documented_options"
    by (simp add: documented_options_eq nextVal_def Let_def)
  show "list_all (\<lambda>(opt, has_value). parse_opts [opt, ''--x''] out \<noteq> Unknown_option \<longleftrightarrow>
      has_value \<or> opt = ''--version'' \<or> opt = ''--help'') documented_options"
    by (simp add: documented_options_eq nextVal_def Let_def split: option.split)
qed

end
