(* ===== verification/Scoped_Fd.thy ===== *)
theory Scoped_Fd
  imports Protocol_Parser Stack_Builder
begin

text \<open>
  \<^verbatim>\<open>ScopedFD\<close> (parser/inc/tsn/utils.h), the guard that closes a descriptor at the end of a
  scope, and the system calls the two readers of YAML files make around it:
  \<^verbatim>\<open>Protocol::parseProtocolFile\<close> and \<^verbatim>\<open>StackBuilder::build\<close>.

  What the readers compute is modelled with the parser and the stack builder; here are the calls
  themselves, in order, with their results, and a table of open descriptors and mappings that replays
  them. The theorems say that a reader leaves the table as it found it.
\<close>

section \<open>The guard\<close>

datatype file_call =
    Do_open string int
  | Do_lseek int int
  | Do_mmap int int bool
  | Do_munmap int
  | Do_close int

record ScopedFD =
  scoped_mFD :: int

definition new_ScopedFD :: "int \<Rightarrow> ScopedFD" where
  "new_ScopedFD fd = \<lparr>scoped_mFD = fd\<rparr>"

definition ScopedFD_assign :: "ScopedFD \<Rightarrow> ScopedFD \<Rightarrow> ScopedFD" where
  "ScopedFD_assign this other = this\<lparr>scoped_mFD := scoped_mFD other\<rparr>"

definition ScopedFD_less :: "ScopedFD \<Rightarrow> int \<Rightarrow> bool" where
  "ScopedFD_less this value \<longleftrightarrow> scoped_mFD this < value"

definition ScopedFD_int :: "ScopedFD \<Rightarrow> int" where
  "ScopedFD_int this = scoped_mFD this"

text \<open>The destructor closes whatever the guard holds, also the result of a failed \<^verbatim>\<open>open\<close>.\<close>

definition ScopedFD_destroy :: "ScopedFD \<Rightarrow> file_call list" where
  "ScopedFD_destroy this = [Do_close (scoped_mFD this)]"

section \<open>The calls of the readers\<close>

text \<open>\<open>None\<close>: the reader runs into undefined behaviour (a failed mapping, or a text without end).\<close>

definition protocol_file_calls :: "posix_files \<Rightarrow> string \<Rightarrow> file_call list option" where
  "protocol_file_calls px path =
     (let fd = new_ScopedFD (px_open px path); opened = Do_open path (ScopedFD_int fd) in
      if ScopedFD_less fd 0 then Some (opened # ScopedFD_destroy fd)
      else
        let len = px_lseek_end px (ScopedFD_int fd); seeked = Do_lseek (ScopedFD_int fd) len in
        if len < 0 then Some (opened # seeked # ScopedFD_destroy fd)
        else case px_mmap px (ScopedFD_int fd) len of
            None \<Rightarrow> None
          | Some content \<Rightarrow>
              if mapped_text px len content = None then None
              else Some ([opened, seeked, Do_mmap (ScopedFD_int fd) len True, Do_munmap len] @ ScopedFD_destroy fd))"

definition stack_file_calls :: "posix_files \<Rightarrow> string \<Rightarrow> file_call list" where
  "stack_file_calls px path =
     (let fd = new_ScopedFD (px_open px path); opened = Do_open path (ScopedFD_int fd) in
      if ScopedFD_less fd 0 then opened # ScopedFD_destroy fd
      else
        let len = px_lseek_end px (ScopedFD_int fd); seeked = Do_lseek (ScopedFD_int fd) len in
        if len \<le> 0 then opened # seeked # ScopedFD_destroy fd
        else case px_mmap px (ScopedFD_int fd) len of
            None \<Rightarrow> [opened, seeked, Do_mmap (ScopedFD_int fd) len False] @ ScopedFD_destroy fd
          | Some content \<Rightarrow> [opened, seeked, Do_mmap (ScopedFD_int fd) len True, Do_munmap len] @ ScopedFD_destroy fd)"

text \<open>The calls are those of the reader: it is undefined exactly where they are.\<close>

lemma protocol_file_calls_defined:
  "protocol_file_calls px path = None \<longleftrightarrow> parseProtocolFile px ry path dbs = Undefined"
  by (simp add: protocol_file_calls_def parseProtocolFile_def new_ScopedFD_def ScopedFD_less_def ScopedFD_int_def
      Let_def split: option.split)

section \<open>Descriptor tables\<close>

text \<open>
  The open descriptors of the process and the number of its mappings, under the calls. \<open>None\<close>:
  a call on a descriptor that is not open, a second use of one that is, or an unmapping without a
  mapping. Closing a negative descriptor fails without an effect.
\<close>

fun fd_step :: "file_call \<Rightarrow> int set \<times> nat \<Rightarrow> (int set \<times> nat) option" where
  "fd_step (Do_open path fd) (S, m) = (if fd < 0 then Some (S, m) else if fd \<in> S then None else Some (insert fd S, m))"
| "fd_step (Do_lseek fd len) (S, m) = (if fd \<in> S then Some (S, m) else None)"
| "fd_step (Do_mmap fd len ok) (S, m) = (if fd \<in> S then Some (S, if ok then m + 1 else m) else None)"
| "fd_step (Do_munmap len) (S, m) = (if m = 0 then None else Some (S, m - 1))"
| "fd_step (Do_close fd) (S, m) = (if fd < 0 then Some (S, m) else if fd \<in> S then Some (S - {fd}, m) else None)"

fun fd_steps :: "file_call list \<Rightarrow> int set \<times> nat \<Rightarrow> (int set \<times> nat) option" where
  "fd_steps [] t = Some t"
| "fd_steps (c # cs) t = (case fd_step c t of None \<Rightarrow> None | Some t' \<Rightarrow> fd_steps cs t')"

lemma fd_steps_append: "fd_steps (cs @ ds) t = (case fd_steps cs t of None \<Rightarrow> None | Some t' \<Rightarrow> fd_steps ds t')"
  by (induction cs arbitrary: t) (simp_all split: option.split)

lemmas scoped_defs = new_ScopedFD_def ScopedFD_less_def ScopedFD_int_def ScopedFD_destroy_def

lemma protocol_file_balanced:
  assumes "protocol_file_calls px path = Some cs" and "px_open px path \<notin> S"
  shows "fd_steps cs (S, m) = Some (S, m)"
  using assms by (auto simp: protocol_file_calls_def scoped_defs Let_def split: if_splits option.splits)

lemma stack_file_balanced: "px_open px path \<notin> S \<Longrightarrow> fd_steps (stack_file_calls px path) (S, m) = Some (S, m)"
  by (auto simp: stack_file_calls_def scoped_defs Let_def split: option.splits)

text \<open>
  The assignment operator copies the descriptor and leaves it with the source: the two destructors
  close it twice, and the descriptor the target held before is never closed.
\<close>

lemma ScopedFD_assign_closes_twice:
  assumes "0 \<le> fd" and "this' = ScopedFD_assign (new_ScopedFD old) (new_ScopedFD fd)"
  shows "fd_steps (ScopedFD_destroy this' @ ScopedFD_destroy (new_ScopedFD fd)) ({old, fd}, m) = None"
  using assms by (simp add: ScopedFD_assign_def scoped_defs)

text \<open>The calls of a whole parse, file by file as they are listed.\<close>

fun parse_calls :: "posix_files \<Rightarrow> string list \<Rightarrow> file_call list option" where
  "parse_calls px [] = Some []"
| "parse_calls px (path # paths) =
     (case protocol_file_calls px path of
        None \<Rightarrow> None
      | Some cs \<Rightarrow> (case parse_calls px paths of None \<Rightarrow> None | Some ds \<Rightarrow> Some (cs @ ds)))"

lemma parse_calls_balanced:
  "(\<forall>path\<in>set paths. protocol_file_calls px path \<noteq> None \<and> px_open px path \<notin> S) \<Longrightarrow>
     \<exists>cs. parse_calls px paths = Some cs \<and> fd_steps cs (S, m) = Some (S, m)"
proof (induction paths)
  case (Cons path paths)
  then show ?case
    using protocol_file_balanced [of px path _ S m] by (auto simp: fd_steps_append)
qed simp

section \<open>Properties\<close>

lemma parse_reads_listed:
  assumes "ProtocolParser_parse fs px ry p = Some (Returns (e, p'))"
    and "\<forall>path\<in>set (yamlPaths p). protocol_file_calls px path \<noteq> None"
  shows "\<forall>path\<in>set (yamlPaths p'). protocol_file_calls px path \<noteq> None"
proof -
  let ?I = "\<lambda>q. \<forall>path\<in>set (yamlPaths q). protocol_file_calls px path \<noteq> None"
  have step: "?I q' \<and> True"
    if "parseProtocol px ry path (q\<lparr>yamlPaths := yamlPaths q @ [path]\<rparr>) = Returns (e, q')" and "?I q" for path q e q'
  proof -
    have "parseProtocolFile px ry path (mDbs q) \<noteq> Undefined"
      using that(1) by (auto simp: parseProtocol_def)
    then show ?thesis
      using that(2) parseProtocol_frame(3) [OF that(1)] protocol_file_calls_defined [of px path ry "mDbs q"] by auto
  qed
  have "?I q" if "listProtocolFiles walk_fuel fs px ry (mProtocolBasePath p) p = Some (Returns (err, q))" for err q
    using walk_preserves [where I = ?I and E = "\<lambda>_. True", OF step _ _ _ that] assms(2) by simp
  then show ?thesis
    using assms by (auto simp: ProtocolParser_parse_def split: if_splits option.splits run.splits prod.splits)
qed

text \<open>C28: The readers of YAML files leave no descriptor and no mapping behind: when a parse of a directory
  returns, the system calls made for the files it listed, replayed on any table of open
  descriptors the kernel's descriptors are fresh in, never touch a descriptor that is not open and end
  with the table they started from; so do the calls that read a stack file, on each of its error paths.\<close>

theorem readers_release_descriptors:
  assumes "ProtocolParser_parse fs px ry (new_parser base) = Some (Returns (e, p'))"
    and "\<forall>path. px_open px path \<notin> S"
  shows "(\<exists>cs. parse_calls px (yamlPaths p') = Some cs \<and> fd_steps cs (S, m) = Some (S, m)) \<and>
    fd_steps (stack_file_calls px stack_path) (S, m) = Some (S, m)"
  using parse_calls_balanced [of "yamlPaths p'" px S m] parse_reads_listed [OF assms(1)] assms(2)
    stack_file_balanced [of px stack_path S m]
  by (simp add: new_parser_def)

theorem readers_release_descriptors_witness:
  "ex_parse = Some (Returns (PROTOPARSER_SUCCESS, ex_parsed)) \<and>
   (\<exists>cs. parse_calls (files_api [(''d/a.yaml'', ''doc'')]) (yamlPaths ex_parsed) = Some cs \<and>
     fd_steps cs ({0, 1, 2}, 0) = Some ({0, 1, 2}, 0))"
proof -
  have "\<forall>path. px_open (files_api [(''d/a.yaml'', ''doc'')]) path \<notin> {0, 1, 2}"
    by (auto simp: files_api_def)
  then show ?thesis
    using readers_release_descriptors [OF ex_parse_ok [unfolded ex_parse_def]] ex_parse_ok by simp
qed

end
