(* ===== verification/Frame_Repacking.thy ===== *)
theory Frame_Repacking
  imports Example_Protocols
begin

text \<open>
  The stack runtime of \<^verbatim>\<open>Session\<close> in the other direction: packing the contexts that
  \<^verbatim>\<open>decodeStack\<close> loaded from a frame gives the frame back. Together with the round trips of
  generated frames this makes the wire format of a stack a one-to-one encoding of its fields.
\<close>

section \<open>The layers after a decode\<close>

fun loaded_layers :: "'g Session \<Rightarrow> bytes \<Rightarrow> StackLayer list \<Rightarrow> nat \<Rightarrow> StackLayer list" where
  "loaded_layers s bs [] off = []"
| "loaded_layers s bs (l # ls) off = (case interfaceForLayer s l of
     None \<Rightarrow> l # loaded_layers s bs ls off
   | Some iface \<Rightarrow>
       (let ctx = populateContext (varDatabase s) iface (bp_fields (decode iface (varDatabase s) bs off)) (sl_context l)
        in l\<lparr>sl_logic := onDecode (sl_logic l) ctx, sl_context := ctx\<rparr>
             # loaded_layers s bs ls (off + layerBytes iface (varDatabase s))))"

lemma decode_layers_loaded:
  "k \<le> length ls \<Longrightarrow>
     fst (decode_layers s bs [k..<length ls] ls off acc) = take k ls @ loaded_layers s bs (drop k ls) off"
proof (induction "length ls - k" arbitrary: k ls off acc)
  case (Suc n)
  then have k: "k < length ls" "[k..<length ls] = k # [Suc k..<length ls]"
    by (simp_all add: upt_conv_Cons)
  then have drop: "drop k ls = ls ! k # drop (Suc k) ls"
    by (simp add: Cons_nth_drop_Suc)
  have step: "fst (decode_layers s bs [Suc k..<length ls] (ls[k := l]) off' acc')
      = take k ls @ l # loaded_layers s bs (drop (Suc k) ls) off'" for l off' acc'
    using Suc.hyps(1) [of "ls[k := l]" "Suc k" off' acc'] Suc.hyps(2) k(1) by (simp add: take_Suc_conv_app_nth)
  show ?case
    using step [of "ls ! k"] step by (simp add: k(2) drop Let_def split: option.split)
qed simp

lemma decodeStack_loaded:
  "mLayers (snd (decodeStack s stack bs)) = loaded_layers s bs (mLayers stack) 0"
  using decode_layers_loaded [of 0 "mLayers stack" s bs 0 "[]"] by (simp add: decodeStack_def split_beta)

section \<open>Repacking one layer\<close>

text \<open>
  The bytes of one layer: as long as the layer, zero after its last field. Its interface has distinct
  short names and no field wider than the 64 bits a value has.
\<close>

definition layer_slice :: "'g Session \<Rightarrow> StackLayer \<Rightarrow> bytes \<Rightarrow> bool" where
  "layer_slice s l b = (case interfaceForLayer s l of
     None \<Rightarrow> False
   | Some iface \<Rightarrow> distinct_short_names iface \<and>
       list_all (\<lambda>f. getSize (snd f) \<le> 64) (layout (varDatabase s) (mVarRefs iface)) \<and>
       packed b (layer_bits (layout (varDatabase s) (mVarRefs iface))))"

lemma narrow_widths:
  assumes "list_all (\<lambda>f. getSize (snd f) \<le> 64) L"
  shows "list_all (\<lambda>n. loopCount n \<le> 64) (field_sizes L)" and "wire.total_width (field_sizes L) = layer_bits L"
proof -
  have "unat (getSize (snd f)) \<le> 64" if "f \<in> set L" for f
    using assms that by (simp add: list_all_iff word_le_nat_alt)
  then have "loopCount (getSize (snd f)) = unat (getSize (snd f)) \<and> unat (getSize (snd f)) \<le> 64" if "f \<in> set L" for f
    using that by (intro conjI loopCount_unat) fastforce+
  then show "list_all (\<lambda>n. loopCount n \<le> 64) (field_sizes L)" "wire.total_width (field_sizes L) = layer_bits L"
    by (auto simp: list_all_iff field_sizes_def layer_bits_def wire.total_width_def comp_def
        intro!: arg_cong [where f = sum_list])
qed

lemma loaded_fields_values:
  assumes "\<And>f. f \<in> set L \<Longrightarrow> field_width db (fst f) refs = getSize (snd f) \<and> getSize (snd f) \<noteq> 0"
    and "length vs = length L"
  shows "map (\<lambda>f. (fld_value f, fld_bits f)) (loaded_fields db refs (zip (map fst L) vs)) = zip vs (field_sizes L)"
    and "map (\<lambda>f. (fld_name f, fld_value f)) (loaded_fields db refs (zip (map fst L) vs)) = zip (map fst L) vs"
  using assms(2,1) by (induction vs L rule: list_induct2) (auto simp: loaded_fields_def)

lemma repack_layer:
  assumes "interfaceForLayer s l = Some iface" and "distinct_short_names iface"
    and "list_all (\<lambda>f. getSize (snd f) \<le> 64) (layout (varDatabase s) (mVarRefs iface))"
    and "packed b (layer_bits (layout (varDatabase s) (mVarRefs iface)))"
    and "pkt = decode iface (varDatabase s) (pre @ b @ post) (length pre)"
    and "sl_context l' = populateContext (varDatabase s) iface (bp_fields pkt) ctx"
  shows "bp_bytes (pack_layer l') = b" and "bp_fields (pack_layer l') = bp_fields pkt"
    and "length b = layerBytes iface (varDatabase s)"
proof -
  let ?L = "layout (varDatabase s) (mVarRefs iface)"
  let ?vs = "wire.get_all (field_sizes ?L) (pre @ b @ post) (8 * length pre)"
  note widths = narrow_widths [OF assms(3)]
  show len: "length b = layerBytes iface (varDatabase s)"
    using packed_length [OF assms(4)] by (simp add: layerBytes_eq)
  have "0 + wire.total_width (field_sizes ?L) \<le> 8 * length b"
    using packed_length [OF assms(4)] le_ceil8 by (simp add: widths(2))
  from wire.get_all_slice [OF this] have vs: "?vs = wire.get_all (field_sizes ?L) b 0"
    by simp
  have "length (wire.get_all ns c p) = length ns" for ns and c :: bytes and p
    by (induction ns arbitrary: p) simp_all
  then have count: "length ?vs = length ?L"
    by (simp add: field_sizes_def)
  have names: "\<And>f. f \<in> set ?L \<Longrightarrow> field_width (varDatabase s) (fst f) (mVarRefs iface) = getSize (snd f) \<and> getSize (snd f) \<noteq> 0"
    using field_width_layout assms(2) by (simp add: distinct_short_names_def)
  have fields: "bp_fields pkt = zip (map fst ?L) ?vs"
    by (simp add: assms(5) decode_def Let_def decode_loop_eq mult.commute)
  have ctx: "mFields (sl_context l') = loaded_fields (varDatabase s) (mVarRefs iface) (zip (map fst ?L) ?vs)"
    by (simp add: assms(6) populateContext_eq fields)
  show "bp_fields (pack_layer l') = bp_fields pkt"
    by (simp add: pack_layer_eq ctx loaded_fields_values(2) [OF names count] fields)
  have "context_codes (sl_context l') = zip ?vs (field_sizes ?L)"
    by (simp add: context_codes_def ctx loaded_fields_values(1) [OF names count])
  then show "bp_bytes (pack_layer l') = b"
    using put_get_exact [of b "field_sizes ?L"] assms(4) widths by (simp add: pack_layer_eq vs)
qed

section \<open>Repacking a frame\<close>

lemma repack_layers:
  "list_all2 (layer_slice s) ls bss \<Longrightarrow>
     map (bp_bytes \<circ> pack_layer) (loaded_layers s (pre @ concat bss) ls (length pre)) = bss \<and>
     map (bp_fields \<circ> pack_layer) (loaded_layers s (pre @ concat bss) ls (length pre))
       = map (bp_fields \<circ> snd) (decode_plain s (pre @ concat bss) ls (length pre))"
proof (induction ls bss arbitrary: pre rule: list_all2_induct)
  case (Cons l ls b bss)
  obtain iface where iface: "interfaceForLayer s l = Some iface" "distinct_short_names iface"
      "list_all (\<lambda>f. getSize (snd f) \<le> 64) (layout (varDatabase s) (mVarRefs iface))"
      "packed b (layer_bits (layout (varDatabase s) (mVarRefs iface)))"
    using Cons(1) by (auto simp: layer_slice_def split: option.splits)
  let ?pkt = "decode iface (varDatabase s) (pre @ b @ concat bss) (length pre)"
  let ?l = "l\<lparr>sl_logic := onDecode (sl_logic l) (populateContext (varDatabase s) iface (bp_fields ?pkt) (sl_context l)),
    sl_context := populateContext (varDatabase s) iface (bp_fields ?pkt) (sl_context l)\<rparr>"
  have one: "bp_bytes (pack_layer ?l) = b" "bp_fields (pack_layer ?l) = bp_fields ?pkt" "length b = layerBytes iface (varDatabase s)"
    by (rule repack_layer [OF iface refl, of ?l]; simp)+
  show ?case
    using Cons.IH [of "pre @ b"] one by (simp add: iface(1) Let_def)
qed simp

section \<open>Properties\<close>

text \<open>C7: Decoding through a bound stack loses nothing: for any frame that consists of one well-formed
  slice per layer (arbitrary field values, zero padding), whoever sent it, packing the contexts that
  \<^verbatim>\<open>decodeStack\<close> loaded gives the frame back byte for byte, and the fields packed are the fields
  it reported.\<close>

theorem decoded_frame_repacks:
  assumes "list_all2 (layer_slice s) (mLayers stack) bss" and "decodeStack s stack (concat bss) = (pkt, stack')"
  shows "concat (map (bp_bytes \<circ> pack_layer) (mLayers stack')) = concat bss \<and>
    map (bp_fields \<circ> pack_layer) (mLayers stack') = map (bp_fields \<circ> snd) (sp_layers pkt)"
proof -
  have "mLayers stack' = loaded_layers s (concat bss) (mLayers stack) 0"
    "sp_layers pkt = decode_plain s (concat bss) (mLayers stack) 0"
    using decodeStack_loaded [of s stack "concat bss"] decodeStack_plain [of s stack "concat bss"] assms(2) by simp_all
  then show ?thesis
    using repack_layers [OF assms(1), of "[]"] by simp
qed

definition ex_slices :: "bytes list" where
  "ex_slices = [[0x22, 0xF0, 0x12, 0x30], [0xFB, 0x50], [0x1F, 0x80, 0x2A, 0xBC]]"

lemma ex_slices_ok: "list_all2 (layer_slice ex_session) (mLayers ex_stack) ex_slices"
  by code_simp

theorem decoded_frame_repacks_witness:
  "\<exists>pkt stack'. decodeStack ex_session ex_stack (concat ex_slices) = (pkt, stack') \<and>
     concat (map (bp_bytes \<circ> pack_layer) (mLayers stack')) = [0x22, 0xF0, 0x12, 0x30, 0xFB, 0x50, 0x1F, 0x80, 0x2A, 0xBC]"
proof -
  obtain pkt stack' where "decodeStack ex_session ex_stack (concat ex_slices) = (pkt, stack')"
    by fastforce
  then show ?thesis
    using decoded_frame_repacks [OF ex_slices_ok] by (auto simp: ex_slices_def)
qed

end
