(* ===== verification/Json_Reader.thy ===== *)
theory Json_Reader
  imports Session_Format
begin

text \<open>
  The JSON of \<^verbatim>\<open>Session::toJson\<close> read back. The reader accepts the compact JSON the tool
  writes (RFC 8259 without white space, escapes, signs and fractions); the fuel is the number of nested
  calls, and twice the length of a text is enough for it. For names without quotes, backslashes and
  control characters, which JSON would have to escape and the sources do not, every line is read back as
  the document it was written for.
\<close>

section \<open>A reader\<close>

definition plain_char :: "char \<Rightarrow> bool" where
  "plain_char c \<longleftrightarrow> c \<noteq> CHR 0x22 \<and> c \<noteq> CHR 0x5C \<and> (of_char c :: nat) \<ge> 32"

text \<open>The text up to the closing quote, behind the opening one.\<close>

fun read_string :: "string \<Rightarrow> (string \<times> string) option" where
  "read_string [] = None"
| "read_string (c # s) =
     (if c = CHR 0x22 then Some ([], s)
      else if plain_char c then map_option (\<lambda>(t, r). (c # t, r)) (read_string s)
      else None)"

fun read_value :: "nat \<Rightarrow> string \<Rightarrow> (json \<times> string) option"
  and read_elements :: "nat \<Rightarrow> string \<Rightarrow> (json list \<times> string) option"
  and read_members :: "nat \<Rightarrow> string \<Rightarrow> ((string \<times> json) list \<times> string) option" where
  "read_value 0 s = None"
| "read_value (Suc k) [] = None"
| "read_value (Suc k) (c # s) =
     (if c = CHR 0x22 then map_option (\<lambda>(t, r). (JString t, r)) (read_string s)
      else if c = CHR ''['' then
        (if s \<noteq> [] \<and> hd s = CHR '']'' then Some (JArray [], tl s)
         else map_option (\<lambda>(js, r). (JArray js, r)) (read_elements k s))
      else if c = CHR ''{'' then
        (if s \<noteq> [] \<and> hd s = CHR ''}'' then Some (JObject [], tl s)
         else map_option (\<lambda>(ms, r). (JObject ms, r)) (read_members k s))
      else if is_digit 10 c then
        Some (JNumber (nat (digits_value 10 (takeWhile (is_digit 10) (c # s)))), dropWhile (is_digit 10) (c # s))
      else None)"
| "read_elements 0 s = None"
| "read_elements (Suc k) s = (case read_value k s of
     Some (j, c # r) \<Rightarrow>
       if c = CHR '']'' then Some ([j], r)
       else if c = CHR '','' then map_option (\<lambda>(js, r). (j # js, r)) (read_elements k r)
       else None
   | _ \<Rightarrow> None)"
| "read_members 0 s = None"
| "read_members (Suc k) s =
     (if s = [] \<or> hd s \<noteq> CHR 0x22 then None
      else case read_string (tl s) of
          Some (n, c # r) \<Rightarrow>
            if c \<noteq> CHR '':'' then None
            else (case read_value k r of
                Some (j, d # r') \<Rightarrow>
                  if d = CHR ''}'' then Some ([(n, j)], r')
                  else if d = CHR '','' then map_option (\<lambda>(ms, r). ((n, j) # ms, r)) (read_members k r')
                  else None
              | _ \<Rightarrow> None)
        | _ \<Rightarrow> None)"

definition read_json :: "string \<Rightarrow> json option" where
  "read_json s = (case read_value (2 * length s + 1) s of Some (j, []) \<Rightarrow> Some j | _ \<Rightarrow> None)"

section \<open>Reading what was rendered\<close>

fun clean_json :: "json \<Rightarrow> bool" where
  "clean_json (JNumber n) \<longleftrightarrow> True"
| "clean_json (JString s) \<longleftrightarrow> list_all plain_char s"
| "clean_json (JArray js) \<longleftrightarrow> list_all clean_json js"
| "clean_json (JObject ms) \<longleftrightarrow> list_all (\<lambda>(n, j). list_all plain_char n \<and> clean_json j) ms"

lemma read_string_clean: "list_all plain_char t \<Longrightarrow> read_string (t @ CHR 0x22 # r) = Some (t, r)"
  by (induction t) (auto simp: plain_char_def)

text \<open>What may follow a value: nothing that continues a number.\<close>

definition ends_value :: "string \<Rightarrow> bool" where
  "ends_value r \<longleftrightarrow> r = [] \<or> \<not> is_digit 10 (hd r)"

lemma read_number:
  assumes "ends_value r" and "0 < k"
  shows "read_value k (dec_digits n @ r) = Some (JNumber n, r)"
proof -
  have digits: "is_digit 10 c" if "c \<in> set (dec_digits n)" for c
    using dec_digits_set [OF that] dec_digit_char_props(1) by auto
  obtain c s where cs: "dec_digits n = c # s"
    by (cases "dec_digits n") simp_all
  have "\<not> is_digit 10 CHR 0x22" "\<not> is_digit 10 CHR ''[''" "\<not> is_digit 10 CHR ''{''"
    by code_simp+
  then have c: "is_digit 10 c" "c \<noteq> CHR 0x22" "c \<noteq> CHR ''[''" "c \<noteq> CHR ''{''"
    using digits [of c] cs by auto
  have "takeWhile (is_digit 10) (dec_digits n @ r) = dec_digits n" "dropWhile (is_digit 10) (dec_digits n @ r) = r"
    using digits assms(1) by (cases r; auto simp: ends_value_def takeWhile_append2 dropWhile_append2)+
  then show ?thesis
    using assms(2) c dec_digits_value [of n] by (cases k) (simp_all add: cs)
qed

lemma separator_ends: "ends_value (CHR '','' # r)" "ends_value (CHR '']'' # r)" "ends_value (CHR ''}'' # r)" "ends_value []"
proof -
  have "\<not> is_digit 10 CHR '',''" "\<not> is_digit 10 CHR '']''" "\<not> is_digit 10 CHR ''}''"
    by code_simp+
  then show "ends_value (CHR '','' # r)" "ends_value (CHR '']'' # r)" "ends_value (CHR ''}'' # r)" "ends_value []"
    by (simp_all add: ends_value_def)
qed

definition reads :: "json \<Rightarrow> bool" where
  "reads j \<longleftrightarrow> (\<forall>r k. ends_value r \<longrightarrow> 2 * length (render j) < k \<longrightarrow> read_value k (render j @ r) = Some (j, r))"

lemma comma_separated_Cons: "comma_separated (s # ss) = (if ss = [] then s else s @ '','' @ comma_separated ss)"
  by (cases ss) simp_all

lemma reads_value: "reads j \<Longrightarrow> ends_value r \<Longrightarrow> 2 * length (render j) < k \<Longrightarrow> read_value k (render j @ r) = Some (j, r)"
  by (simp add: reads_def)

lemma read_elements_reads:
  "js \<noteq> [] \<Longrightarrow> \<forall>j\<in>set js. reads j \<Longrightarrow> 2 * length (comma_separated (map render js)) + 2 < k \<Longrightarrow>
     read_elements k (comma_separated (map render js) @ CHR '']'' # r) = Some (js, r)"
proof (induction js arbitrary: k)
  case (Cons j js)
  obtain k' where k: "k = Suc k'"
    using Cons.prems(3) by (cases k) simp_all
  show ?case
  proof (cases "js = []")
    case True
    then show ?thesis
      using reads_value [OF _ separator_ends(2) [of r], of j k'] Cons.prems by (simp add: k)
  next
    case False
    let ?rest = "comma_separated (map render js) @ CHR '']'' # r"
    have "read_value k' (render j @ CHR '','' # ?rest) = Some (j, CHR '','' # ?rest)"
      using Cons.prems False by (intro reads_value separator_ends(1)) (simp_all add: k comma_separated_Cons)
    moreover have "read_elements k' ?rest = Some (js, r)"
      using Cons.prems False by (intro Cons.IH) (simp_all add: k comma_separated_Cons)
    ultimately show ?thesis
      using False by (simp add: k comma_separated_Cons)
  qed
qed simp

lemma read_members_reads:
  "ms \<noteq> [] \<Longrightarrow> \<forall>(n, j)\<in>set ms. list_all plain_char n \<and> reads j \<Longrightarrow>
     2 * length (comma_separated (map (\<lambda>(n, j). quoted n @ '':'' @ render j) ms)) + 2 < k \<Longrightarrow>
     read_members k (comma_separated (map (\<lambda>(n, j). quoted n @ '':'' @ render j) ms) @ CHR ''}'' # r) = Some (ms, r)"
proof (induction ms arbitrary: k)
  case (Cons m ms)
  obtain n j where m: "m = (n, j)" "list_all plain_char n" "reads j"
    using Cons.prems(2) by (cases m) auto
  obtain k' where k: "k = Suc k'"
    using Cons.prems(3) by (cases k) simp_all
  have name: "read_string (n @ CHR 0x22 # s) = Some (n, s)" for s
    by (rule read_string_clean [OF m(2)])
  show ?case
  proof (cases "ms = []")
    case True
    have "read_value k' (render j @ CHR ''}'' # r) = Some (j, CHR ''}'' # r)"
      using Cons.prems True m(1) by (intro reads_value [OF m(3)] separator_ends(3)) (simp add: k)
    then show ?thesis
      using True by (simp add: k m(1) quoted_def name)
  next
    case False
    let ?rest = "comma_separated (map (\<lambda>(n, j). quoted n @ '':'' @ render j) ms) @ CHR ''}'' # r"
    have "read_value k' (render j @ CHR '','' # ?rest) = Some (j, CHR '','' # ?rest)"
      using Cons.prems False m(1) by (intro reads_value [OF m(3)] separator_ends(1)) (simp add: k comma_separated_Cons)
    moreover have "read_members k' ?rest = Some (ms, r)"
      using Cons.prems False m(1) by (intro Cons.IH) (simp_all add: k comma_separated_Cons)
    ultimately show ?thesis
      using False by (simp add: k comma_separated_Cons m(1) quoted_def name)
  qed
qed simp

lemma render_first: "\<exists>c s. render j = c # s \<and> c \<noteq> CHR '']'' \<and> c \<noteq> CHR ''}''"
proof (cases j)
  case (JNumber n)
  obtain c s where cs: "dec_digits n = c # s"
    by (cases "dec_digits n") simp_all
  have "\<not> is_digit 10 CHR '']''" "\<not> is_digit 10 CHR ''}''"
    by code_simp+
  moreover have "is_digit 10 c"
    using dec_digits_set [of c n] dec_digit_char_props(1) by (auto simp: cs)
  ultimately show ?thesis
    using cs JNumber by auto
qed (simp_all add: quoted_def)

lemma reads_array:
  assumes "\<forall>j\<in>set js. reads j"
  shows "reads (JArray js)"
  unfolding reads_def
proof (intro allI impI)
  fix r k
  assume k: "2 * length (render (JArray js)) < k"
  then obtain k' where k': "k = Suc k'" "2 * length (comma_separated (map render js)) + 2 < k'"
    by (cases k) simp_all
  show "read_value k (render (JArray js) @ r) = Some (JArray js, r)"
  proof (cases js)
    case (Cons j js')
    then have "\<exists>c s. comma_separated (map render js) = c # s \<and> c \<noteq> CHR '']''"
      using render_first [of j] by (auto simp: comma_separated_Cons)
    then show ?thesis
      using read_elements_reads [OF _ assms k'(2), of r] Cons k'(1) by auto
  qed (simp add: k'(1))
qed

lemma reads_object:
  assumes "\<forall>(n, j)\<in>set ms. list_all plain_char n \<and> reads j"
  shows "reads (JObject ms)"
  unfolding reads_def
proof (intro allI impI)
  fix r k
  assume k: "2 * length (render (JObject ms)) < k"
  let ?text = "comma_separated (map (\<lambda>(n, j). quoted n @ '':'' @ render j) ms)"
  obtain k' where k': "k = Suc k'" "2 * length ?text + 2 < k'"
    using k by (cases k) simp_all
  show "read_value k (render (JObject ms) @ r) = Some (JObject ms, r)"
  proof (cases ms)
    case (Cons m ms')
    then have "\<exists>s. ?text = CHR 0x22 # s"
      by (cases m) (auto simp: comma_separated_Cons quoted_def)
    then show ?thesis
      using read_members_reads [OF _ assms k'(2), of r] Cons k'(1) by auto
  qed (simp add: k'(1))
qed

text \<open>Every clean document is read back, whatever follows it.\<close>

lemma clean_reads: "clean_json j \<Longrightarrow> reads j"
proof (induction j)
  case (JNumber n)
  then show ?case
    using read_number by (auto simp: reads_def)
next
  case (JString s)
  then have "read_value k (render (JString s) @ r) = Some (JString s, r)" if "0 < k" for r k
    using that read_string_clean [of s r] by (cases k) (simp_all add: quoted_def)
  then show ?case
    by (auto simp: reads_def)
next
  case (JArray js)
  then show ?case
    by (intro reads_array) (auto simp: list_all_iff)
next
  case (JObject ms)
  then show ?case
    by (intro reads_object) (fastforce simp: list_all_iff)
qed

lemma read_render: "clean_json j \<Longrightarrow> read_json (render j) = Some j"
  using reads_value [OF clean_reads separator_ends(4), of j "2 * length (render j) + 1"] by (simp add: read_json_def)

section \<open>Properties\<close>

definition clean_name :: "string \<Rightarrow> bool" where
  "clean_name n \<longleftrightarrow> list_all plain_char n"

text \<open>A frame whose layer and field names need no escape.\<close>

definition clean_packet :: "StackedPacket \<Rightarrow> bool" where
  "clean_packet pkt \<longleftrightarrow> list_all (\<lambda>(n, p). clean_name n \<and> list_all (clean_name \<circ> fst) (bp_fields p)) (sp_layers pkt)"

lemma toHex_clean: "list_all plain_char (toHex bs)"
proof (induction bs)
  case (Cons b bs)
  have "list_all plain_char kHex"
    by code_simp
  then have "plain_char (kHex ! n)" if "n < 16" for n
    using that by (simp add: list_all_length kHex_def)
  then show ?case
    using Cons nibble_bounds [of b] by simp
qed simp

lemma stack_document_clean:
  assumes "clean_packet pkt"
  shows "clean_json (stack_document pkt)"
proof -
  have "list_all plain_char ''fields''" "list_all plain_char ''hex''" "list_all plain_char ''iface''" "list_all plain_char ''layers''"
    by code_simp+
  then show ?thesis
    using assms
    by (auto simp: clean_packet_def clean_name_def stack_document_def layer_document_def packet_members_def
        list_all_iff toHex_clean [unfolded list_all_iff] split: prod.splits)
qed

lemma toHex_inject: "toHex bs = toHex cs \<longleftrightarrow> bs = cs"
  by (metis decode_pairs_toHex option.inject)

lemma stack_document_inject:
  assumes "stack_document p = stack_document q"
  shows "p = q"
proof -
  have "inj (\<lambda>(n, v :: u64). (n, JNumber (unat v)))"
    by (auto intro!: injI unsigned_word_eqI)
  then have "x = y" if "layer_document x = layer_document y" for x y
    using that by (cases x; cases y; cases "snd x"; cases "snd y")
      (auto simp: layer_document_def packet_members_def toHex_inject dest: injD [OF inj_mapI])
  then have "inj layer_document"
    by (rule injI)
  then show ?thesis
    using assms by (cases p; cases q) (auto simp: stack_document_def toHex_inject dest: injD [OF inj_mapI])
qed

text \<open>C27: A line of JSON output determines the frame it was written for: when no layer or field name needs
  an escape, reading the line of a stacked frame as JSON gives exactly the documented object, and
  two frames with the same line are the same frame, bytes, names and values included.\<close>

theorem json_line_reads_back:
  assumes "clean_packet pkt"
  shows "read_json (toJson_stack pkt) = Some (stack_document pkt) \<and>
    (clean_packet pkt' \<and> toJson_stack pkt' = toJson_stack pkt \<longrightarrow> pkt' = pkt)"
proof -
  have "read_json (toJson_stack p) = Some (stack_document p)" if "clean_packet p" for p
    using read_render [OF stack_document_clean [OF that]]
    by (simp add: toJson_stack_def stack_document_def toJson_chain_render quoted_def)
  then show ?thesis
    using assms stack_document_inject by (metis option.inject)
qed

definition ex_frame :: StackedPacket where
  "ex_frame = \<lparr>sp_bytes = [7, 0xFF], sp_layers =
     [(''eth'', \<lparr>bp_bytes = [7], bp_fields = [(''x'', 0), (''y'', 7)]\<rparr>), (''p'', \<lparr>bp_bytes = [0xFF], bp_fields = [(''z'', 255)]\<rparr>)]\<rparr>"

theorem json_line_reads_back_witness: "read_json (toJson_stack ex_frame) = Some (stack_document ex_frame)"
proof -
  have "clean_packet ex_frame"
    by (simp add: clean_packet_def ex_frame_def clean_name_def plain_char_def)
  then show ?thesis
    using json_line_reads_back by blast
qed

end
