(* ===== verification/Axis_Bridge.thy ===== *)
theory Axis_Bridge
  imports Axi_Stream
begin

text \<open>
  The SystemC module that couples the network simulation with the RTL model
  (sim/inc/axis_bridge.h, sim/src/axis_bridge.cpp): \<^verbatim>\<open>tx_thread\<close> drives an AXI-Stream master
  port, \<^verbatim>\<open>rx_thread\<close> samples a slave port.

  The two threads run from one \<^verbatim>\<open>wait()\<close> to the next. A thread is the place it waits at
  (\<open>tx_pc\<close>, \<open>rx_pc\<close>, with the local variables that are live there) and one
  definition per stretch of code between two waits. \<open>tx_edge\<close> and \<open>rx_edge\<close> resume
  the threads at a rising clock edge with the input ports as sampled there; what they write to the
  output ports is seen from the next edge on. \<open>tx_notify\<close> resumes a thread blocked in
  \<^verbatim>\<open>tx_fifo.read\<close> when a packet was written.

  \<^verbatim>\<open>sc_fifo\<close> belongs to SystemC: its operations are the parameter \<open>sc_fifo\<close>, its
  documented behaviour the predicate \<open>sc_fifo_laws\<close>. A write or a read takes effect at once there; in SystemC it
  does so with the next delta cycle, before the next clock edge, so a packet written or a slot freed in the same
  delta cycle is not yet visible to the other side.
\<close>

section \<open>State\<close>

record 'f sc_fifo =
  fifo_new :: "nat \<Rightarrow> 'f"
  fifo_nb_write :: "bytes \<Rightarrow> 'f \<Rightarrow> bool \<times> 'f"
  fifo_read :: "'f \<Rightarrow> (bytes \<times> 'f) option"

text \<open>\<open>fifo_read\<close> is \<open>None\<close> when the FIFO is empty and the caller blocks.\<close>

definition sc_fifo_laws :: "'f sc_fifo \<Rightarrow> ('f \<Rightarrow> nat) \<Rightarrow> ('f \<Rightarrow> bytes list) \<Rightarrow> bool" where
  "sc_fifo_laws ops capacity queued \<longleftrightarrow>
     (\<forall>n. capacity (fifo_new ops n) = n \<and> queued (fifo_new ops n) = []) \<and>
     (\<forall>p f. capacity (snd (fifo_nb_write ops p f)) = capacity f \<and>
        fst (fifo_nb_write ops p f) = (length (queued f) < capacity f) \<and>
        queued (snd (fifo_nb_write ops p f)) = (if length (queued f) < capacity f then queued f @ [p] else queued f)) \<and>
     (\<forall>f. case queued f of
        [] \<Rightarrow> fifo_read ops f = None
      | p # ps \<Rightarrow> \<exists>f'. fifo_read ops f = Some (p, f') \<and> queued f' = ps \<and> capacity f' = capacity f)"

lemma fifo_write_law:
  assumes "sc_fifo_laws ops capacity queued"
  shows "capacity (snd (fifo_nb_write ops p f)) = capacity f"
    and "fst (fifo_nb_write ops p f) \<longleftrightarrow> length (queued f) < capacity f"
    and "queued (snd (fifo_nb_write ops p f)) = (if length (queued f) < capacity f then queued f @ [p] else queued f)"
  using assms unfolding sc_fifo_laws_def by blast+

lemma fifo_read_law:
  assumes "sc_fifo_laws ops capacity queued"
  shows "case queued f of [] \<Rightarrow> fifo_read ops f = None
    | p # ps \<Rightarrow> \<exists>f'. fifo_read ops f = Some (p, f') \<and> queued f' = ps \<and> capacity f' = capacity f"
  using assms unfolding sc_fifo_laws_def by blast

datatype tx_pc =
    Tx_reset
  | Tx_blocked
  | Tx_beat bytes nat
  | Tx_idle

datatype rx_pc =
    Rx_reset
  | Rx_idle
  | Rx_sampled bytes bool
  | Rx_more bytes

record 'f AxisBridge =
  m_tdata :: u64
  m_tkeep :: u8
  m_tvalid :: bool
  m_tlast :: bool
  s_tready :: bool
  tx_fifo :: 'f
  tx_at :: tx_pc
  rx_at :: rx_pc
  on_rx :: bool
  rx_calls :: "bytes list"

text \<open>
  \<open>on_rx\<close> says whether a callback is registered, \<open>rx_calls\<close> lists the packets it was
  called with. The input ports of the receive side at one edge:
\<close>

record axis_in =
  s_tdata :: u64
  s_tkeep :: u8
  s_tvalid :: bool
  s_tlast :: bool

section \<open>tx_thread\<close>

text \<open>The inner loop: drive the beat at \<^verbatim>\<open>offset\<close>, or the idle cycle behind the last one.\<close>

definition tx_present :: "bytes \<Rightarrow> nat \<Rightarrow> 'f AxisBridge \<Rightarrow> 'f AxisBridge" where
  "tx_present packet offset br =
     (let total = length packet in
      if offset < total then
        let chunk = chunk_size packet offset;
            lst = (offset + chunk \<ge> total)
        in br\<lparr>m_tdata := tdata_loop packet offset chunk,
              m_tkeep := ucast (push_bit chunk (1 :: u32) - 1),
              m_tlast := lst, m_tvalid := True, tx_at := Tx_beat packet offset\<rparr>
      else br\<lparr>m_tvalid := False, m_tlast := False, tx_at := Tx_idle\<rparr>)"

text \<open>\<^verbatim>\<open>tx_fifo.read(packet)\<close> at the head of the loop.\<close>

definition tx_fetch :: "'f sc_fifo \<Rightarrow> 'f AxisBridge \<Rightarrow> 'f AxisBridge" where
  "tx_fetch ops br = (case fifo_read ops (tx_fifo br) of
       None \<Rightarrow> br\<lparr>tx_at := Tx_blocked\<rparr>
     | Some (packet, f) \<Rightarrow> tx_present packet 0 (br\<lparr>tx_fifo := f\<rparr>))"

definition tx_edge :: "'f sc_fifo \<Rightarrow> bool \<Rightarrow> 'f AxisBridge \<Rightarrow> 'f AxisBridge" where
  "tx_edge ops m_tready br = (case tx_at br of
       Tx_reset \<Rightarrow> tx_fetch ops br
     | Tx_blocked \<Rightarrow> br
     | Tx_beat packet offset \<Rightarrow>
         if \<not> m_tready then br else tx_present packet (offset + chunk_size packet offset) br
     | Tx_idle \<Rightarrow> tx_fetch ops br)"

definition tx_notify :: "'f sc_fifo \<Rightarrow> 'f AxisBridge \<Rightarrow> 'f AxisBridge" where
  "tx_notify ops br = (if tx_at br = Tx_blocked then tx_fetch ops br else br)"

definition push_tx_packet :: "'f sc_fifo \<Rightarrow> bytes \<Rightarrow> 'f AxisBridge \<Rightarrow> bool \<times> 'f AxisBridge" where
  "push_tx_packet ops pkt br =
     (let (ok, f) = fifo_nb_write ops pkt (tx_fifo br) in (ok, br\<lparr>tx_fifo := f\<rparr>))"

section \<open>rx_thread\<close>

definition rx_sample :: "axis_in \<Rightarrow> bytes \<Rightarrow> 'f AxisBridge \<Rightarrow> 'f AxisBridge" where
  "rx_sample i packet br =
     br\<lparr>rx_at := Rx_sampled
          (packet @ concat (map (\<lambda>k. if s_tkeep i AND push_bit k 1 \<noteq> 0
             then [ucast (drop_bit (k * 8) (s_tdata i))] else []) [0..<TDATA_BYTES]))
          (s_tlast i)\<rparr>"

text \<open>\<^verbatim>\<open>while (!s_tvalid.read()) wait()\<close> before a packet and inside one.\<close>

definition rx_start :: "axis_in \<Rightarrow> 'f AxisBridge \<Rightarrow> 'f AxisBridge" where
  "rx_start i br = (if \<not> s_tvalid i then br\<lparr>rx_at := Rx_idle\<rparr> else rx_sample i [] br)"

definition rx_more :: "axis_in \<Rightarrow> bytes \<Rightarrow> 'f AxisBridge \<Rightarrow> 'f AxisBridge" where
  "rx_more i packet br = (if \<not> s_tvalid i then br\<lparr>rx_at := Rx_more packet\<rparr> else rx_sample i packet br)"

definition rx_edge :: "axis_in \<Rightarrow> 'f AxisBridge \<Rightarrow> 'f AxisBridge" where
  "rx_edge i br = (case rx_at br of
       Rx_reset \<Rightarrow> rx_start i br
     | Rx_idle \<Rightarrow> rx_start i br
     | Rx_sampled packet lst \<Rightarrow>
         if lst then rx_start i (if on_rx br then br\<lparr>rx_calls := rx_calls br @ [packet]\<rparr> else br)
         else rx_more i packet br
     | Rx_more packet \<Rightarrow> rx_more i packet br)"

section \<open>The module\<close>

text \<open>After both threads have run up to their first wait, with the depth-4 FIFO.\<close>

definition new_AxisBridge :: "'f sc_fifo \<Rightarrow> bool \<Rightarrow> 'f AxisBridge" where
  "new_AxisBridge ops callback =
     \<lparr>m_tdata = 0, m_tkeep = 0, m_tvalid = False, m_tlast = False, s_tready = True,
      tx_fifo = fifo_new ops 4, tx_at = Tx_reset, rx_at = Rx_reset, on_rx = callback, rx_calls = []\<rparr>"

definition bridge_edge :: "'f sc_fifo \<Rightarrow> bool \<Rightarrow> axis_in \<Rightarrow> 'f AxisBridge \<Rightarrow> 'f AxisBridge" where
  "bridge_edge ops m_tready i br = rx_edge i (tx_edge ops m_tready br)"

text \<open>The beats the ports show.\<close>

definition port_beat :: "'f AxisBridge \<Rightarrow> AxiStreamBeat" where
  "port_beat br = \<lparr>tdata = m_tdata br, tkeep = m_tkeep br, tlast = (if m_tlast br then 1 else 0)\<rparr>"

definition in_beat :: "axis_in \<Rightarrow> AxiStreamBeat" where
  "in_beat i = \<lparr>tdata = s_tdata i, tkeep = s_tkeep i, tlast = (if s_tlast i then 1 else 0)\<rparr>"

text \<open>
  The runs of a bridge, with three histories: the packets that were accepted, the beats that were
  transferred on the master port (an edge with valid and ready), and the beats that were
  transferred on the slave port, which is always ready.
\<close>

inductive bridge_run ::
    "'f sc_fifo \<Rightarrow> 'f AxisBridge \<Rightarrow> bytes list \<Rightarrow> AxiStreamBeat list \<Rightarrow> AxiStreamBeat list \<Rightarrow> 'f AxisBridge \<Rightarrow> bool"
  for ops br0 where
  run_start: "bridge_run ops br0 [] [] [] br0"
| run_push: "bridge_run ops br0 ps bs rs br \<Longrightarrow> push_tx_packet ops p br = (ok, br') \<Longrightarrow>
     bridge_run ops br0 (if ok then ps @ [p] else ps) bs rs (if ok then tx_notify ops br' else br')"
| run_edge: "bridge_run ops br0 ps bs rs br \<Longrightarrow>
     bridge_run ops br0 ps (if m_tvalid br \<and> m_tready then bs @ [port_beat br] else bs)
       (if s_tvalid i then rs @ [in_beat i] else rs) (bridge_edge ops m_tready i br)"

section \<open>Transmission\<close>

text \<open>What the transmit side still has to put on the port.\<close>

fun current_beats :: "tx_pc \<Rightarrow> AxiStreamBeat list" where
  "current_beats (Tx_beat packet offset) = beats_from packet offset"
| "current_beats _ = []"

definition pending_beats :: "('f \<Rightarrow> bytes list) \<Rightarrow> 'f AxisBridge \<Rightarrow> AxiStreamBeat list" where
  "pending_beats queued br =
     current_beats (tx_at br) @ concat (map (\<lambda>p. beats_from p 0) (queued (tx_fifo br)))"

text \<open>The ports agree with the place the thread waits at.\<close>

definition tx_ports_ok :: "'f AxisBridge \<Rightarrow> bool" where
  "tx_ports_ok br = (case tx_at br of
     Tx_beat packet offset \<Rightarrow> m_tvalid br \<and> offset < length packet \<and> port_beat br = make_beat packet offset
   | _ \<Rightarrow> \<not> m_tvalid br)"

lemma rx_edge_frame:
  "m_tdata (rx_edge i br) = m_tdata br" "m_tkeep (rx_edge i br) = m_tkeep br" "m_tvalid (rx_edge i br) = m_tvalid br"
  "m_tlast (rx_edge i br) = m_tlast br" "tx_fifo (rx_edge i br) = tx_fifo br" "tx_at (rx_edge i br) = tx_at br"
  "on_rx (rx_edge i br) = on_rx br"
  by (simp_all add: rx_edge_def rx_start_def rx_more_def rx_sample_def split: rx_pc.split)

lemma rx_edge_tx:
  "tx_ports_ok (rx_edge i br) = tx_ports_ok br" "pending_beats q (rx_edge i br) = pending_beats q br"
  "port_beat (rx_edge i br) = port_beat br"
  by (simp_all add: tx_ports_ok_def pending_beats_def port_beat_def rx_edge_frame split: tx_pc.split)

lemma tx_present_ok:
  "tx_ports_ok (tx_present packet offset br)"
  "pending_beats q (tx_present packet offset br) = beats_from packet offset @ concat (map (\<lambda>p. beats_from p 0) (q (tx_fifo br)))"
  "tx_fifo (tx_present packet offset br) = tx_fifo br"
  by (simp_all add: tx_ports_ok_def pending_beats_def tx_present_def port_beat_def make_beat_def Let_def
      beats_from.simps [of packet offset])

lemma tx_fetch_ok:
  assumes "sc_fifo_laws ops capacity queued" and "\<not> m_tvalid br" and "current_beats (tx_at br) = []"
  shows "tx_ports_ok (tx_fetch ops br)" and "pending_beats queued (tx_fetch ops br) = pending_beats queued br"
  using assms(2,3) fifo_read_law [OF assms(1), of "tx_fifo br"]
  by (auto simp: tx_fetch_def tx_present_ok split: list.splits) (simp_all add: pending_beats_def tx_ports_ok_def)

lemma tx_fetch_capacity:
  "sc_fifo_laws ops capacity queued \<Longrightarrow> capacity (tx_fifo (tx_fetch ops br)) = capacity (tx_fifo br)"
  using fifo_read_law [of ops capacity queued "tx_fifo br"] by (auto simp: tx_fetch_def tx_present_ok split: list.splits)

lemma tx_edge_ok:
  assumes "sc_fifo_laws ops capacity queued" and "tx_ports_ok br"
  shows "tx_ports_ok (tx_edge ops r br)"
    and "(if m_tvalid br \<and> r then [port_beat br] else []) @ pending_beats queued (tx_edge ops r br)
      = pending_beats queued br"
proof (atomize (full), cases "tx_at br")
  case (Tx_beat packet offset)
  then have "m_tvalid br" "offset < length packet" "port_beat br = make_beat packet offset"
    using assms(2) by (simp_all add: tx_ports_ok_def)
  moreover from this have "beats_from packet offset = make_beat packet offset # beats_from packet (offset + chunk_size packet offset)"
    by (simp add: beats_from.simps [of packet offset])
  ultimately show "tx_ports_ok (tx_edge ops r br) \<and> (if m_tvalid br \<and> r then [port_beat br] else []) @
      pending_beats queued (tx_edge ops r br) = pending_beats queued br"
    using assms(2) by (simp add: tx_edge_def Tx_beat tx_present_ok) (simp add: pending_beats_def Tx_beat)
qed (use assms tx_fetch_ok [OF assms(1), of br] in \<open>simp_all add: tx_edge_def tx_ports_ok_def\<close>)

lemma push_ok:
  assumes "sc_fifo_laws ops capacity queued" and "tx_ports_ok br" and "push_tx_packet ops p br = (ok, br')"
  shows "tx_ports_ok br'" and "pending_beats queued br' = pending_beats queued br @ (if ok then beats_from p 0 else [])"
    and "ok \<longleftrightarrow> length (queued (tx_fifo br)) < capacity (tx_fifo br)" and "capacity (tx_fifo br') = capacity (tx_fifo br)"
    and "\<not> ok \<Longrightarrow> queued (tx_fifo br') = queued (tx_fifo br)" and "tx_at br' = tx_at br"
    and "m_tvalid br' = m_tvalid br" and "port_beat br' = port_beat br"
  using assms(2,3) fifo_write_law [OF assms(1), of p "tx_fifo br"]
  by (auto simp: push_tx_packet_def tx_ports_ok_def pending_beats_def port_beat_def split: prod.splits tx_pc.splits)

lemma tx_notify_ok:
  assumes "sc_fifo_laws ops capacity queued" and "tx_ports_ok br"
  shows "tx_ports_ok (tx_notify ops br)" and "pending_beats queued (tx_notify ops br) = pending_beats queued br"
proof (atomize (full), cases "tx_at br = Tx_blocked")
  case True
  then show "tx_ports_ok (tx_notify ops br) \<and> pending_beats queued (tx_notify ops br) = pending_beats queued br"
    using assms(2) tx_fetch_ok [OF assms(1), of br] by (simp add: tx_notify_def) (simp add: tx_ports_ok_def)
qed (use assms(2) in \<open>simp add: tx_notify_def\<close>)

text \<open>The invariant of the transmit side: what was sent and what is pending is what was accepted.\<close>

lemma bridge_run_sent:
  assumes "sc_fifo_laws ops capacity queued" and "bridge_run ops (new_AxisBridge ops cb) ps bs rs br"
  shows "tx_ports_ok br \<and> bs @ pending_beats queued br = concat (map (\<lambda>p. beats_from p 0) ps)"
  using assms(2)
proof (induction rule: bridge_run.induct)
  case run_start
  then show ?case
    using assms(1) by (simp add: new_AxisBridge_def tx_ports_ok_def pending_beats_def sc_fifo_laws_def)
next
  case (run_push ps bs rs br p ok br')
  note pushed = push_ok [OF assms(1) conjunct1 [OF run_push.IH] run_push.hyps(2)]
  show ?case
    using run_push.IH pushed tx_notify_ok [OF assms(1) pushed(1)] by (auto simp flip: append_assoc)
next
  case (run_edge ps bs rs br m_tready i)
  then show ?case
    using tx_edge_ok(1) [OF assms(1), of br m_tready] tx_edge_ok(2) [OF assms(1), of br m_tready] by (auto simp: bridge_edge_def rx_edge_tx)
qed

section \<open>Reception\<close>

text \<open>Reassembly of a stream of beats: the packets that are complete and the bytes of the next one.\<close>

definition assemble_step :: "bytes list \<times> bytes \<Rightarrow> AxiStreamBeat \<Rightarrow> bytes list \<times> bytes" where
  "assemble_step st b =
     (let packet = snd st @ beat_payload b in if tlast b \<noteq> 0 then (fst st @ [packet], []) else (fst st, packet))"

definition assemble :: "AxiStreamBeat list \<Rightarrow> bytes list \<times> bytes" where
  "assemble rs = foldl assemble_step ([], []) rs"

definition rx_view :: "'f AxisBridge \<Rightarrow> bytes list \<times> bytes" where
  "rx_view br = (case rx_at br of
     Rx_sampled packet lst \<Rightarrow> if lst then (rx_calls br @ [packet], []) else (rx_calls br, packet)
   | Rx_more packet \<Rightarrow> (rx_calls br, packet)
   | _ \<Rightarrow> (rx_calls br, []))"

lemma rx_sample_beat:
  "rx_sample i packet br = br\<lparr>rx_at := Rx_sampled (packet @ beat_payload (in_beat i)) (tlast (in_beat i) \<noteq> 0)\<rparr>"
  by (simp add: rx_sample_def in_beat_def beat_payload_def cong: if_cong)

lemma rx_view_cong: "rx_at br' = rx_at br \<Longrightarrow> rx_calls br' = rx_calls br \<Longrightarrow> rx_view br' = rx_view br"
  by (simp add: rx_view_def split: rx_pc.split)

lemma rx_edge_refines:
  assumes "on_rx br"
  shows "rx_view (rx_edge i br) = (if s_tvalid i then assemble_step (rx_view br) (in_beat i) else rx_view br)"
  using assms
  by (cases "rx_at br")
    (simp_all add: rx_view_def rx_edge_def rx_start_def rx_more_def rx_sample_beat assemble_step_def
      Let_def)

lemma tx_side_frame:
  "rx_at (tx_edge ops r br) = rx_at br" "rx_calls (tx_edge ops r br) = rx_calls br" "on_rx (tx_edge ops r br) = on_rx br"
  "rx_at (tx_notify ops br) = rx_at br" "rx_calls (tx_notify ops br) = rx_calls br" "on_rx (tx_notify ops br) = on_rx br"
  "push_tx_packet ops p br = (ok, br') \<Longrightarrow> rx_at br' = rx_at br \<and> rx_calls br' = rx_calls br \<and> on_rx br' = on_rx br"
  by (auto simp: tx_edge_def tx_notify_def tx_fetch_def tx_present_def push_tx_packet_def Let_def
      split: tx_pc.split option.split prod.splits)

lemma bridge_run_received:
  assumes "bridge_run ops (new_AxisBridge ops True) ps bs rs br"
  shows "on_rx br \<and> rx_view br = assemble rs"
  using assms
proof (induction rule: bridge_run.induct)
  case run_start
  then show ?case by (simp add: new_AxisBridge_def rx_view_def assemble_def)
next
  case (run_push ps bs rs br p ok br')
  then show ?case
    using tx_side_frame(7) [OF run_push.hyps(2)] rx_view_cong [of br' br] rx_view_cong [of "tx_notify ops br'" br']
    by (simp add: tx_side_frame)
next
  case (run_edge ps bs rs br m_tready i)
  then have "on_rx (tx_edge ops m_tready br)" "rx_view (tx_edge ops m_tready br) = assemble rs"
    by (simp_all add: tx_side_frame rx_view_cong [of "tx_edge ops m_tready br" br])
  then show ?case
    using rx_edge_refines [of "tx_edge ops m_tready br" i] run_edge.IH
    by (simp add: bridge_edge_def rx_edge_frame tx_side_frame assemble_def)
qed

text \<open>The beats of a packet assemble to the packet.\<close>

lemma foldl_no_last:
  "\<forall>b\<in>set bs. tlast b = 0 \<Longrightarrow> foldl assemble_step (ps, acc) bs = (ps, acc @ concat (map beat_payload bs))"
  by (induction bs arbitrary: acc) (simp_all add: assemble_step_def)

lemma foldl_packet:
  "packet \<noteq> [] \<Longrightarrow> foldl assemble_step (ps, []) (beats_from packet 0) = (ps @ [packet], [])"
proof -
  assume "packet \<noteq> []"
  then obtain bs b where b: "beats_from packet 0 = bs @ [b]" "tlast b = 1" "\<forall>c\<in>set bs. tlast c = 0"
    using tlast_beats_from [of 0 packet] by auto
  then have "concat (map beat_payload bs) @ beat_payload b = packet"
    using payload_beats_from [of packet 0] by simp
  then show ?thesis
    using b by (simp add: foldl_no_last assemble_step_def)
qed

lemma assemble_packets:
  "assemble (concat (map (\<lambda>p. beats_from p 0) ps)) = (filter (\<lambda>p. p \<noteq> []) ps, [])"
proof -
  have "foldl assemble_step (qs, []) (concat (map (\<lambda>p. beats_from p 0) ps)) = (qs @ filter (\<lambda>p. p \<noteq> []) ps, [])" for qs
    by (induction ps arbitrary: qs) (simp_all add: foldl_packet beats_from.simps [of "[]"])
  then show ?thesis
    by (simp add: assemble_def)
qed

section \<open>Progress\<close>

text \<open>The ready edges the transmit side needs until it is empty: one per beat and one idle cycle per packet.\<close>

definition tx_work :: "('f \<Rightarrow> bytes list) \<Rightarrow> 'f AxisBridge \<Rightarrow> nat" where
  "tx_work queued br =
     (case tx_at br of Tx_blocked \<Rightarrow> 0 | Tx_beat packet offset \<Rightarrow> Suc (length (beats_from packet offset)) | _ \<Rightarrow> 1) +
     sum_list (map (\<lambda>p. Suc (length (beats_from p 0))) (queued (tx_fifo br)))"

text \<open>A blocked thread has an empty FIFO; writing to the FIFO wakes it.\<close>

definition tx_awake :: "('f \<Rightarrow> bytes list) \<Rightarrow> 'f AxisBridge \<Rightarrow> bool" where
  "tx_awake queued br \<longleftrightarrow> (tx_at br = Tx_blocked \<longrightarrow> queued (tx_fifo br) = [])"

lemma tx_present_work:
  "tx_work q (tx_present packet offset br) =
     Suc (length (beats_from packet offset)) + sum_list (map (\<lambda>p. Suc (length (beats_from p 0))) (q (tx_fifo br)))"
  "tx_awake q (tx_present packet offset br)"
  by (simp_all add: tx_work_def tx_awake_def tx_present_def Let_def beats_from.simps [of packet offset])

lemma tx_fetch_work:
  assumes "sc_fifo_laws ops capacity queued"
  shows "tx_work queued (tx_fetch ops br) = sum_list (map (\<lambda>p. Suc (length (beats_from p 0))) (queued (tx_fifo br)))"
    and "tx_awake queued (tx_fetch ops br)"
proof -
  note fifo_read_law [OF assms(1), of "tx_fifo br"]
  then show "tx_work queued (tx_fetch ops br) = sum_list (map (\<lambda>p. Suc (length (beats_from p 0))) (queued (tx_fifo br)))"
    "tx_awake queued (tx_fetch ops br)"
    by (auto simp: tx_fetch_def tx_present_work split: list.splits) (simp_all add: tx_work_def tx_awake_def)
qed

lemma tx_edge_work:
  assumes "sc_fifo_laws ops capacity queued" and "tx_ports_ok br" and "tx_awake queued br"
  shows "tx_awake queued (tx_edge ops r br)" and "tx_work queued (tx_edge ops True br) = tx_work queued br - 1"
proof (atomize (full), cases "tx_at br")
  case (Tx_beat packet offset)
  then have "beats_from packet offset = make_beat packet offset # beats_from packet (offset + chunk_size packet offset)"
    using assms(2) by (simp add: tx_ports_ok_def beats_from.simps [of packet offset])
  then show "tx_awake queued (tx_edge ops r br) \<and> tx_work queued (tx_edge ops True br) = tx_work queued br - 1"
    using assms(3) by (simp add: tx_edge_def Tx_beat tx_present_work) (simp add: tx_work_def Tx_beat)
qed (use assms(3) tx_fetch_work [OF assms(1), of br] in \<open>simp_all add: tx_edge_def tx_awake_def tx_work_def [of _ br]\<close>)

lemma rx_edge_work: "tx_work q (rx_edge i br) = tx_work q br" "tx_awake q (rx_edge i br) = tx_awake q br"
  by (simp_all add: tx_work_def tx_awake_def rx_edge_frame split: tx_pc.split)

lemma bridge_run_awake:
  assumes "sc_fifo_laws ops capacity queued" and "bridge_run ops (new_AxisBridge ops cb) ps bs rs br"
  shows "tx_awake queued br"
  using assms(2)
proof (induction rule: bridge_run.induct)
  case run_start
  then show ?case by (simp add: new_AxisBridge_def tx_awake_def)
next
  case (run_push ps bs rs br p ok br')
  have "tx_ports_ok br"
    using bridge_run_sent [OF assms(1) run_push.hyps(1)] by simp
  note pushed = push_ok [OF assms(1) this run_push.hyps(2)]
  show ?case
  proof (cases ok)
    case True
    then show ?thesis
      using tx_fetch_work(2) [OF assms(1), of br'] by (simp add: tx_notify_def) (simp add: tx_awake_def)
  next
    case False
    then have "queued (tx_fifo br') = queued (tx_fifo br)"
      by (rule pushed(5))
    then show ?thesis
      using run_push.IH False pushed(6) by (simp add: tx_awake_def)
  qed
next
  case (run_edge ps bs rs br m_tready i)
  then have "tx_ports_ok br"
    using bridge_run_sent [OF assms(1)] by blast
  then show ?case
    using run_edge.IH tx_edge_work(1) [OF assms(1), of br m_tready] by (simp add: bridge_edge_def rx_edge_work)
qed

lemma bridge_run_capacity:
  assumes "sc_fifo_laws ops capacity queued" and "bridge_run ops (new_AxisBridge ops cb) ps bs rs br"
  shows "capacity (tx_fifo br) = 4"
  using assms(2)
proof (induction rule: bridge_run.induct)
  case run_start
  then show ?case
    using assms(1) by (simp add: new_AxisBridge_def sc_fifo_laws_def)
next
  case (run_push ps bs rs br p ok br')
  have "capacity (tx_fifo br') = capacity (tx_fifo br)"
    using run_push.hyps(2) fifo_write_law(1) [OF assms(1), of p "tx_fifo br"] by (auto simp: push_tx_packet_def split: prod.splits)
  then show ?case
    using run_push.IH tx_fetch_capacity [OF assms(1), of br'] by (simp add: tx_notify_def)
next
  case (run_edge ps bs rs br m_tready i)
  then show ?case
    using tx_fetch_capacity [OF assms(1), of br]
    by (simp add: bridge_edge_def rx_edge_frame tx_edge_def tx_present_ok split: tx_pc.split)
qed

lemma ready_edges_drain:
  assumes "sc_fifo_laws ops capacity queued" and "tx_ports_ok br" and "tx_awake queued br" and "tx_work queued br \<le> length is"
  shows "pending_beats queued (fold (bridge_edge ops True) is br) = [] \<and> tx_at (fold (bridge_edge ops True) is br) = Tx_blocked"
  using assms(2-)
proof (induction "is" arbitrary: br)
  case Nil
  then show ?case
    by (auto simp: tx_work_def pending_beats_def split: tx_pc.splits)
next
  case (Cons i "is")
  have "tx_ports_ok (bridge_edge ops True i br)"
    using tx_edge_ok(1) [OF assms(1) Cons.prems(1)] by (simp add: bridge_edge_def rx_edge_tx)
  moreover have "tx_awake queued (bridge_edge ops True i br)" "tx_work queued (bridge_edge ops True i br) \<le> length is"
    using tx_edge_work [OF assms(1) Cons.prems(1,2)] Cons.prems(3) by (simp_all add: bridge_edge_def rx_edge_work)
  ultimately show ?case
    using Cons.IH by simp
qed

lemma rx_edge_calls: "on_rx br \<Longrightarrow> rx_calls (rx_edge i br) = fst (rx_view br)"
  by (simp add: rx_edge_def rx_view_def rx_start_def rx_more_def rx_sample_def split: rx_pc.split)

lemma bridge_delivers:
  assumes "sc_fifo_laws ops capacity queued" and "bridge_run ops (new_AxisBridge ops cb) ps bs rs br"
    and "pending_beats queued br = []" and "bridge_run ops2 (new_AxisBridge ops2 True) ps2 bs2 bs br2"
  shows "rx_calls (bridge_edge ops2 m_tready i br2) = filter (\<lambda>p. p \<noteq> []) ps"
proof -
  have "bs = concat (map (\<lambda>p. beats_from p 0) ps)"
    using bridge_run_sent [OF assms(1,2)] assms(3) by simp
  then have "rx_view br2 = (filter (\<lambda>p. p \<noteq> []) ps, [])" "on_rx br2"
    using bridge_run_received [OF assms(4)] by (simp_all add: assemble_packets)
  then show ?thesis
    using rx_edge_calls [of "tx_edge ops2 m_tready br2" i]
    by (simp add: bridge_edge_def tx_side_frame rx_view_cong [of "tx_edge ops2 m_tready br2" br2])
qed

section \<open>A FIFO on which the properties are evaluated\<close>

definition ex_fifo :: "(nat \<times> bytes list) sc_fifo" where
  "ex_fifo = \<lparr>fifo_new = (\<lambda>n. (n, [])),
     fifo_nb_write = (\<lambda>p (n, q). if length q < n then (True, (n, q @ [p])) else (False, (n, q))),
     fifo_read = (\<lambda>(n, q). case q of [] \<Rightarrow> None | p # ps \<Rightarrow> Some (p, (n, ps)))\<rparr>"

lemma ex_fifo_laws: "sc_fifo_laws ex_fifo fst snd"
  by (auto simp: sc_fifo_laws_def ex_fifo_def split: list.split)

definition ex_bridge :: "(nat \<times> bytes list) AxisBridge" where
  "ex_bridge = new_AxisBridge ex_fifo True"

definition ex_line :: axis_in where
  "ex_line = \<lparr>s_tdata = 7, s_tkeep = 1, s_tvalid = True, s_tlast = True\<rparr>"

definition ex_quiet :: axis_in where
  "ex_quiet = \<lparr>s_tdata = 0, s_tkeep = 0, s_tvalid = False, s_tlast = False\<rparr>"

text \<open>One packet of one byte is accepted and presented.\<close>

lemma ex_presenting:
  "bridge_run ex_fifo ex_bridge [[7]] [] [] (bridge_edge ex_fifo False ex_quiet (ex_bridge\<lparr>tx_fifo := (4, [[7]])\<rparr>))"
proof -
  have "push_tx_packet ex_fifo [7] ex_bridge = (True, ex_bridge\<lparr>tx_fifo := (4, [[7]])\<rparr>)"
    "tx_notify ex_fifo (ex_bridge\<lparr>tx_fifo := (4, [[7]])\<rparr>) = ex_bridge\<lparr>tx_fifo := (4, [[7]])\<rparr>"
    by (simp_all add: push_tx_packet_def ex_bridge_def new_AxisBridge_def ex_fifo_def tx_notify_def)
  then have "bridge_run ex_fifo ex_bridge [[7]] [] [] (ex_bridge\<lparr>tx_fifo := (4, [[7]])\<rparr>)"
    using run_push [OF run_start, of ex_fifo "[7]" ex_bridge True] by simp
  from run_edge [OF this, of False ex_quiet] show ?thesis
    by (simp add: ex_bridge_def new_AxisBridge_def ex_quiet_def)
qed

section \<open>Properties\<close>

text \<open>C17: Whatever the interleaving of pushed packets, clock edges and back pressure, no beat is lost,
  duplicated or reordered: the beats transferred on the master port, followed by those still to
  be driven, are the beats of the accepted packets in the order they were accepted. The port
  shows a valid beat exactly when one is being offered.\<close>

theorem axis_transfers_in_order:
  assumes "sc_fifo_laws ops capacity queued" and "bridge_run ops (new_AxisBridge ops cb) ps bs rs br"
  shows "bs @ pending_beats queued br = concat (map (\<lambda>p. beats_from p 0) ps) \<and>
    (m_tvalid br \<longleftrightarrow> current_beats (tx_at br) \<noteq> []) \<and>
    (m_tvalid br \<longrightarrow> port_beat br = hd (pending_beats queued br))"
proof -
  have "tx_ports_ok br" "bs @ pending_beats queued br = concat (map (\<lambda>p. beats_from p 0) ps)"
    using bridge_run_sent [OF assms] by simp_all
  then show ?thesis
    by (cases "tx_at br") (simp_all add: tx_ports_ok_def pending_beats_def beats_from.simps)
qed

theorem axis_transfers_in_order_witness:
  "\<exists>br. bridge_run ex_fifo ex_bridge [[7]] [] [] br \<and> pending_beats snd br = beats_from [7] 0"
  using axis_transfers_in_order [OF ex_fifo_laws ex_presenting [unfolded ex_bridge_def]] ex_presenting
  by (auto simp: ex_bridge_def)

text \<open>C18: The AXI-Stream handshake: an offered beat stays on the port, unchanged and valid, until it is
  accepted, through clock edges without \<^verbatim>\<open>m_tready\<close> and through packets pushed meanwhile; and a
  push is refused exactly when the four slots of the FIFO are taken, and then changes nothing that is
  queued or offered.\<close>

theorem axis_handshake:
  assumes "sc_fifo_laws ops capacity queued" and "bridge_run ops (new_AxisBridge ops cb) ps bs rs br"
    and "push_tx_packet ops p br = (ok, br')"
  shows "(m_tvalid br \<longrightarrow> m_tvalid (bridge_edge ops False i br) \<and> port_beat (bridge_edge ops False i br) = port_beat br) \<and>
    (m_tvalid br \<longrightarrow> m_tvalid (tx_notify ops br') \<and> port_beat (tx_notify ops br') = port_beat br) \<and>
    (ok \<longleftrightarrow> length (queued (tx_fifo br)) < 4) \<and> (\<not> ok \<longrightarrow> pending_beats queued br' = pending_beats queued br)"
proof -
  have ports: "tx_ports_ok br"
    using bridge_run_sent [OF assms(1,2)] by simp
  note pushed = push_ok [OF assms(1) ports assms(3)]
  have "m_tvalid br \<Longrightarrow> tx_edge ops False br = br" "m_tvalid br \<Longrightarrow> tx_notify ops br' = br'"
    using ports pushed(6) by (auto simp: tx_ports_ok_def tx_edge_def tx_notify_def split: tx_pc.splits)
  then show ?thesis
    using pushed bridge_run_capacity [OF assms(1,2)] by (simp add: bridge_edge_def rx_edge_frame rx_edge_tx)
qed

theorem axis_handshake_witness:
  "\<exists>br. bridge_run ex_fifo ex_bridge [[7]] [] [] br \<and> m_tvalid br \<and>
     m_tvalid (bridge_edge ex_fifo False ex_line br) \<and> port_beat (bridge_edge ex_fifo False ex_line br) = port_beat br"
proof -
  let ?br = "bridge_edge ex_fifo False ex_quiet (ex_bridge\<lparr>tx_fifo := (4, [[7]])\<rparr>)"
  have "m_tvalid ?br"
    by (simp add: bridge_edge_def rx_edge_frame tx_edge_def tx_fetch_def tx_present_def ex_bridge_def new_AxisBridge_def
        ex_fifo_def Let_def)
  moreover obtain ok br' where "push_tx_packet ex_fifo [] ?br = (ok, br')"
    by fastforce
  ultimately show ?thesis
    using axis_handshake [OF ex_fifo_laws ex_presenting [unfolded ex_bridge_def], of "[]" ok br' ex_line] ex_presenting
    by (auto simp: ex_bridge_def)
qed

text \<open>A device that forwards the transferred beats delivers the packets: when all beats of the
  accepted packets were transferred and another bridge has sampled exactly these beats, with any
  idle cycles between them, then with its next clock edge its callback was called with exactly the
  accepted packets, in order; packets without bytes have no beats and are dropped.\<close>

lemma axis_end_to_end:
  assumes "sc_fifo_laws ops capacity queued" and "bridge_run ops (new_AxisBridge ops cb) ps bs rs br"
    and "pending_beats queued br = []" and "bridge_run ops2 (new_AxisBridge ops2 True) ps2 bs2 bs br2"
  shows "rx_calls (bridge_edge ops2 m_tready i br2) = filter (\<lambda>p. p \<noteq> []) ps"
  by (rule bridge_delivers [OF assms])

lemma axis_end_to_end_example:
  "rx_calls (bridge_edge ex_fifo True ex_quiet (bridge_edge ex_fifo True ex_line ex_bridge)) = [[7]]"
proof -
  let ?br = "bridge_edge ex_fifo False ex_quiet (ex_bridge\<lparr>tx_fifo := (4, [[7]])\<rparr>)"
  have beat: "m_tvalid ?br" "port_beat ?br = in_beat ex_line" "\<not> s_tvalid ex_quiet"
    by code_simp+
  have sent: "bridge_run ex_fifo ex_bridge [[7]] [in_beat ex_line] [] (bridge_edge ex_fifo True ex_quiet ?br)"
    using run_edge [OF ex_presenting, of True ex_quiet] by (simp add: beat)
  have "pending_beats snd (bridge_edge ex_fifo True ex_quiet ?br) = []"
    by code_simp
  moreover have "bridge_run ex_fifo ex_bridge [] [] [in_beat ex_line] (bridge_edge ex_fifo True ex_line ex_bridge)"
    using run_edge [OF run_start, of ex_fifo ex_bridge True ex_line]
    by (simp add: ex_bridge_def new_AxisBridge_def ex_line_def)
  ultimately show ?thesis
    using axis_end_to_end [OF ex_fifo_laws sent [unfolded ex_bridge_def]] by (simp add: ex_bridge_def)
qed

text \<open>The transmit side makes progress: from every reachable state, \<open>tx_work\<close> clock edges with
  \<^verbatim>\<open>m_tready\<close> (one per beat still to be sent and one idle cycle per packet) empty the FIFO, and
  the thread waits for the next packet.\<close>

lemma axis_drains:
  assumes "sc_fifo_laws ops capacity queued" and "bridge_run ops (new_AxisBridge ops cb) ps bs rs br"
    and "tx_work queued br \<le> length is"
  shows "pending_beats queued (fold (bridge_edge ops True) is br) = [] \<and>
    tx_at (fold (bridge_edge ops True) is br) = Tx_blocked"
  using ready_edges_drain [OF assms(1) _ bridge_run_awake [OF assms(1,2)] assms(3)] bridge_run_sent [OF assms(1,2)] by simp

lemma axis_drains_example:
  "\<exists>br. bridge_run ex_fifo ex_bridge [[7]] [] [] br \<and>
     tx_at (fold (bridge_edge ex_fifo True) [ex_quiet, ex_quiet] br) = Tx_blocked"
proof -
  let ?br = "bridge_edge ex_fifo False ex_quiet (ex_bridge\<lparr>tx_fifo := (4, [[7]])\<rparr>)"
  have "tx_work snd ?br \<le> length [ex_quiet, ex_quiet]"
    by code_simp
  from axis_drains [OF ex_fifo_laws ex_presenting [unfolded ex_bridge_def] this [unfolded ex_bridge_def]] show ?thesis
    using ex_presenting by (auto simp: ex_bridge_def)
qed

end
