(* ===== verification/Net_Device.thy ===== *)
theory Net_Device
  imports Axis_Bridge
begin

text \<open>
  \<^verbatim>\<open>VerilatorNetDevice\<close> (sim/inc/verilator_net_device.h, sim/src/verilator_net_device.cpp): the
  ns-3 device whose data plane is an \<open>AxisBridge\<close>.

  ns-3 itself is the parameter \<open>ns3\<close>: packets, addresses and what their operations do. The
  device holds a pointer to its bridge; the operations that use it take the bridge's state and return
  it. A receive callback is a function on the state \<open>'s\<close> of the network simulation;
  \<open>None\<close> is the null callback. Only the registration of the type with ns-3's run-time type
  system (\<^verbatim>\<open>GetTypeId\<close>) is left out.
\<close>

type_synonym u16 = "16 word"

record ('p, 'a) ns3 =
  ns3_GetSize :: "'p \<Rightarrow> u32"
  ns3_CopyData :: "'p \<Rightarrow> u32 \<Rightarrow> bytes"
  ns3_CreatePacket :: "bytes \<Rightarrow> u32 \<Rightarrow> 'p"
  ns3_ConvertFrom :: "'a \<Rightarrow> 'a"
  ns3_Broadcast :: 'a
  ns3_Multicast :: 'a
  ns3_Multicast6 :: 'a

text \<open>What the device relies on: a packet made of some bytes gives these bytes back.\<close>

definition ns3_packet_laws :: "('p, 'a) ns3 \<Rightarrow> bool" where
  "ns3_packet_laws n \<longleftrightarrow> (\<forall>bs. length bs < 2 ^ 32 \<longrightarrow>
     ns3_CopyData n (ns3_CreatePacket n bs (of_nat (length bs))) (ns3_GetSize n (ns3_CreatePacket n bs (of_nat (length bs)))) = bs)"

record ('p, 'a, 'node, 's) VerilatorNetDevice =
  m_ifIndex :: u32
  m_mtu :: u16
  m_address :: 'a
  m_node :: "'node option"
  m_rxCallback :: "('p \<Rightarrow> u16 \<Rightarrow> 'a \<Rightarrow> 's \<Rightarrow> 's) option"
  m_promiscRxCallback :: "('p \<Rightarrow> u16 \<Rightarrow> 'a \<Rightarrow> 'a \<Rightarrow> 's \<Rightarrow> 's) option"

definition new_VerilatorNetDevice :: "'a \<Rightarrow> ('p, 'a, 'node, 's) VerilatorNetDevice" where
  "new_VerilatorNetDevice addr =
     \<lparr>m_ifIndex = 0, m_mtu = 1500, m_address = addr, m_node = None, m_rxCallback = None,
      m_promiscRxCallback = None\<rparr>"

section \<open>Data path\<close>

definition SetupRx :: "'f AxisBridge \<Rightarrow> 'f AxisBridge" where
  "SetupRx br = br\<lparr>on_rx := True\<rparr>"

definition GetBroadcast :: "('p, 'a) ns3 \<Rightarrow> 'a" where
  "GetBroadcast n = ns3_Broadcast n"

text \<open>The event the callback of the bridge schedules.\<close>

definition DeliverPacket :: "('p, 'a) ns3 \<Rightarrow> ('p, 'a, 'node, 's) VerilatorNetDevice \<Rightarrow> bytes \<Rightarrow> 's \<Rightarrow> 's" where
  "DeliverPacket n dev bs s = (case m_rxCallback dev of
       None \<Rightarrow> s
     | Some cb \<Rightarrow> cb (ns3_CreatePacket n bs (of_nat (length bs))) 0 (GetBroadcast n) s)"

definition Send :: "('p, 'a) ns3 \<Rightarrow> 'f sc_fifo \<Rightarrow> 'p \<Rightarrow> 'a \<Rightarrow> u16 \<Rightarrow> 'f AxisBridge \<Rightarrow> bool \<times> 'f AxisBridge" where
  "Send n ops packet dest protocolNumber br =
     (let sz = ns3_GetSize n packet; buf = ns3_CopyData n packet sz in push_tx_packet ops buf br)"

definition SendFrom :: "('p, 'a) ns3 \<Rightarrow> 'f sc_fifo \<Rightarrow> 'p \<Rightarrow> 'a \<Rightarrow> 'a \<Rightarrow> u16 \<Rightarrow> 'f AxisBridge \<Rightarrow> bool \<times> 'f AxisBridge" where
  "SendFrom n ops packet source dest protocolNumber br = Send n ops packet dest protocolNumber br"

section \<open>Accessors\<close>

definition SetIfIndex :: "u32 \<Rightarrow> ('p, 'a, 'node, 's) VerilatorNetDevice \<Rightarrow> ('p, 'a, 'node, 's) VerilatorNetDevice" where
  "SetIfIndex index dev = dev\<lparr>m_ifIndex := index\<rparr>"

definition SetAddress ::
    "('p, 'a) ns3 \<Rightarrow> 'a \<Rightarrow> ('p, 'a, 'node, 's) VerilatorNetDevice \<Rightarrow> ('p, 'a, 'node, 's) VerilatorNetDevice" where
  "SetAddress n address dev = dev\<lparr>m_address := ns3_ConvertFrom n address\<rparr>"

definition SetMtu :: "u16 \<Rightarrow> ('p, 'a, 'node, 's) VerilatorNetDevice \<Rightarrow> bool \<times> ('p, 'a, 'node, 's) VerilatorNetDevice" where
  "SetMtu mtu dev = (True, dev\<lparr>m_mtu := mtu\<rparr>)"

definition SetNode :: "'node option \<Rightarrow> ('p, 'a, 'node, 's) VerilatorNetDevice \<Rightarrow> ('p, 'a, 'node, 's) VerilatorNetDevice" where
  "SetNode node dev = dev\<lparr>m_node := node\<rparr>"

definition SetReceiveCallback ::
    "('p \<Rightarrow> u16 \<Rightarrow> 'a \<Rightarrow> 's \<Rightarrow> 's) option \<Rightarrow> ('p, 'a, 'node, 's) VerilatorNetDevice \<Rightarrow> ('p, 'a, 'node, 's) VerilatorNetDevice" where
  "SetReceiveCallback cb dev = dev\<lparr>m_rxCallback := cb\<rparr>"

text \<open>The promiscuous callback is stored; nothing calls it.\<close>

definition SetPromiscReceiveCallback ::
    "('p \<Rightarrow> u16 \<Rightarrow> 'a \<Rightarrow> 'a \<Rightarrow> 's \<Rightarrow> 's) option \<Rightarrow> ('p, 'a, 'node, 's) VerilatorNetDevice \<Rightarrow> ('p, 'a, 'node, 's) VerilatorNetDevice" where
  "SetPromiscReceiveCallback cb dev = dev\<lparr>m_promiscRxCallback := cb\<rparr>"

definition AddLinkChangeCallback ::
    "('s \<Rightarrow> 's) \<Rightarrow> ('p, 'a, 'node, 's) VerilatorNetDevice \<Rightarrow> ('p, 'a, 'node, 's) VerilatorNetDevice" where
  "AddLinkChangeCallback cb dev = dev"

definition GetIfIndex :: "('p, 'a, 'node, 's) VerilatorNetDevice \<Rightarrow> u32" where
  "GetIfIndex dev = m_ifIndex dev"

definition GetAddress :: "('p, 'a, 'node, 's) VerilatorNetDevice \<Rightarrow> 'a" where
  "GetAddress dev = m_address dev"

definition GetMtu :: "('p, 'a, 'node, 's) VerilatorNetDevice \<Rightarrow> u16" where
  "GetMtu dev = m_mtu dev"

definition GetNode :: "('p, 'a, 'node, 's) VerilatorNetDevice \<Rightarrow> 'node option" where
  "GetNode dev = m_node dev"

text \<open>\<^verbatim>\<open>GetChannel\<close> returns the null pointer.\<close>

definition GetChannel :: "('p, 'a, 'node, 's) VerilatorNetDevice \<Rightarrow> 'channel option" where
  "GetChannel dev = None"

definition GetMulticast :: "('p, 'a) ns3 \<Rightarrow> 'a" where
  "GetMulticast n = ns3_Multicast n"

definition GetMulticast6 :: "('p, 'a) ns3 \<Rightarrow> 'a" where
  "GetMulticast6 n = ns3_Multicast6 n"

definition IsLinkUp :: bool where
  "IsLinkUp = True"

definition IsBroadcast :: bool where
  "IsBroadcast = True"

definition IsMulticast :: bool where
  "IsMulticast = False"

definition IsBridge :: bool where
  "IsBridge = False"

definition IsPointToPoint :: bool where
  "IsPointToPoint = True"

definition SupportsSendFrom :: bool where
  "SupportsSendFrom = True"

definition NeedsArp :: bool where
  "NeedsArp = False"

text \<open>
  Every setter is read back by its getter and leaves the receive path alone; what is delivered depends
  on the receive callback only, so a device with nothing but a promiscuous callback delivers nothing.
\<close>

lemma device_get_set:
  "GetIfIndex (SetIfIndex index dev) = index" "GetAddress (SetAddress n address dev) = ns3_ConvertFrom n address"
  "GetMtu (snd (SetMtu mtu dev)) = mtu" "GetNode (SetNode node dev) = node"
  by (simp_all add: GetIfIndex_def SetIfIndex_def GetAddress_def SetAddress_def GetMtu_def SetMtu_def GetNode_def SetNode_def)

lemma device_setters_keep_callback:
  "m_rxCallback (SetIfIndex index dev) = m_rxCallback dev" "m_rxCallback (SetAddress n address dev) = m_rxCallback dev"
  "m_rxCallback (snd (SetMtu mtu dev)) = m_rxCallback dev" "m_rxCallback (SetNode node dev) = m_rxCallback dev"
  "m_rxCallback (SetPromiscReceiveCallback pcb dev) = m_rxCallback dev" "m_rxCallback (SetReceiveCallback cb dev) = cb"
  by (simp_all add: SetIfIndex_def SetAddress_def SetMtu_def SetNode_def SetPromiscReceiveCallback_def SetReceiveCallback_def)

lemma DeliverPacket_cong: "m_rxCallback dev = m_rxCallback dev' \<Longrightarrow> DeliverPacket n dev bs s = DeliverPacket n dev' bs s"
  by (simp add: DeliverPacket_def)

lemma promiscuous_callback_unused:
  "DeliverPacket n (SetPromiscReceiveCallback pcb (new_VerilatorNetDevice address)) bs s = s"
  by (simp add: DeliverPacket_def device_setters_keep_callback new_VerilatorNetDevice_def)

section \<open>Two devices back to back\<close>

text \<open>Delivering the packets a bridge handed up, in order.\<close>

fun deliver_all :: "('p, 'a) ns3 \<Rightarrow> ('p, 'a, 'node, 's) VerilatorNetDevice \<Rightarrow> bytes list \<Rightarrow> 's \<Rightarrow> 's" where
  "deliver_all n dev [] s = s"
| "deliver_all n dev (bs # bss) s = deliver_all n dev bss (DeliverPacket n dev bs s)"

text \<open>A callback that records the payload and the protocol number of what it is given.\<close>

definition record_payload :: "('p, 'a) ns3 \<Rightarrow> 'p \<Rightarrow> u16 \<Rightarrow> 'a \<Rightarrow> bytes list \<Rightarrow> bytes list" where
  "record_payload n packet protocol source log = log @ [ns3_CopyData n packet (ns3_GetSize n packet)]"

lemma deliver_all_payloads:
  assumes "ns3_packet_laws n" and "list_all (\<lambda>bs. length bs < 2 ^ 32) bss"
    and "m_rxCallback dev = Some (record_payload n)"
  shows "deliver_all n dev bss log = log @ bss"
  using assms(2)
proof (induction bss arbitrary: log)
  case (Cons bs bss)
  moreover have "DeliverPacket n dev bs log = log @ [bs]"
    using assms(1,3) Cons.prems by (simp add: DeliverPacket_def record_payload_def ns3_packet_laws_def)
  ultimately show ?case by simp
qed simp

lemma deliver_all_no_callback: "m_rxCallback dev = None \<Longrightarrow> deliver_all n dev bss s = s"
  by (induction bss) (simp_all add: DeliverPacket_def)

text \<open>
  The data path of a sent frame: \<^verbatim>\<open>Send\<close> puts the packet's bytes into the bridge, refusing them
  exactly when its FIFO is full, and never looks at destination or protocol number.
\<close>

lemma Send_accepts:
  assumes "sc_fifo_laws ops capacity queued" and "bridge_run ops (new_AxisBridge ops cb) ps bs rs br"
    and "Send n ops packet dest proto br = (ok, br')"
  shows "bridge_run ops (new_AxisBridge ops cb) (if ok then ps @ [ns3_CopyData n packet (ns3_GetSize n packet)] else ps) bs rs
      (if ok then tx_notify ops br' else br')"
    and "ok \<longleftrightarrow> length (queued (tx_fifo br)) < 4" and "SendFrom n ops packet source dest proto br = (ok, br')"
proof -
  have push: "push_tx_packet ops (ns3_CopyData n packet (ns3_GetSize n packet)) br = (ok, br')"
    using assms(3) by (simp add: Send_def Let_def)
  show "bridge_run ops (new_AxisBridge ops cb) (if ok then ps @ [ns3_CopyData n packet (ns3_GetSize n packet)] else ps) bs rs
      (if ok then tx_notify ops br' else br')"
    by (rule run_push [OF assms(2) push])
  show "ok \<longleftrightarrow> length (queued (tx_fifo br)) < 4"
    using push_ok(3) [OF assms(1) _ push] bridge_run_sent [OF assms(1,2)] bridge_run_capacity [OF assms(1,2)] by simp
  show "SendFrom n ops packet source dest proto br = (ok, br')"
    using assms(3) by (simp add: SendFrom_def)
qed

text \<open>
  What one device sends another receives, when the RTL between them forwards the beats: the payloads
  handed to the receive callback are the payloads sent, in order.
\<close>

lemma devices_connected:
  assumes "sc_fifo_laws ops capacity queued" and "bridge_run ops (new_AxisBridge ops cb) ps bs rs br"
    and "pending_beats queued br = []" and "bridge_run ops2 (SetupRx (new_AxisBridge ops2 False)) ps2 bs2 bs br2"
    and "ns3_packet_laws n" and "list_all (\<lambda>p. length p < 2 ^ 32) ps" and "m_rxCallback dev = Some (record_payload n)"
  shows "deliver_all n dev (rx_calls (bridge_edge ops2 m_tready i br2)) [] = filter (\<lambda>p. p \<noteq> []) ps"
proof -
  have "SetupRx (new_AxisBridge ops2 False) = new_AxisBridge ops2 True"
    by (simp add: SetupRx_def new_AxisBridge_def)
  with assms(4) have run: "bridge_run ops2 (new_AxisBridge ops2 True) ps2 bs2 bs br2"
    by simp
  have "list_all (\<lambda>p. length p < 2 ^ 32) (filter (\<lambda>p. p \<noteq> []) ps)"
    using assms(6) by (auto simp: list_all_iff)
  then show ?thesis
    using deliver_all_payloads [OF assms(5) _ assms(7), of _ "[]"] bridge_delivers [OF assms(1-3) run] by simp
qed

end
