(* ===== verification/Cosim.thy ===== *)
theory Cosim
  imports Net_Device
begin

text \<open>
  The co-simulation that \<^verbatim>\<open>sc_main\<close> (sim/sc_main.cpp) puts together: one clock, one
  \<open>AxisBridge\<close>, the Verilator model of the device under test, and one
  \<open>VerilatorNetDevice\<close> on the bridge.

  \<open>dut_ports\<close> and \<open>bridge_ports\<close> are the signal bindings of sc_main, \<open>cosim_edge\<close>
  is one rising edge of the clock all parts share: every part samples the signals as they were
  before the edge. The device under test is generated from RTL that is not part of the sources: it is the
  parameter \<open>dut\<close>, whose outputs may depend on its state and, combinationally, on its inputs, and
  nothing is assumed of it.

  A packet the bridge hands to the receive callback becomes an event of ns-3
  (\<^verbatim>\<open>ScheduleNow\<close>). sc_main selects \<^verbatim>\<open>RealtimeSimulatorImpl\<close>, starts the SystemC kernel and
  never calls \<^verbatim>\<open>Simulator::Run\<close>, so the events stay where they are: \<open>cs_events\<close> lists them in order,
  and the state \<open>cs_net\<close> of the network simulation does not change.

  The traffic generator sc_main attaches to the device uses a constructor and a sender that do not
  exist; what reaches the device is any sequence of calls of \<^verbatim>\<open>Send\<close> instead.
\<close>

section \<open>Wiring\<close>

record dut_in =
  s_axis_tdata :: u64
  s_axis_tkeep :: u8
  s_axis_tvalid :: bool
  s_axis_tlast :: bool
  m_axis_tready :: bool

record dut_out =
  s_axis_tready :: bool
  m_axis_tdata :: u64
  m_axis_tkeep :: u8
  m_axis_tvalid :: bool
  m_axis_tlast :: bool

record 'd VTsnEndpoint =
  dut_outputs :: "'d \<Rightarrow> dut_in \<Rightarrow> dut_out"
  dut_clock :: "'d \<Rightarrow> dut_in \<Rightarrow> 'd"

definition dut_ports :: "'f AxisBridge \<Rightarrow> dut_in" where
  "dut_ports br = \<lparr>s_axis_tdata = m_tdata br, s_axis_tkeep = m_tkeep br, s_axis_tvalid = m_tvalid br,
     s_axis_tlast = m_tlast br, m_axis_tready = s_tready br\<rparr>"

definition bridge_ports :: "dut_out \<Rightarrow> axis_in" where
  "bridge_ports out = \<lparr>s_tdata = m_axis_tdata out, s_tkeep = m_axis_tkeep out, s_tvalid = m_axis_tvalid out,
     s_tlast = m_axis_tlast out\<rparr>"

record ('f, 'd, 'p, 'a, 'node, 's) cosim =
  cs_bridge :: "'f AxisBridge"
  cs_dut :: 'd
  cs_dev :: "('p, 'a, 'node, 's) VerilatorNetDevice"
  cs_events :: "bytes list"
  cs_net :: 's

text \<open>
  The set-up: the device with its receive path registered at the bridge, its allocated address, and
  attached to the one node of the topology.
\<close>

definition BuildNs3Topology ::
    "('p, 'a) ns3 \<Rightarrow> 'a \<Rightarrow> 'node \<Rightarrow> ('p, 'a, 'node, 's) VerilatorNetDevice \<Rightarrow> ('p, 'a, 'node, 's) VerilatorNetDevice" where
  "BuildNs3Topology n allocated node dev = SetNode (Some node) (SetAddress n allocated dev)"

definition sc_main_setup ::
    "('p, 'a) ns3 \<Rightarrow> 'f sc_fifo \<Rightarrow> 'a \<Rightarrow> 'a \<Rightarrow> 'node \<Rightarrow> 'd \<Rightarrow> 's \<Rightarrow> ('f, 'd, 'p, 'a, 'node, 's) cosim" where
  "sc_main_setup n ops no_address allocated node d s =
     \<lparr>cs_bridge = SetupRx (new_AxisBridge ops False), cs_dut = d,
      cs_dev = BuildNs3Topology n allocated node (new_VerilatorNetDevice no_address), cs_events = [], cs_net = s\<rparr>"

text \<open>\<^verbatim>\<open>(argc > 1) ? argv[1] : "protocols/"\<close>.\<close>

definition sc_protoDir :: "string list \<Rightarrow> string" where
  "sc_protoDir argv = (if length argv > 1 then argv ! 1 else ''protocols/'')"

definition cosim_edge :: "'f sc_fifo \<Rightarrow> 'd VTsnEndpoint \<Rightarrow> ('f, 'd, 'p, 'a, 'node, 's) cosim \<Rightarrow> ('f, 'd, 'p, 'a, 'node, 's) cosim" where
  "cosim_edge ops dut st =
     (let br = cs_bridge st; i = dut_ports br; out = dut_outputs dut (cs_dut st) i;
          br' = bridge_edge ops (s_axis_tready out) (bridge_ports out) br
      in st\<lparr>cs_bridge := br', cs_dut := dut_clock dut (cs_dut st) i,
            cs_events := cs_events st @ drop (length (rx_calls br)) (rx_calls br')\<rparr>)"

definition cosim_send ::
    "('p, 'a) ns3 \<Rightarrow> 'f sc_fifo \<Rightarrow> 'p \<Rightarrow> 'a \<Rightarrow> u16 \<Rightarrow> ('f, 'd, 'p, 'a, 'node, 's) cosim
      \<Rightarrow> bool \<times> ('f, 'd, 'p, 'a, 'node, 's) cosim" where
  "cosim_send n ops packet dest protocolNumber st =
     (let (ok, br) = Send n ops packet dest protocolNumber (cs_bridge st)
      in (ok, st\<lparr>cs_bridge := if ok then tx_notify ops br else br\<rparr>))"

definition dut_in_beat :: "dut_in \<Rightarrow> AxiStreamBeat" where
  "dut_in_beat i = \<lparr>tdata = s_axis_tdata i, tkeep = s_axis_tkeep i, tlast = (if s_axis_tlast i then 1 else 0)\<rparr>"

definition dut_out_beat :: "dut_out \<Rightarrow> AxiStreamBeat" where
  "dut_out_beat out = \<lparr>tdata = m_axis_tdata out, tkeep = m_axis_tkeep out, tlast = (if m_axis_tlast out then 1 else 0)\<rparr>"

text \<open>What is on the ports of the device under test before an edge.\<close>

definition dut_sees :: "('f, 'd, 'p, 'a, 'node, 's) cosim \<Rightarrow> dut_in" where
  "dut_sees st = dut_ports (cs_bridge st)"

definition dut_drives :: "'d VTsnEndpoint \<Rightarrow> ('f, 'd, 'p, 'a, 'node, 's) cosim \<Rightarrow> dut_out" where
  "dut_drives dut st = dut_outputs dut (cs_dut st) (dut_sees st)"

text \<open>
  The runs, with the payloads that \<^verbatim>\<open>Send\<close> accepted, the beats the device under test took in (valid and
  ready at an edge) and the beats it handed out.
\<close>

inductive cosim_run ::
    "('p, 'a) ns3 \<Rightarrow> 'f sc_fifo \<Rightarrow> 'd VTsnEndpoint \<Rightarrow> ('f, 'd, 'p, 'a, 'node, 's) cosim \<Rightarrow> bytes list
      \<Rightarrow> AxiStreamBeat list \<Rightarrow> AxiStreamBeat list \<Rightarrow> ('f, 'd, 'p, 'a, 'node, 's) cosim \<Rightarrow> bool"
  for n ops dut st0 where
  cosim_start: "cosim_run n ops dut st0 [] [] [] st0"
| cosim_sends: "cosim_run n ops dut st0 ps ins outs st \<Longrightarrow> cosim_send n ops packet dest proto st = (ok, st') \<Longrightarrow>
     cosim_run n ops dut st0 (if ok then ps @ [ns3_CopyData n packet (ns3_GetSize n packet)] else ps) ins outs st'"
| cosim_clocks: "cosim_run n ops dut st0 ps ins outs st \<Longrightarrow>
     cosim_run n ops dut st0 ps
       (if s_axis_tvalid (dut_sees st) \<and> s_axis_tready (dut_drives dut st) then ins @ [dut_in_beat (dut_sees st)] else ins)
       (if m_axis_tvalid (dut_drives dut st) \<and> m_axis_tready (dut_sees st) then outs @ [dut_out_beat (dut_drives dut st)] else outs)
       (cosim_edge ops dut st)"

lemma port_beats:
  "dut_in_beat (dut_ports br) = port_beat br" "in_beat (bridge_ports out) = dut_out_beat out"
  "s_axis_tvalid (dut_ports br) = m_tvalid br" "m_axis_tready (dut_ports br) = s_tready br"
  "s_tvalid (bridge_ports out) = m_axis_tvalid out"
  by (simp_all add: dut_in_beat_def dut_ports_def port_beat_def in_beat_def bridge_ports_def dut_out_beat_def)

section \<open>The run as a run of the bridge\<close>

text \<open>Two facts of the bridge: it is always ready, and calls are only appended.\<close>

lemma s_tready_kept:
  "s_tready (bridge_edge ops r i br) = s_tready br" "s_tready (tx_notify ops br) = s_tready br"
  "push_tx_packet ops p br = (ok, br') \<Longrightarrow> s_tready br' = s_tready br"
  by (auto simp: bridge_edge_def rx_edge_def rx_start_def rx_more_def rx_sample_def tx_edge_def tx_notify_def tx_fetch_def
      tx_present_def push_tx_packet_def Let_def split: rx_pc.split tx_pc.split option.split prod.splits)

lemma rx_calls_appended:
  "rx_calls (bridge_edge ops r i br) = rx_calls br @ drop (length (rx_calls br)) (rx_calls (bridge_edge ops r i br))"
proof -
  have "prefix (rx_calls br) (rx_calls (bridge_edge ops r i br))"
    by (auto simp: bridge_edge_def rx_edge_def rx_start_def rx_more_def rx_sample_def tx_side_frame split: rx_pc.split)
  then show ?thesis
    by (auto simp: prefix_def)
qed

lemma Send_frame:
  assumes "Send n ops packet dest proto br = (ok, br')"
  shows "rx_calls (if ok then tx_notify ops br' else br') = rx_calls br"
    and "s_tready (if ok then tx_notify ops br' else br') = s_tready br"
proof -
  have push: "push_tx_packet ops (ns3_CopyData n packet (ns3_GetSize n packet)) br = (ok, br')"
    using assms by (simp add: Send_def Let_def)
  show "rx_calls (if ok then tx_notify ops br' else br') = rx_calls br"
    "s_tready (if ok then tx_notify ops br' else br') = s_tready br"
    using tx_side_frame(7) [OF push] s_tready_kept(3) [OF push] by (simp_all add: tx_side_frame s_tready_kept)
qed

lemma cosim_edge_bridge:
  "cs_bridge (cosim_edge ops dut st) =
     bridge_edge ops (s_axis_tready (dut_drives dut st)) (bridge_ports (dut_drives dut st)) (cs_bridge st)"
  by (simp add: cosim_edge_def Let_def dut_drives_def dut_sees_def)

text \<open>Every run projects to a run of the bridge with the same beats; the events are the calls of the callback.\<close>

lemma cosim_run_bridge:
  assumes "cosim_run n ops dut (sc_main_setup n ops no_address a node d s) ps ins outs st"
  shows "bridge_run ops (new_AxisBridge ops True) ps ins outs (cs_bridge st) \<and> s_tready (cs_bridge st) \<and>
    cs_events st = rx_calls (cs_bridge st) \<and> cs_net st = s"
  using assms
proof (induction rule: cosim_run.induct)
  case cosim_start
  have "SetupRx (new_AxisBridge ops False) = new_AxisBridge ops True"
    by (simp add: SetupRx_def new_AxisBridge_def)
  then show ?case
    by (simp add: sc_main_setup_def run_start) (simp add: new_AxisBridge_def)
next
  case (cosim_sends ps ins outs st packet dest proto ok st')
  obtain br where send: "Send n ops packet dest proto (cs_bridge st) = (ok, br)"
    and st': "st' = st\<lparr>cs_bridge := if ok then tx_notify ops br else br\<rparr>"
    using cosim_sends.hyps(2) by (auto simp: cosim_send_def split: prod.splits)
  have push: "push_tx_packet ops (ns3_CopyData n packet (ns3_GetSize n packet)) (cs_bridge st) = (ok, br)"
    using send by (simp add: Send_def Let_def)
  show ?case
    using run_push [OF _ push] cosim_sends.IH Send_frame [OF send] by (simp add: st' del: if_split)
next
  case (cosim_clocks ps ins outs st)
  let ?out = "dut_drives dut st"
  have "cs_events (cosim_edge ops dut st) = rx_calls (cs_bridge (cosim_edge ops dut st))"
    using cosim_clocks.IH rx_calls_appended [of ops "s_axis_tready ?out" "bridge_ports ?out" "cs_bridge st"]
    by (simp add: cosim_edge_def Let_def dut_drives_def dut_sees_def)
  moreover have "cs_net (cosim_edge ops dut st) = s"
    using cosim_clocks.IH by (simp add: cosim_edge_def Let_def)
  moreover have run: "bridge_run ops (new_AxisBridge ops True) ps ins outs (cs_bridge st)" and ready: "s_tready (cs_bridge st)"
    using cosim_clocks.IH by simp_all
  note step = run_edge [OF run, of "s_axis_tready ?out" "bridge_ports ?out", folded cosim_edge_bridge]
  ultimately show ?case
    using step ready unfolding dut_sees_def port_beats by (simp add: cosim_edge_bridge s_tready_kept)
qed

section \<open>Progress\<close>

lemma cosim_run_edges:
  "cosim_run n ops dut st0 ps ins outs st \<Longrightarrow> \<exists>ins' outs'. cosim_run n ops dut st0 ps ins' outs' ((cosim_edge ops dut ^^ k) st)"
proof (induction k)
  case (Suc k)
  then show ?case
    by (auto intro: cosim_clocks)
qed auto

text \<open>Edges at which the device is ready are ready edges of the bridge.\<close>

lemma ready_edges_bridge:
  assumes "\<forall>j<k. s_axis_tready (dut_drives dut ((cosim_edge ops dut ^^ j) st))"
  shows "\<exists>is. length is = k \<and> cs_bridge ((cosim_edge ops dut ^^ k) st) = fold (bridge_edge ops True) is (cs_bridge st)"
  using assms
proof (induction k)
  case (Suc k)
  then obtain "is" where "length is = k" "cs_bridge ((cosim_edge ops dut ^^ k) st) = fold (bridge_edge ops True) is (cs_bridge st)"
    by auto
  then show ?case
    using Suc.prems [rule_format, of k]
    by (intro exI [of _ "is @ [bridge_ports (dut_drives dut ((cosim_edge ops dut ^^ k) st))]"])
      (simp add: cosim_edge_bridge)
qed simp

lemma cosim_drains:
  assumes "sc_fifo_laws ops capacity queued"
    and "cosim_run n ops dut (sc_main_setup n ops no_address a node d s) ps ins outs st"
    and "\<forall>j<k. s_axis_tready (dut_drives dut ((cosim_edge ops dut ^^ j) st))" and "tx_work queued (cs_bridge st) \<le> k"
  shows "pending_beats queued (cs_bridge ((cosim_edge ops dut ^^ k) st)) = [] \<and>
    tx_at (cs_bridge ((cosim_edge ops dut ^^ k) st)) = Tx_blocked"
proof -
  obtain "is" where "length is = k" "cs_bridge ((cosim_edge ops dut ^^ k) st) = fold (bridge_edge ops True) is (cs_bridge st)"
    using ready_edges_bridge [OF assms(3)] by blast
  then show ?thesis
    using axis_drains [OF assms(1) cosim_run_bridge [OF assms(2), THEN conjunct1], of "is"] assms(4) by simp
qed

section \<open>A device on which the properties are evaluated\<close>

text \<open>A queue of beats of any length that offers its oldest beat, and packets that are their bytes.\<close>

definition ex_dut :: "(u64 \<times> u8 \<times> bool) list VTsnEndpoint" where
  "ex_dut = \<lparr>dut_outputs = (\<lambda>q i. case q of
        [] \<Rightarrow> \<lparr>s_axis_tready = True, m_axis_tdata = 0, m_axis_tkeep = 0, m_axis_tvalid = False, m_axis_tlast = False\<rparr>
      | (x, k, l) # _ \<Rightarrow> \<lparr>s_axis_tready = True, m_axis_tdata = x, m_axis_tkeep = k, m_axis_tvalid = True, m_axis_tlast = l\<rparr>),
     dut_clock = (\<lambda>q i. (if m_axis_tready i then tl q else q) @
       (if s_axis_tvalid i then [(s_axis_tdata i, s_axis_tkeep i, s_axis_tlast i)] else []))\<rparr>"

definition ex_ns3 :: "(bytes, nat) ns3" where
  "ex_ns3 = \<lparr>ns3_GetSize = (\<lambda>p. of_nat (length p)), ns3_CopyData = (\<lambda>p sz. take (unat sz) p),
     ns3_CreatePacket = (\<lambda>bs sz. take (unat sz) bs), ns3_ConvertFrom = id, ns3_Broadcast = 255, ns3_Multicast = 0,
     ns3_Multicast6 = 0\<rparr>"

lemma ex_ns3_laws: "ns3_packet_laws ex_ns3"
  by (simp add: ns3_packet_laws_def ex_ns3_def unat_of_nat)

definition ex_cosim :: "(nat \<times> bytes list, (u64 \<times> u8 \<times> bool) list, bytes, nat, unit, bytes list) cosim" where
  "ex_cosim = sc_main_setup ex_ns3 ex_fifo 0 1 () [] []"

text \<open>The example after a packet of nine bytes, which takes two beats, was sent.\<close>

definition ex_sent :: "(nat \<times> bytes list, (u64 \<times> u8 \<times> bool) list, bytes, nat, unit, bytes list) cosim" where
  "ex_sent = snd (cosim_send ex_ns3 ex_fifo [1, 2, 3, 4, 5, 6, 7, 8, 9] 0 0 ex_cosim)"

lemma ex_sent_run: "cosim_run ex_ns3 ex_fifo ex_dut ex_cosim [[1, 2, 3, 4, 5, 6, 7, 8, 9]] [] [] ex_sent"
proof -
  have "fst (cosim_send ex_ns3 ex_fifo [1, 2, 3, 4, 5, 6, 7, 8, 9] 0 0 ex_cosim)"
    by (simp add: cosim_send_def Send_def push_tx_packet_def ex_cosim_def sc_main_setup_def SetupRx_def
        new_AxisBridge_def ex_fifo_def split_beta)
  then have "cosim_send ex_ns3 ex_fifo [1, 2, 3, 4, 5, 6, 7, 8, 9] 0 0 ex_cosim = (True, ex_sent)"
    by (simp add: ex_sent_def prod_eq_iff)
  from cosim_sends [OF cosim_start this] show ?thesis
    by (simp add: ex_ns3_def)
qed

lemma ex_dut_ready: "s_axis_tready (dut_drives ex_dut st)"
  by (simp add: dut_drives_def ex_dut_def split: list.split)

lemma ex_sent_work: "tx_work snd (cs_bridge ex_sent) \<le> 4"
  by code_simp

section \<open>Properties\<close>



text \<open>C16: The transmit path makes progress: from every reachable state, as many edges at which the device under test
  is ready as the transmit side has work (one per beat and one idle cycle per packet) bring the beats of
  all payloads \<^verbatim>\<open>Send\<close> accepted into the device, in order, and leave the bridge waiting for the next one.\<close>

theorem cosim_transmits_all:
  assumes "sc_fifo_laws ops capacity queued"
    and "cosim_run n ops dut (sc_main_setup n ops no_address a node d s) ps ins outs st"
    and "\<forall>j<k. s_axis_tready (dut_drives dut ((cosim_edge ops dut ^^ j) st))" and "tx_work queued (cs_bridge st) \<le> k"
  shows "\<exists>outs'. cosim_run n ops dut (sc_main_setup n ops no_address a node d s) ps
      (concat (map (\<lambda>p. beats_from p 0) ps)) outs' ((cosim_edge ops dut ^^ k) st) \<and>
    tx_at (cs_bridge ((cosim_edge ops dut ^^ k) st)) = Tx_blocked"
proof -
  obtain ins' outs' where run: "cosim_run n ops dut (sc_main_setup n ops no_address a node d s) ps ins' outs' ((cosim_edge ops dut ^^ k) st)"
    using cosim_run_edges [OF assms(2)] by blast
  have "ins' = concat (map (\<lambda>p. beats_from p 0) ps)"
    using bridge_run_sent [OF assms(1) cosim_run_bridge [OF run, THEN conjunct1]] cosim_drains [OF assms] by simp
  then show ?thesis
    using run cosim_drains [OF assms] by auto
qed

theorem cosim_transmits_all_witness:
  "\<exists>outs. cosim_run ex_ns3 ex_fifo ex_dut ex_cosim [[1, 2, 3, 4, 5, 6, 7, 8, 9]]
     (beats_from [1, 2, 3, 4, 5, 6, 7, 8, 9] 0) outs ((cosim_edge ex_fifo ex_dut ^^ 4) ex_sent)"
  using cosim_transmits_all [OF ex_fifo_laws ex_sent_run [unfolded ex_cosim_def] _ ex_sent_work] ex_dut_ready
  by (auto simp: ex_cosim_def)

end
