(* ===== verification/Spec2Isabelle.thy ===== *)
theory Spec2Isabelle
  imports Capture_Run Stack_File_Run Protocol_Documents Validated_Stack Error_Reports Usage Scoped_Fd Frame_Repacking Json_Reader Cosim
begin

text \<open>
  A verification development of tsn-gen, a generator and decoder of IEEE 1722.1 / TSN test traffic
  driven by YAML protocol descriptions. All paths below are relative to src/.

  \<^bold>\<open>The program.\<close> A protocol parser reads a directory of YAML files into three name databases
  (variables, interfaces, services). A packet builder draws a value for every variable of an
  interface under the variable's constraints and packs the values bit by bit, most significant bit
  first; a packet decoder reads them back. A session puts these together: single packets,
  command/response chains in which a stage takes over the fields of the stage before, frames
  stacked from several layers, and stacks bound to logic modules that compute fields such as
  lengths from the layers around them. Frames leave and enter through three transports (raw socket,
  capture file, a socket to a Verilator model carrying AXI-Stream beats), driven by a traffic
  generator or by the command line tool \<^verbatim>\<open>packet_gen\<close>. A validator checks the YAML files
  without loading them. In the co-simulation a SystemC bridge carries the packets between ns-3 and the
  RTL model; \<^verbatim>\<open>sc_main\<close> wires bridge, model and net device together.

  \<^bold>\<open>The theories,\<close> in the order of the code's layers:
  \<^item> \<open>TSN_Prelude\<close>: word and list lemmas, the collections, the type \<open>run\<close> of a C++
    call (returns, throws, undefined behaviour); \<open>Cpp_Strings\<close>, \<open>Cpp_Numbers\<close>: the parts
    of std::string, strtoull, stoull, stoll and to_string the sources use.
  \<^item> \<open>Error_Codes\<close>: parser/inc/tsn/error.h and the codes of all error classes.
    \<open>Diagnostics\<close>: log.h, log.cpp and version.h.
  \<^item> \<open>Name_Database\<close>: parser/inc/tsn/database.h and .cpp; the locale \<open>name_store\<close> is the
    contract of a store of named definitions.
  \<^item> \<open>Protocol_Model\<close>: var.h, protocol_interface.h, service.h, entity.h.
  \<^item> \<open>Bit_Packing\<close>: appendBits and extractBits; the locales \<open>field_codec\<close> and
    \<open>framed_codec\<close> are the contract a field codec has to meet for whole layouts to round-trip.
    \<open>Packet_Builder\<close>, \<open>Packet_Decoder\<close>: traffic-gen/src/packet_builder.cpp,
    packet_decoder.cpp.
  \<^item> \<open>Layer_Context\<close>, \<open>Logic_Module\<close>: layer_context.h, logic_registry.cpp and logic/src/; the
    locale \<open>layer_logic\<close> is what the stack runtime needs of a module.
  \<^item> \<open>Yaml_Api\<close>: rapidyaml, open/lseek/mmap and std::filesystem as parameters, with an executable
    instance for examples. \<open>Stack_Builder\<close>, \<open>Protocol_Parser\<close>, \<open>Validator\<close>:
    stack_builder.cpp and stack.cpp, protocol.cpp and protocol_parser.cpp, validator.cpp.
    \<open>Protocol_Documents\<close>: what a directory of documents denotes, as maps from names to definitions;
    \<open>Scoped_Fd\<close>: utils.h and the system calls the two readers make.
  \<^item> \<open>Session\<close>, \<open>Session_Format\<close>: session.cpp, with the hexadecimal and JSON formats;
    \<open>Json_Reader\<close>: a reader for the JSON lines, the other end of the documented format;
    \<open>Example_Protocols\<close>: a small protocol set for examples; \<open>Frame_Repacking\<close>: packing the
    contexts a decoded frame leaves in a stack.
  \<^item> \<open>Posix_Io\<close>: the system calls as parameters (\<open>sys\<close>), their documented behaviour
    (\<open>posix_write\<close>, \<open>posix_read\<close>) and the full-read and full-write loops.
    \<open>Axi_Stream\<close>: axi_stream_beat.h and the framing loops. \<open>Senders\<close>, \<open>Receivers\<close>: the
    six transports; the locales \<open>packet_sender\<close> and \<open>packet_receiver\<close> are the contracts of
    ISender and IReceiver, interpreted for each transport.
  \<^item> \<open>Traffic_Generator\<close>: traffic_generator.cpp, proved over \<open>packet_sender\<close>.
  \<^item> \<open>Command_Line\<close>, \<open>Usage\<close>, \<open>Packet_Gen\<close>: traffic-gen/tools/packet_gen_main.cpp, argument
    parsing, the usage screen and every mode of \<^verbatim>\<open>main\<close>; \<open>Capture_Run\<close>: two runs of the tool
    that share a capture file; \<open>Stack_File_Run\<close>: two runs of the same stack file; \<open>Validated_Run\<close>, \<open>Validated_Stack\<close>: a run on a directory and of a stack
    file \<^verbatim>\<open>--validate\<close> accepted;
    \<open>Error_Reports\<close>: the error objects all components hand out.
  \<^item> \<open>Axis_Bridge\<close>, \<open>Net_Device\<close>, \<open>Cosim\<close>: sim/src/axis_bridge.cpp, verilator_net_device.cpp
    and the netlist of sim/sc_main.cpp with the clock all its parts share, for any device under test.
  \<^item> This theory: the properties that span several components.

  \<^bold>\<open>How the code is modelled.\<close> Structs and classes are records, enums datatypes; integers
  keep their width as words where they can wrap, sizes of containers are \<open>nat\<close>. State is passed
  explicitly and returned; pointers between the layers of a stack are indices into the list of
  contexts. Error codes are the integers of the sources. A loop that may not end is a
  \<^theory_text>\<open>partial_function\<close> into option, \<open>None\<close> meaning that it does not return; theorems that it
  returns are stated as such. The directory walk has fuel \<open>walk_fuel\<close> = 17, one more than the maximal
  depth the code counts, and never runs out of it (\<open>parser_walk_terminates\<close>). Code outside the
  repository is a parameter: rapidyaml, POSIX, the file system, the random distribution, SystemC's FIFO,
  ns-3 and the RTL model; what is relied on is a named predicate (\<open>uniform_dist\<close>, \<open>posix_write\<close>,
  \<open>posix_read\<close>, \<open>only_interrupts\<close>, \<open>ryml_node_laws\<close>, \<open>sc_fifo_laws\<close>,
  \<open>ns3_packet_laws\<close>, \<open>same_files\<close>, \<open>recursive_listing\<close>), for which an instance is given; of the RTL model nothing is
  assumed. Error objects hold their messages by reference, so they have addresses and a store of the vectors that are alive.

  \<^bold>\<open>What is shown.\<close> Bit packing refines appending to a bit stream, and decoding is its inverse, from
  single fields over packets and stacked frames to the hexadecimal and JSON lines of the tool, to
  capture files that one run writes and another decodes, and to AXI-Stream beats through the bridge and
  both data paths of the co-simulation. A decoder accepts any bytes and returns fields within their widths. Drawn values respect their constraints,
  also when fields are propagated along a chain. The modules never change the layout of a layer, end, and the AECP
  length counts the octets that really follow. The parser refines the map of first definitions its documents denote.
  Parser, stack builder and validator keep their databases and reports consistent, end, agree on what a valid file is (a directory the validator accepts is
  fit for a run, and a stack file it accepts is refused by the builder only for an unknown service or module), and leave no descriptor open. Senders, receivers and the
  generator keep to their lifecycle (a generator whose re-opening failed is the one exception); counted runs send, print and return as documented; runs with a seed
  are reproducible; exit codes mean what they say, every reported error has a message as long as the object it was reported in is alive, and the usage screen documents the options there are.

  Where the documentation and the code differ, the properties state what both agree on: a propagated value for a field with a
  range, \<^verbatim>\<open>.yml\<close> files, and white space or signs in hexadecimal text are left open.

  \<^bold>\<open>Not modelled.\<close> The error callback of rapidyaml on a text that is not YAML; the behaviour at a field width of exactly
  \<open>2 ^ 31\<close>, where a loop bound overflows; the delta cycles of SystemC; the texts of diagnostics on stderr other than the usage screen; the explicit
  template instantiations of the database (the model is polymorphic); the registration of the net device
  with the ns-3 object system; the traffic generator of sim/sc_main.cpp, which uses a constructor and a
  function that do not exist, the execution of ns-3 events, which sc_main never starts, and simulated time beyond the order of clock edges; tests, GUI,
  HDL interfaces and the YAML corpus.
\<close>

section \<open>Frames: generation and decoding are inverse\<close>

text \<open>C1: A frame stacked from several interfaces decodes, through the same interfaces, to exactly the
  packet that was generated: the same bytes, the same layer slices, the same field values. The
  hypotheses are what the standard promises of the random distribution and that no variable
  admits a value its width cannot hold.\<close>

theorem stacked_frame_round_trip:
  assumes "uniform_dist dist" and "sane_widths (varDatabase s)" and "consistent_db (varDatabase s)"
  shows "decodeStack_ifaces s layers (sp_bytes (fst (generateStack_ifaces dist s layers)))
    = fst (generateStack_ifaces dist s layers)"
  by (rule generateStack_ifaces_decodes [OF assms])

theorem stacked_frame_round_trip_witness:
  "decodeStack_ifaces ex_session [ex_eth, ex_avtp, ex_aecp]
     (sp_bytes (fst (generateStack_ifaces ex_dist ex_session [ex_eth, ex_avtp, ex_aecp])))
   = fst (generateStack_ifaces ex_dist ex_session [ex_eth, ex_avtp, ex_aecp])"
  by (rule stacked_frame_round_trip)
    (simp_all add: ex_dist_uniform ex_varDatabase ex_sane ex_consistent)

text \<open>C2: A frame generated through the logic modules of a wired stack decodes, through the same
  stack, to the same layers: every slice is the bytes the layer was packed into, and every field
  has the value the modules left in its context, cut to the field's width. Each layer needs an
  interface whose short names are distinct, because widths are looked up by short name.\<close>

theorem logic_stack_round_trip:
  assumes "wired (contexts (mLayers stack))" and "sane_widths (varDatabase s)"
    and "list_all (\<lambda>l. \<exists>iface. interfaceForLayer s l = Some iface \<and> distinct_short_names iface) (mLayers stack)"
    and "generateStack dist s stack = Some (pkt, stack', s')"
  shows "sp_layers pkt = map (\<lambda>l. (serviceName l, pack_layer l)) (mLayers stack') \<and>
    fst (decodeStack s' stack' (sp_bytes pkt)) =
      \<lparr>sp_bytes = sp_bytes pkt, sp_layers = map (\<lambda>l. (serviceName l, truncated_layer l)) (mLayers stack')\<rparr>"
  using generateStack_decodes [OF assms] generateStack_result [OF assms(1,4)] by simp

lemma ex_layers_resolve:
  "list_all (\<lambda>l. \<exists>iface. interfaceForLayer ex_session l = Some iface \<and> distinct_short_names iface) (mLayers ex_stack)"
proof -
  have d: "distinct_short_names ex_eth" "distinct_short_names ex_avtp" "distinct_short_names ex_aecp"
    by code_simp+
  have "list_all (\<lambda>x. \<exists>iface. x = Some iface \<and> distinct_short_names iface)
      (map (interfaceForLayer ex_session) (mLayers ex_stack))"
    unfolding ex_stack_layers(3) using d by simp
  then show ?thesis
    by (simp add: list.pred_map comp_def)
qed

theorem logic_stack_round_trip_witness:
  "\<exists>pkt stack' s'. generateStack ex_dist ex_session ex_stack = Some (pkt, stack', s') \<and>
     fst (decodeStack s' stack' (sp_bytes pkt)) =
      \<lparr>sp_bytes = sp_bytes pkt, sp_layers = map (\<lambda>l. (serviceName l, truncated_layer l)) (mLayers stack')\<rparr>"
proof -
  obtain pkt stack' s' where g: "generateStack ex_dist ex_session ex_stack = Some (pkt, stack', s')"
    using generateStack_wired [OF ex_stack_wired, of ex_dist ex_session] by blast
  then show ?thesis
    using logic_stack_round_trip [OF ex_stack_wired _ ex_layers_resolve g]
    by (simp add: ex_varDatabase ex_sane)
qed

text \<open>
  The octets that follow a field in a frame, counted on the frame: the bytes the later fields of its layer
  occupy, and the slices of the layers above.
\<close>

definition octets_following :: "Field list \<Rightarrow> Layer list \<Rightarrow> nat" where
  "octets_following after higher =
     (sum_list (map (unat \<circ> fld_bits) after) + 7) div 8 + sum_list (map (length \<circ> bp_bytes \<circ> snd) higher)"

text \<open>The bit of the frame at which a field ends.\<close>

definition field_end :: "Layer list \<Rightarrow> Field list \<Rightarrow> nat" where
  "field_end beneath fs = 8 * sum_list (map (length \<circ> bp_bytes \<circ> snd) beneath) + sum_list (map (unat \<circ> fld_bits) fs)"

text \<open>When the field ends on a byte boundary these are all octets of the frame after it.\<close>

lemma octets_following_frame:
  assumes "wired (contexts (mLayers stack))" and "sane_widths (varDatabase s)"
    and "list_all (\<lambda>l. \<exists>iface. interfaceForLayer s l = Some iface \<and> distinct_short_names iface) (mLayers stack)"
    and "generateStack dist s stack = Some (pkt, stack', s')" and "i < length (mLayers stack)"
    and "mFields (sl_context (mLayers stack' ! i)) = before @ f # after"
    and "8 dvd field_end (take i (sp_layers pkt)) (before @ [f])"
  shows "octets_following after (drop (Suc i) (sp_layers pkt)) =
    length (sp_bytes pkt) - field_end (take i (sp_layers pkt)) (before @ [f]) div 8"
proof -
  let ?len = "length \<circ> bp_bytes \<circ> snd"
  note res = generateStack_result [OF assms(1,4)] and layer = generated_layer_fields [OF assms(1-5)]
  have slice: "?len (sp_layers pkt ! i) = ceil8 (sum_list (map (unat \<circ> fld_bits) (before @ f # after)))"
    using pack_layer_length [OF layer(2)] layer(3) by (simp add: res(2) byteSize_eq assms(6))
  obtain k where k: "sum_list (map (unat \<circ> fld_bits) (before @ [f])) = 8 * k"
    using assms(7) unfolding field_end_def by (metis dvd_add_right_iff dvd_triv_left dvdE)
  have "length (sp_bytes pkt) = sum_list (map ?len (sp_layers pkt))"
    by (simp add: res length_concat comp_def)
  also have "\<dots> = sum_list (map ?len (take i (sp_layers pkt))) + ?len (sp_layers pkt ! i) + sum_list (map ?len (drop (Suc i) (sp_layers pkt)))"
    using layer(3) by (subst id_take_nth_drop [of i "sp_layers pkt"]) (simp_all add: res(2))
  also have "?len (sp_layers pkt ! i) = k + ceil8 (sum_list (map (unat \<circ> fld_bits) after))"
    using k ceil8_add_mult8 [of k "sum_list (map (unat \<circ> fld_bits) after)"] slice by (simp flip: add.assoc)
  finally show ?thesis
    by (simp add: octets_following_def field_end_def k [unfolded comp_def] ceil8_def comp_def del: map_append sum_list_append)
qed

text \<open>C3: In a generated frame the \<^verbatim>\<open>control_data_length\<close> of an AECP layer, as it is read from the bytes of the
  frame, is the number of octets that follow the field, cut to the width of the field: the bytes of the later fields of
  its own layer and the lengths of the slices of all layers above. When the field ends on a byte boundary,
  these are all the octets of the frame after it.\<close>

theorem aecp_length_counts_octets:
  assumes "wired (contexts (mLayers stack))" and "sane_widths (varDatabase s)"
    and "list_all (sane_context \<circ> sl_context) (mLayers stack)"
    and "list_all (\<lambda>l. \<exists>iface. interfaceForLayer s l = Some iface \<and> distinct_short_names iface) (mLayers stack)"
    and "generateStack dist s stack = Some (pkt, stack', s')"
    and "i < length (mLayers stack)" and "sl_logic (mLayers stack ! i) = AecpAemLogic c"
    and "mFields (sl_context (mLayers stack' ! i)) = before @ f # after" and "fld_name f = ''control_data_length''"
  shows "bp_fields (snd (sp_layers (fst (decodeStack s' stack' (sp_bytes pkt))) ! i)) ! length before =
      (''control_data_length'',
       take_bit (unat (fld_bits f)) (of_nat (octets_following after (drop (Suc i) (sp_layers pkt))))) \<and>
    (8 dvd field_end (take i (sp_layers pkt)) (before @ [f]) \<longrightarrow>
      octets_following after (drop (Suc i) (sp_layers pkt)) =
        length (sp_bytes pkt) - field_end (take i (sp_layers pkt)) (before @ [f]) div 8)"
proof -
  note layer = generated_layer_fields [OF assms(1,2,4,5,6)]
  have "''control_data_length'' \<in> set (field_names (sl_context (mLayers stack' ! i)))"
    using assms(8,9) by (simp add: field_names_def)
  note len = generateStack_aecp_length [OF assms(1-3,5-7) this]
  have "fld_name f \<notin> fld_name ` set before"
    using layer(1) by (simp add: assms(8))
  note split = field_split [OF assms(8) this, unfolded assms(9)]
  have stored: "fld_value f = of_nat (octets_following after (drop (Suc i) (sp_layers pkt)))"
    using len split by (simp add: octets_following_def ceil8_def)
  have "loopCount (fld_bits f) = unat (fld_bits f)"
    using layer(2) assms(8) by (simp add: loopCount_unat sane_context_unat)
  then have "bp_fields (snd (sp_layers (fst (decodeStack s' stack' (sp_bytes pkt))) ! i)) ! length before =
      (''control_data_length'', take_bit (unat (fld_bits f)) (fld_value f))"
    using layer(3) assms(8,9) by (simp add: generateStack_decodes [OF assms(1,2,4,5)] truncated_layer_def nth_append)
  then show ?thesis
    using octets_following_frame [OF assms(1,2,4-6,8)] by (simp add: stored)
qed

text \<open>In the example the field is 11 bits wide, and a field of 12 bits follows it in the topmost layer: two octets.\<close>

theorem aecp_length_counts_octets_witness:
  "\<exists>pkt stack' s'. generateStack ex_dist ex_session ex_stack = Some (pkt, stack', s') \<and>
     bp_fields (snd (sp_layers (fst (decodeStack s' stack' (sp_bytes pkt))) ! 2)) ! 2 = (''control_data_length'', 2)"
proof -
  obtain pkt stack' s' where g: "generateStack ex_dist ex_session ex_stack = Some (pkt, stack', s')"
    using generateStack_wired [OF ex_stack_wired, of ex_dist ex_session] by blast
  have len: "length (mLayers ex_stack) = 3"
    using arg_cong [OF ex_stack_layers(1), of length] by simp
  have iface: "interfaceForLayer ex_session (mLayers ex_stack ! 2) = Some ex_aecp"
    and logic: "sl_logic (mLayers ex_stack ! 2) = AecpAemLogic 0"
    using arg_cong [OF ex_stack_layers(3), of "\<lambda>x. x ! 2"] arg_cong [OF ex_stack_layers(2), of "\<lambda>x. x ! 2"]
    by (simp_all add: len)
  have "length (mLayers stack') = 3" "agrees (varDatabase ex_session) ex_aecp (sl_context (mLayers stack' ! 2))"
    using generateStack_agrees [OF ex_stack_wired ex_layers_resolve g] iface
      generateStack_agrees [OF ex_stack_wired ex_layers_resolve g, THEN conjunct2, rule_format, of 2] unfolding len by simp_all
  moreover have "map (\<lambda>f. (fst f, getSize (snd f))) (layout ex_vars (mVarRefs ex_aecp)) =
      [(''message_type'', 4), (''status'', 5), (''control_data_length'', 11), (''target'', 12)]"
    by code_simp
  ultimately obtain f0 f1 f2 f3 where fields: "mFields (sl_context (mLayers stack' ! 2)) = [f0, f1] @ f2 # [f3]"
      "fld_name f2 = ''control_data_length''" "fld_bits f2 = 11" "fld_bits f3 = 12"
    by (auto simp: agrees_def ex_varDatabase map_eq_Cons_conv)
  have top: "drop (Suc 2) (sp_layers pkt) = []"
    using generateStack_result(2) [OF ex_stack_wired g] \<open>length (mLayers stack') = 3\<close> by simp
  have "bp_fields (snd (sp_layers (fst (decodeStack s' stack' (sp_bytes pkt))) ! 2)) ! length [f0, f1] =
      (''control_data_length'', take_bit (unat (fld_bits f2)) (of_nat (octets_following [f3] (drop (Suc 2) (sp_layers pkt)))))"
    by (rule aecp_length_counts_octets [OF ex_stack_wired _ ex_stack_sane ex_layers_resolve g _ logic fields(1,2), THEN conjunct1])
      (simp_all add: ex_varDatabase ex_sane len)
  also have "octets_following [f3] (drop (Suc 2) (sp_layers pkt)) = 2"
    unfolding top by (simp add: octets_following_def fields(4))
  also have "take_bit (unat (fld_bits f2)) (of_nat 2) = (2 :: u64)"
    by (simp add: fields(3) take_bit_eq_mod)
  finally show ?thesis
    using g by (auto simp: numeral_2_eq_2)
qed

section \<open>Chains and loaded stacks\<close>

text \<open>C19: A stack that \<^verbatim>\<open>loadStack\<close> reports as built always generates a frame: the modules all
  return, the frame is the concatenation of the layer slices, bottom-up, one slice per layer of
  the stack under its service name.\<close>

theorem loaded_stack_generates:
  assumes "loadStack px ry reg s path = (c, Some stack)"
  shows "\<exists>pkt stack' s'. generateStack dist s stack = Some (pkt, stack', s') \<and>
    sp_bytes pkt = concat (map (bp_bytes \<circ> snd) (sp_layers pkt)) \<and>
    map fst (sp_layers pkt) = map serviceName (mLayers stack)"
proof -
  note w = loadStack_success(2) [OF assms]
  obtain ls b ls' where frame: "list_all2 same_frame (mLayers stack) ls" and len: "length ls' = length ls"
    and each: "\<forall>i<length ls. onEncode (sl_logic (ls ! i)) (contexts ls) (sl_context (ls ! i))
          = Some (sl_logic (ls' ! i), sl_context (ls' ! i)) \<and>
        ctx_shape (sl_context (ls' ! i)) = ctx_shape (sl_context (ls ! i)) \<and>
        layer_key (ls' ! i) = layer_key (ls ! i)"
    and gen: "generateStack dist s stack =
      Some (\<lparr>sp_bytes = concat (map (bp_bytes \<circ> pack_layer) ls'),
             sp_layers = map (\<lambda>l. (serviceName l, pack_layer l)) ls'\<rparr>,
            stack\<lparr>mLayers := ls'\<rparr>, s\<lparr>mBuilder := b\<rparr>)"
    using generateStack_wired [OF w, of dist s] by blast
  have "serviceName (ls' ! i) = serviceName (mLayers stack ! i)" if "i < length (mLayers stack)" for i
    using each [rule_format, of i] that list_all2_lengthD [OF frame]
      same_frameD(1) [OF list_all2_nthD [OF frame that]] by (simp add: layer_key_def)
  then have "map serviceName ls' = map serviceName (mLayers stack)"
    using len list_all2_lengthD [OF frame] by (intro nth_equalityI) simp_all
  with gen show ?thesis
    by (simp add: comp_def)
qed

theorem loaded_stack_generates_witness:
  "loadStack ex_files ex_ryml shipped_registry ex_session ''s.yaml'' = (STACK_SUCCESS, Some ex_stack) \<and>
   generateStack ex_dist ex_session ex_stack \<noteq> None"
  using loaded_stack_generates [OF ex_stack_loaded, of ex_dist] ex_stack_loaded by auto

text \<open>C9: In a command/response chain the round has one packet per stage, in order, and stage
  \<open>k + 1\<close> takes over the fields of stage \<open>k\<close>: a field without expected values and without a range that has
  the name of a field of the stage before carries that field's value (the last one of that name,
  under the mask of the receiving field); a field with expected values keeps to them, and a field the stage before
  does not have is drawn within its own constraints.\<close>

theorem chain_propagates_fields:
  assumes "uniform_dist dist" and "Suc k < length stages"
  shows "length (fst (generateChain dist s stages)) = length stages \<and>
    (\<exists>vs. fst (fst (generateChain dist s stages) ! Suc k) = mInterfaceName (stages ! Suc k) \<and>
      bp_fields (snd (fst (generateChain dist s stages) ! Suc k)) =
        zip (map fst (layout (varDatabase s) (mVarRefs (stages ! Suc k)))) vs \<and>
      list_all2 (promised_value (map_of (rev (bp_fields (snd (fst (generateChain dist s stages) ! k))))))
        (layout (varDatabase s) (mVarRefs (stages ! Suc k))) vs)"
proof -
  note c = generateChain_chained [of dist s stages]
  obtain b where b: "fst (generateChain dist s stages) ! Suc k = (mInterfaceName (stages ! Suc k),
      fst (buildWithOverrides dist b (stages ! Suc k) (varDatabase s)
        (map_of (rev (bp_fields (snd (fst (generateChain dist s stages) ! k)))))))"
    using chained_nth [OF c assms(2)] by auto
  show ?thesis
    using buildWithOverrides_promised [OF assms(1), of b "stages ! Suc k" "varDatabase s"
        "map_of (rev (bp_fields (snd (fst (generateChain dist s stages) ! k))))"] chained_length [OF c]
    by (simp add: b)
qed

text \<open>Two stages of the same interface agree in all fields but the one with an expected value, which is drawn anew.\<close>

theorem chain_propagates_fields_witness:
  "\<exists>m m' v c w. bp_fields (snd (fst (generateChain ex_dist ex_session [ex_aecp, ex_aecp]) ! 0)) =
       [(''message_type'', m), (''status'', v), (''control_data_length'', c), (''target'', w)] \<and>
     bp_fields (snd (fst (generateChain ex_dist ex_session [ex_aecp, ex_aecp]) ! 1)) =
       [(''message_type'', m'), (''status'', v), (''control_data_length'', c), (''target'', w)]"
proof -
  have layout: "layout ex_vars (mVarRefs ex_aecp) =
      [(''message_type'', snd (ex_var ''atdecc_aecp::message_type'' 4 [0])), (''status'', snd (ex_var ''atdecc_aecp::status'' 5 [])),
       (''control_data_length'', snd (ex_var ''atdecc_aecp::control_data_length'' 11 [])),
       (''target'', snd (ex_var ''atdecc_aecp::target'' 12 []))]"
    by code_simp
  obtain b where "fst (generateChain ex_dist ex_session [ex_aecp, ex_aecp]) ! 0 =
      (mInterfaceName ex_aecp, fst (buildWithOverrides ex_dist b ex_aecp ex_vars Map.empty))"
    using chained_nth [OF generateChain_chained [of ex_dist ex_session "[ex_aecp, ex_aecp]"], of 0] by (auto simp: ex_varDatabase)
  then obtain m v c w where first: "bp_fields (snd (fst (generateChain ex_dist ex_session [ex_aecp, ex_aecp]) ! 0)) =
      [(''message_type'', m), (''status'', v), (''control_data_length'', c), (''target'', w)]"
    using buildWithOverrides_promised [OF ex_dist_uniform, of b ex_aecp ex_vars Map.empty] unfolding layout
    by (auto simp: list_all2_Cons1)
  show ?thesis
    using chain_propagates_fields [OF ex_dist_uniform, of 0 "[ex_aecp, ex_aecp]" ex_session] first
    unfolding ex_varDatabase layout nth_Cons_0 nth_Cons_Suc
    by (auto simp: layout list_all2_Cons1 promised_value_def ex_var_def)
qed

section \<open>From generation to capture file and back\<close>

text \<open>C13: A counted run of a generator that writes to a capture file produces a file that
  \<^verbatim>\<open>PcapReceiver\<close> replays as exactly the packets that were built, in order, followed by the
  end of the file. The file is new when it is opened, the clock call does not write to it, and
  every packet is shorter than the 32-bit length of its record.\<close>

theorem generated_capture_replays:
  fixes tg :: "('w PcapSender, 'g) TrafficGenerator"
  assumes "posix_write sys out intr" and "posix_read sys src intr" and "only_interrupts sys"
    and "sys_open_write sys (c_str (pcs_mFilePath (tg_mSender tg))) (pcs_world (tg_mSender tg)) = (fd, w)" and "out fd w = []"
    and "\<And>w. out fd (snd (sys_clock sys w)) = out fd w"
    and "TrafficGenerator_open (PcapSender_ops sys) tg = Some (TGEN_SUCCESS, tg1)"
    and "getElement (dbIfproto (mDbs (tg_mParser tg))) name = Some iface" and "count \<noteq> 0"
    and "sendLoop (PcapSender_ops sys) dist name count tg1 = Some (TGEN_SUCCESS, tg2)"
    and "sys_open_read sys (c_str (pcr_mFilePath r)) (pcr_world r) = (fd', w')" and "0 \<le> fd'" and "\<not> pcr_mSwap r"
    and "src fd' w' = out fd (pcs_world (tg_mSender tg2))"
    and "pkts = filter (\<lambda>p. p \<noteq> []) (built_packets dist iface (dbVars (mDbs (tg_mParser tg))) (unat count) (tg_mBuilder tg))"
    and "list_all (\<lambda>p. length p < 2 ^ 32) pkts"
  shows "\<exists>r1 r2. PcapReceiver_open sys r = Some (RECEIVER_SUCCESS, r1) \<and>
    pcap_receiver.receive_each sys (length pkts) [] r1 = Some (map (\<lambda>p. (RECEIVER_SUCCESS, p)) pkts, r2) \<and>
    (\<forall>old. \<exists>r3. PcapReceiver_receive sys old r2 = Some (RECEIVER_ERR_EOF, old, r3))"
proof -
  note opened = open_pcap_writes [OF assms(1,7,4)]
  have "sendLoop (PcapSender_ops sys) dist name count tg1 = send_times (PcapSender_ops sys) dist iface (unat count) tg1"
    using opened assms(8,9) by (simp add: sendLoop_def sendLoop_loop_times [of 0 count, simplified])
  then obtain rs where rs: "map record_packet rs = pkts"
      "out fd (pcs_world (tg_mSender tg2)) = PcapGlobalHeader @ concat (map (capture_record False) rs)"
    using send_times_pcap [OF assms(1,6), of tg1 dist iface "unat count"] opened assms(5,10,15) by auto
  have contents: "src fd' w' = capture_file False (drop 4 PcapGlobalHeader) rs"
    using rs(2) assms(14) by (simp add: global_header_capture)
  obtain r1 where r1: "PcapReceiver_open sys r = Some (RECEIVER_SUCCESS, r1)" "pcr_mFd r1 = fd'" "\<not> pcr_mSwap r1"
      "src fd' (pcr_world r1) = concat (map (capture_record False) rs)"
    using PcapReceiver_open_capture [OF assms(2,3,11,12) contents _ assms(13)] by (auto simp: PcapGlobalHeader_def)
  have "list_all (\<lambda>r. length (record_packet r) < 2 ^ 32) rs"
    using assms(16) unfolding rs(1) [symmetric] by (simp add: list.pred_map comp_def)
  then show ?thesis
    using pcap_receive_all [OF assms(2,3), of r1 rs "[]"] r1 assms(12)
    by (auto simp: rs(1) [symmetric] comp_def)
qed


text \<open>A generator with one interface of one constant byte, sending two packets.\<close>

definition ex_byte_iface :: ProtocolInterface where
  "ex_byte_iface = ex_iface ''i'' [''x'']"

definition ex_byte_vars :: "Var Database" where
  "ex_byte_vars = \<lparr>internalMaps = [ex_var ''x'' 8 [7]]\<rparr>"

definition ex_byte_parser :: ProtocolParser where
  "ex_byte_parser = (new_parser ''p'')\<lparr>mDbs := \<lparr>dbVars = ex_byte_vars,
     dbIfproto = \<lparr>internalMaps = [(''i'', ex_byte_iface)]\<rparr>, dbServices = empty_db\<rparr>\<rparr>"

definition ex_capture :: "nat \<Rightarrow> ex_world PcapSender" where
  "ex_capture n = \<lparr>pcs_mFilePath = ''f'', pcs_mFd = 5, pcs_world = ([], PcapGlobalHeader @
     concat (replicate n (PcapPacketHeader 1700000000 5 1 1 @ [7])), 0)\<rparr>"

definition ex_generator :: "(ex_world PcapSender, nat) TrafficGenerator" where
  "ex_generator = new_TrafficGenerator ex_byte_parser
     \<lparr>pcs_mFilePath = ''f'', pcs_mFd = - 1, pcs_world = ([], [], 0)\<rparr> \<lparr>mRng = 0\<rparr>"

definition ex_running :: "nat \<Rightarrow> (ex_world PcapSender, nat) TrafficGenerator" where
  "ex_running n = \<lparr>tg_mParser = ex_byte_parser, tg_mSender = ex_capture n, tg_mBuilder = \<lparr>mRng = n\<rparr>, tg_mOpen = True\<rparr>"

lemma ex_byte_build: "build ex_dist b ex_byte_iface ex_byte_vars = ([7], b\<lparr>mRng := Suc (mRng b)\<rparr>)"
proof -
  have "appendBits [] 0 7 8 = ([7], 8)"
    by code_simp
  then show ?thesis
    by (simp add: build_def buildWithFields_def ex_byte_iface_def ex_iface_def ex_byte_vars_def getElement_def
        ex_var_def getSize_def pickValue_def Let_def getExpectedValues_def ex_dist_def empty_packet_def)
qed

lemma ex_capture_open:
  "PcapSender_open ex_sys \<lparr>pcs_mFilePath = ''f'', pcs_mFd = - 1, pcs_world = ([], [], 0)\<rparr> = Some (SENDER_SUCCESS, ex_capture 0)"
  "PcapSender_send ex_sys [7] (ex_capture 0) = Some (SENDER_SUCCESS, ex_capture 1)"
  "PcapSender_send ex_sys [7] (ex_capture 1) = Some (SENDER_SUCCESS, ex_capture 2)"
  by code_simp+


lemma ex_generator_runs:
  "TrafficGenerator_open (PcapSender_ops ex_sys) ex_generator = Some (TGEN_SUCCESS, ex_running 0)"
  "sendOne (PcapSender_ops ex_sys) ex_dist ex_byte_iface (ex_running 0) = Some (TGEN_SUCCESS, ex_running 1)"
  "sendOne (PcapSender_ops ex_sys) ex_dist ex_byte_iface (ex_running 1) = Some (TGEN_SUCCESS, ex_running 2)"
  by (simp_all add: TrafficGenerator_open_def sendOne_def ex_generator_def new_TrafficGenerator_def ex_running_def
      PcapSender_ops_def ex_capture_open ex_capture_open [simplified] ex_byte_parser_def ex_byte_build)

lemma ex_generator_loop:
  "sendLoop (PcapSender_ops ex_sys) ex_dist ''i'' 2 (ex_running 0) = Some (TGEN_SUCCESS, ex_running 2)"
  "getElement (dbIfproto (mDbs (tg_mParser ex_generator))) ''i'' = Some ex_byte_iface"
  "filter (\<lambda>p. p \<noteq> []) (built_packets ex_dist ex_byte_iface (dbVars (mDbs (tg_mParser ex_generator))) (unat (2 :: u64))
     (tg_mBuilder ex_generator)) = [[7], [7]]"
proof -
  show "getElement (dbIfproto (mDbs (tg_mParser ex_generator))) ''i'' = Some ex_byte_iface"
    by (simp add: ex_generator_def new_TrafficGenerator_def ex_byte_parser_def getElement_def)
  show "sendLoop (PcapSender_ops ex_sys) ex_dist ''i'' 2 (ex_running 0) = Some (TGEN_SUCCESS, ex_running 2)"
    using ex_generator_runs(2,3)
    by (simp add: sendLoop_def ex_running_def ex_byte_parser_def getElement_def sendLoop_loop.simps tgen_codes)
  have "unat (2 :: u64) = Suc (Suc 0)"
    by simp
  then show "filter (\<lambda>p. p \<noteq> []) (built_packets ex_dist ex_byte_iface (dbVars (mDbs (tg_mParser ex_generator))) (unat (2 :: u64))
     (tg_mBuilder ex_generator)) = [[7], [7]]"
    by (simp only: built_packets.simps) (simp add: ex_generator_def new_TrafficGenerator_def ex_byte_parser_def ex_byte_build)
qed

theorem generated_capture_replays_witness:
  "\<exists>r1 r2. PcapReceiver_open ex_sys \<lparr>pcr_mFilePath = ''f'', pcr_mFd = - 1, pcr_mSwap = False,
        pcr_world = (ex_out 5 (pcs_world (ex_capture 2)), [], 1)\<rparr> = Some (RECEIVER_SUCCESS, r1) \<and>
    pcap_receiver.receive_each ex_sys (Suc (Suc 0)) [] r1 =
      Some ([(RECEIVER_SUCCESS, [7]), (RECEIVER_SUCCESS, [7])], r2)"
proof -
  let ?w = "(ex_out 5 (pcs_world (ex_capture 2)), [], 1)"
  let ?r = "\<lparr>pcr_mFilePath = ''f'', pcr_mFd = - 1, pcr_mSwap = False, pcr_world = ?w\<rparr>"
  have io: "sys_open_write ex_sys (c_str (pcs_mFilePath (tg_mSender ex_generator))) (pcs_world (tg_mSender ex_generator)) = (5, ([], [], 0))"
    "sys_open_read ex_sys (c_str (pcr_mFilePath ?r)) (pcr_world ?r) = (5, ?w)"
    "ex_out 5 ([], [], 0) = []" "\<And>w. ex_out 5 (snd (sys_clock ex_sys w)) = ex_out 5 w"
    "ex_src 5 ?w = ex_out 5 (pcs_world (tg_mSender (ex_running 2)))"
    by (simp_all add: ex_sys_def ex_generator_def new_TrafficGenerator_def ex_out_def ex_src_def ex_running_def)
  from generated_capture_replays [OF ex_sys_write ex_sys_read ex_sys_only_interrupts io(1,3,4) ex_generator_runs(1)
      ex_generator_loop(2) _ ex_generator_loop(1) io(2) _ _ io(5) ex_generator_loop(3) [symmetric]]
  show ?thesis
    by (simp del: pcap_receiver.receive_each.simps) blast
qed

end
